(* ===== verification/Omni_Prelude.thy ===== *)
theory Omni_Prelude
  imports Main "HOL-Library.Word" "HOL-Library.List_Lexorder" "HOL-Library.Char_ord"
begin

text \<open>
  Shared vocabulary of the development: the model of \<^verbatim>\<open>std::map\<close> (and of \<^verbatim>\<open>std::set\<close> of
  pointers) as an association list sorted by key, with its interface as a locale, and the C
  conversions between integer widths.
\<close>

named_theorems smap_simps "rewrite rules of the sorted association lists"
named_theorems num_simps "rewrite rules of the number conversions"

section \<open>Ordered maps (std::map, std::set)\<close>

text \<open>
  \<^verbatim>\<open>std::map\<close> iterates in key order, and the logfile writer depends on that order, so a map
  is the list of its entries in iteration order. \<^verbatim>\<open>std::string\<close> keys compare bytewise, which is
  the lexicographic order on \<^typ>\<open>string\<close>.
\<close>

type_synonym ('k, 'v) smap = "('k \<times> 'v) list"

definition smap_ok :: "('k::linorder, 'v) smap \<Rightarrow> bool" where
  "smap_ok m \<longleftrightarrow> sorted_wrt (<) (map fst m)"

fun smap_set :: "'k::linorder \<Rightarrow> 'v \<Rightarrow> ('k, 'v) smap \<Rightarrow> ('k, 'v) smap" where
  "smap_set k v [] = [(k, v)]"
| "smap_set k v ((k', v') # m) =
     (if k < k' then (k, v) # (k', v') # m
      else if k = k' then (k, v) # m
      else (k', v') # smap_set k v m)"

fun smap_erase :: "'k \<Rightarrow> ('k, 'v) smap \<Rightarrow> ('k, 'v) smap" where
  "smap_erase k [] = []"
| "smap_erase k ((k', v') # m) = (if k = k' then m else (k', v') # smap_erase k m)"

lemma smap_ok_Nil [simp]: "smap_ok []"
  by (simp add: smap_ok_def)

lemma smap_ok_Cons [simp]:
  "smap_ok ((k, v) # m) \<longleftrightarrow> (\<forall>k' \<in> fst ` set m. k < k') \<and> smap_ok m"
  by (auto simp: smap_ok_def)

lemma smap_ok_distinct: "smap_ok m \<Longrightarrow> distinct (map fst m)"
  by (induction m) (auto, force)

lemma smap_set_keys [smap_simps, simp]: "fst ` set (smap_set k v m) = insert k (fst ` set m)"
  by (induction k v m rule: smap_set.induct) auto

lemma smap_erase_subset: "set (smap_erase k m) \<subseteq> set m"
  by (induction k m rule: smap_erase.induct) auto

lemma smap_set_ok: "smap_ok m \<Longrightarrow> smap_ok (smap_set k v m)"
proof (induction k v m rule: smap_set.induct)
  case (2 k v k' v' m)
  consider "k < k'" | "k = k'" | "k' < k" by (rule linorder_cases)
  then show ?case
  proof cases
    case 1
    with 2(2) show ?thesis by (auto intro: less_trans)
  next
    case 3
    then have "smap_ok (smap_set k v m)" using 2 by auto
    with 2(2) 3 show ?thesis by (simp add: less_le_not_le)
  qed (use 2(2) in simp)
qed simp

lemma smap_erase_ok: "smap_ok m \<Longrightarrow> smap_ok (smap_erase k m)"
proof (induction k m rule: smap_erase.induct)
  case (2 k k' v' m)
  then show ?case using smap_erase_subset [of k m] by auto
qed simp

lemma map_of_smap_set: "map_of (smap_set k v m) = (map_of m)(k \<mapsto> v)"
  by (induction k v m rule: smap_set.induct) (auto simp: fun_eq_iff)

lemma map_of_notin: "k \<notin> fst ` set m \<Longrightarrow> map_of m k = None"
  by (induction m) auto

lemma map_of_smap_erase: "smap_ok m \<Longrightarrow> map_of (smap_erase k m) = (map_of m)(k := None)"
proof (induction k m rule: smap_erase.induct)
  case (2 k k' v' m)
  then have "k' \<notin> fst ` set m" by auto
  with 2 show ?case by (auto simp: fun_eq_iff map_of_notin)
qed auto

lemma smap_erase_keys: "smap_ok m \<Longrightarrow> fst ` set (smap_erase k m) = fst ` set m - {k}"
proof (induction k m rule: smap_erase.induct)
  case (2 k k' v' m)
  then have "k' \<notin> fst ` set m" by auto
  with 2 show ?case by (cases "k = k'") auto
qed simp

lemma smap_erase_id: "k \<notin> fst ` set m \<Longrightarrow> smap_erase k m = m"
  by (induction k m rule: smap_erase.induct) auto

lemma smap_erase_idem: "smap_ok m \<Longrightarrow> smap_erase k (smap_erase k m) = smap_erase k m"
  by (rule smap_erase_id) (simp add: smap_erase_keys)

lemma smap_erase_set_new: "k \<notin> fst ` set m \<Longrightarrow> smap_erase k (smap_set k v m) = m"
  by (induction k v m rule: smap_set.induct) auto

lemma smap_set_twice: "smap_set k v (smap_set k v' m) = smap_set k v m"
  by (induction k v' m rule: smap_set.induct) auto

lemma smap_set_same: "smap_ok m \<Longrightarrow> map_of m k = Some v \<Longrightarrow> smap_set k v m = m"
proof (induction m)
  case (Cons e m)
  obtain k' v' where e: "e = (k', v')" by force
  show ?case
  proof (cases "k = k'")
    case False
    with Cons.prems e have "map_of m k = Some v" by simp
    then have "k \<in> fst ` set m" by (metis map_of_notin option.distinct(1))
    with Cons e False show ?thesis by fastforce
  qed (use Cons e in auto)
qed simp

lemma smap_set_append: "(\<And>k'. k' \<in> fst ` set m \<Longrightarrow> k' < k) \<Longrightarrow> smap_set k v m = m @ [(k, v)]"
proof (induction k v m rule: smap_set.induct)
  case (2 k v k' v' m)
  have "k' < k" using 2(2) by simp
  then have "\<not> k < k'" and "k \<noteq> k'" by auto
  then have "smap_set k v m = m @ [(k, v)]" using 2 by simp
  then show ?case using \<open>\<not> k < k'\<close> \<open>k \<noteq> k'\<close> by simp
qed simp

text \<open>
  The contract of \<^verbatim>\<open>std::map\<close> the clients rely on, and its discharge for the sorted
  association list.
\<close>

locale std_map =
  fixes look :: "'m \<Rightarrow> 'k \<Rightarrow> 'v option"
    and put :: "'k \<Rightarrow> 'v \<Rightarrow> 'm \<Rightarrow> 'm"
    and del :: "'k \<Rightarrow> 'm \<Rightarrow> 'm"
    and ok :: "'m \<Rightarrow> bool"
  assumes look_put: "ok m \<Longrightarrow> look (put k v m) = (look m)(k \<mapsto> v)"
    and look_del: "ok m \<Longrightarrow> look (del k m) = (look m)(k := None)"
    and ok_put: "ok m \<Longrightarrow> ok (put k v m)"
    and ok_del: "ok m \<Longrightarrow> ok (del k m)"
begin

lemma look_put_same: "ok m \<Longrightarrow> look (put k v m) k = Some v"
  by (simp add: look_put)

lemma look_put_other: "ok m \<Longrightarrow> k' \<noteq> k \<Longrightarrow> look (put k v m) k' = look m k'"
  by (simp add: look_put)

lemma look_del_same: "ok m \<Longrightarrow> look (del k m) k = None"
  by (simp add: look_del)

lemma look_del_other: "ok m \<Longrightarrow> k' \<noteq> k \<Longrightarrow> look (del k m) k' = look m k'"
  by (simp add: look_del)

lemma look_put_del: "ok m \<Longrightarrow> look (del k (put k v m)) = (look m)(k := None)"
  by (simp add: look_put look_del ok_put)

lemma dom_put: "ok m \<Longrightarrow> dom (look (put k v m)) = insert k (dom (look m))"
  by (simp add: look_put)

lemma dom_del: "ok m \<Longrightarrow> dom (look (del k m)) = dom (look m) - {k}"
  by (simp add: look_del)

end

interpretation sm: std_map map_of smap_set smap_erase "smap_ok :: ('k::linorder, 'v) smap \<Rightarrow> bool"
  by unfold_locales (simp_all add: map_of_smap_set map_of_smap_erase smap_set_ok smap_erase_ok)

lemma smap_ok_map_of: "smap_ok m \<Longrightarrow> (k, v) \<in> set m \<Longrightarrow> map_of m k = Some v"
  by (simp add: smap_ok_distinct)

lemma map_of_Some_in: "map_of m k = Some v \<Longrightarrow> (k, v) \<in> set m"
  by (rule map_of_SomeD)

section \<open>C integer conversions\<close>

text \<open>
  The platform is the usual LP64 one: \<^verbatim>\<open>int\<close> and \<^verbatim>\<open>CORBA::ULong\<close> have 32 bits, \<^verbatim>\<open>long\<close> has 64.
  \<open>to_int32\<close> is the conversion of a \<^verbatim>\<open>long\<close> to \<^verbatim>\<open>int\<close>.
\<close>

type_synonym ulong = "32 word"
type_synonym uint64 = "64 word"

definition to_int32 :: "int \<Rightarrow> int" where
  "to_int32 i = signed_take_bit 31 i"

lemma to_int32_id: "- (2 ^ 31) \<le> i \<Longrightarrow> i < 2 ^ 31 \<Longrightarrow> to_int32 i = i"
  unfolding to_int32_def by (rule signed_take_bit_int_eq_self) auto

lemma to_int32_uint: "to_int32 (uint (v :: ulong)) = sint v"
  by (simp add: to_int32_def sint_uint)

lemma word_of_sint_ulong: "word_of_int (sint (v :: ulong)) = v"
  by simp

end
