(* ===== verification/C_Text.thy ===== *)
theory C_Text
  imports Omni_Prelude
begin

text \<open>
  The pieces of the C and C++ standard library through which the program reads and writes
  text: \<^verbatim>\<open>sprintf\<close> of \<^verbatim>\<open>%i\<close>, \<^verbatim>\<open>%d\<close> and \<^verbatim>\<open>%lx\<close>, \<^verbatim>\<open>atol\<close>, and \<^verbatim>\<open>std::istream\<close> with \<^verbatim>\<open>operator>>\<close> on
  strings and \<^verbatim>\<open>ignore\<close>. The stream keeps its \<^verbatim>\<open>eofbit\<close> and \<^verbatim>\<open>failbit\<close>, because the logfile
  parser depends on what a failed extraction leaves in its string argument.
\<close>

section \<open>Numbers as text\<close>

definition digit_char :: "nat \<Rightarrow> char" where
  "digit_char d = (if d < 10 then char_of (48 + d) else char_of (87 + d))"

definition digit_val :: "char \<Rightarrow> nat" where
  "digit_val c = (if of_char c < (58::nat) then of_char c - 48 else of_char c - 87)"

fun show_base :: "nat \<Rightarrow> nat \<Rightarrow> string" where
  "show_base b n = (if b \<le> 1 \<or> n < b then [digit_char n]
                    else show_base b (n div b) @ [digit_char (n mod b)])"

declare show_base.simps [simp del]

definition show_int :: "int \<Rightarrow> string" where
  "show_int i = (if i < 0 then CHR ''-'' # show_base 10 (nat (- i)) else show_base 10 (nat i))"

definition is_dec :: "char \<Rightarrow> bool" where
  "is_dec c \<longleftrightarrow> (48::nat) \<le> of_char c \<and> of_char c < (58::nat)"

fun read_base :: "nat \<Rightarrow> nat \<Rightarrow> string \<Rightarrow> nat" where
  "read_base b acc [] = acc"
| "read_base b acc (c # cs) = read_base b (acc * b + digit_val c) cs"

definition c_space :: "char \<Rightarrow> bool" where
  "c_space c \<longleftrightarrow> of_char c = (32::nat) \<or> (9 \<le> (of_char c :: nat) \<and> of_char c \<le> (13::nat))"

definition long_max :: int where "long_max = 2 ^ 63 - 1"
definition long_min :: int where "long_min = - (2 ^ 63)"

definition c_atol :: "string \<Rightarrow> int" where
  "c_atol s =
     (let t = dropWhile c_space s;
          neg = (t \<noteq> [] \<and> hd t = CHR ''-'');
          u = (if t \<noteq> [] \<and> (hd t = CHR ''-'' \<or> hd t = CHR ''+'') then tl t else t);
          n = int (read_base 10 0 (takeWhile is_dec u))
      in if neg then max long_min (- n) else min long_max n)"

lemma digit_val_char: "d < 16 \<Longrightarrow> digit_val (digit_char d) = d"
  by (simp add: digit_val_def digit_char_def of_char_of)

lemma is_dec_digit_char: "d < 10 \<Longrightarrow> is_dec (digit_char d)"
  by (simp add: is_dec_def digit_char_def of_char_of)

lemma of_char_digit_char: "d < 16 \<Longrightarrow>
   (of_char (digit_char d) :: nat) = (if d < 10 then 48 + d else 87 + d)"
  by (simp add: digit_char_def of_char_of)

lemma read_base_append: "read_base b acc (xs @ ys) = read_base b (read_base b acc xs) ys"
  by (induction xs arbitrary: acc) auto

lemma read_show_base:
  assumes "2 \<le> b" and "b \<le> 16"
  shows "read_base b 0 (show_base b n) = n"
proof (induction n rule: less_induct)
  case (less n)
  show ?case
  proof (cases "n < b")
    case True
    with assms show ?thesis by (simp add: show_base.simps [of b n] digit_val_char)
  next
    case False
    then have "n div b < n" using assms by (simp add: div_less_dividend)
    then have "read_base b 0 (show_base b (n div b)) = n div b" by (rule less)
    moreover have "n mod b < 16" using assms
      by (meson less_le_trans mod_less_divisor less_le_trans zero_less_numeral)
    ultimately show ?thesis using False assms
      by (simp add: show_base.simps [of b n] read_base_append digit_val_char)
  qed
qed

lemma show_base_inj: "2 \<le> b \<Longrightarrow> b \<le> 16 \<Longrightarrow> show_base b m = show_base b n \<Longrightarrow> m = n"
  by (metis read_show_base)

lemma show_base_chars:
  assumes "2 \<le> b" and "b \<le> 16" and "c \<in> set (show_base b n)"
  shows "\<exists>d < b. c = digit_char d"
  using assms(3)
proof (induction n rule: less_induct)
  case (less n)
  show ?case
  proof (cases "n < b")
    case True
    with less.prems show ?thesis by (auto simp: show_base.simps [of b n])
  next
    case False
    have m: "n mod b < b" using assms(1) by simp
    from False less.prems assms(1)
    have "c \<in> set (show_base b (n div b)) \<or> c = digit_char (n mod b)"
      by (auto simp: show_base.simps [of b n])
    moreover have "n div b < n" using False assms(1) by (simp add: div_less_dividend)
    ultimately show ?thesis using m less.IH by blast
  qed
qed

lemma show_base_not_Nil [simp]: "show_base b n \<noteq> []"
  by (subst show_base.simps) simp

lemma show_base_dec: "\<forall>c \<in> set (show_base 10 n). is_dec c"
  using show_base_chars [of 10 _ n] is_dec_digit_char by fastforce

lemma is_dec_not_space: "is_dec c \<Longrightarrow> \<not> c_space c \<and> c \<noteq> CHR ''-'' \<and> c \<noteq> CHR ''+''"
  by (auto simp: is_dec_def c_space_def)

lemma show_base_dropWhile: "dropWhile c_space (show_base 10 n) = show_base 10 n"
  using show_base_dec [of n] is_dec_not_space by (cases "show_base 10 n") auto

lemma show_base_takeWhile: "takeWhile is_dec (show_base 10 n) = show_base 10 n"
  using show_base_dec [of n] by (simp add: takeWhile_eq_all_conv)

lemma show_base_hd: "hd (show_base 10 n) \<noteq> CHR ''-'' \<and> hd (show_base 10 n) \<noteq> CHR ''+''"
  using show_base_dec [of n] is_dec_not_space by (cases "show_base 10 n") auto

text \<open>Reading back a printed \<^verbatim>\<open>long\<close> gives the number: the base of every numeric attribute.\<close>

lemma atol_show_int: "long_min \<le> i \<Longrightarrow> i \<le> long_max \<Longrightarrow> c_atol (show_int i) = i"
  by (auto simp: c_atol_def show_int_def Let_def show_base_dropWhile show_base_takeWhile
        show_base_hd read_show_base c_space_def)

lemma show_int_chars: "c \<in> set (show_int i) \<Longrightarrow> is_dec c \<or> c = CHR ''-''"
  using show_base_dec by (auto simp: show_int_def split: if_splits)

lemma show_int_no_space: "c \<in> set (show_int i) \<Longrightarrow> \<not> c_space c"
  using show_int_chars is_dec_not_space by (fastforce simp: c_space_def)

section \<open>Input streams\<close>

record istream =
  is_rest :: string
  is_eof :: bool
  is_fail :: bool

definition istream_of :: "string \<Rightarrow> istream" where
  "istream_of s = \<lparr>is_rest = s, is_eof = False, is_fail = False\<rparr>"

definition is_good :: "istream \<Rightarrow> bool" where
  "is_good s \<longleftrightarrow> \<not> is_eof s \<and> \<not> is_fail s"

text \<open>
  \<^verbatim>\<open>is >> tok\<close>: the sentry fails on a stream that is not good or has only white space left, and
  then \<^verbatim>\<open>tok\<close> keeps its old value; otherwise \<^verbatim>\<open>tok\<close> is erased and the next word read into it,
  with \<^verbatim>\<open>eofbit\<close> when the word is ended by the end of the stream.
\<close>

definition is_extract :: "istream \<Rightarrow> string \<Rightarrow> string \<times> istream" where
  "is_extract s tok =
     (if \<not> is_good s then (tok, s\<lparr>is_fail := True\<rparr>)
      else let r = dropWhile c_space (is_rest s) in
        if r = [] then (tok, s\<lparr>is_rest := [], is_eof := True, is_fail := True\<rparr>)
        else (takeWhile (\<lambda>c. \<not> c_space c) r,
              s\<lparr>is_rest := dropWhile (\<lambda>c. \<not> c_space c) r,
                is_eof := (dropWhile (\<lambda>c. \<not> c_space c) r = [])\<rparr>))"

text \<open>\<^verbatim>\<open>is.ignore(n,delim)\<close>: drop up to \<open>n\<close> characters, up to and including the first \<open>delim\<close>.\<close>

fun ignore_chars :: "nat \<Rightarrow> char \<Rightarrow> string \<Rightarrow> string \<times> bool" where
  "ignore_chars n d [] = ([], n \<noteq> 0)"
| "ignore_chars n d (c # cs) =
     (if n = 0 then (c # cs, False) else if c = d then (cs, False)
      else ignore_chars (n - 1) d cs)"

definition is_ignore :: "nat \<Rightarrow> char \<Rightarrow> istream \<Rightarrow> istream" where
  "is_ignore n d s =
     (if \<not> is_good s then s\<lparr>is_fail := True\<rparr>
      else case ignore_chars n d (is_rest s) of (r, e) \<Rightarrow> s\<lparr>is_rest := r, is_eof := e\<rparr>)"

definition int_max :: nat where "int_max = 2147483647"

definition c_newline :: char where "c_newline = CHR 0x0A"

definition strm_left :: "istream \<Rightarrow> nat" where
  "strm_left s = length (is_rest s) + (if is_fail s then 0 else 1)"

lemma length_ignore_chars: "length (fst (ignore_chars n d cs)) \<le> length cs"
  by (induction n d cs rule: ignore_chars.induct) auto

lemma is_ignore_left: "strm_left (is_ignore n d s) \<le> strm_left s"
  using length_ignore_chars [of n d "is_rest s"]
  by (auto simp: is_ignore_def strm_left_def split: prod.splits)

lemma dropWhile_word:
  assumes "r \<noteq> []" and "\<not> P (hd r)"
  shows "length (dropWhile (\<lambda>c. \<not> P c) r) < length r"
  using assms by (cases r) (auto simp: length_dropWhile_le le_imp_less_Suc)

lemma hd_dropWhile_space: "dropWhile P s \<noteq> [] \<Longrightarrow> \<not> P (hd (dropWhile P s))"
  by (rule hd_dropWhile)

lemma is_extract_left:
  assumes "\<not> is_fail s"
  shows "strm_left (snd (is_extract s tok)) < strm_left s"
proof -
  let ?r = "dropWhile c_space (is_rest s)"
  have le: "length ?r \<le> length (is_rest s)" by (rule length_dropWhile_le)
  show ?thesis
  proof (cases "is_good s \<and> ?r \<noteq> []")
    case True
    then have "length (dropWhile (\<lambda>c. \<not> c_space c) ?r) < length ?r"
      by (intro dropWhile_word hd_dropWhile_space) auto
    with True le assms show ?thesis by (auto simp: is_extract_def strm_left_def Let_def)
  next
    case False
    with assms show ?thesis by (auto simp: is_extract_def strm_left_def Let_def)
  qed
qed

lemma is_extract_fail_mono: "is_fail s \<Longrightarrow> is_fail (snd (is_extract s tok))"
  by (simp add: is_extract_def is_good_def)

end
