(* ===== verification/Corba_Orb.thy ===== *)
theory Corba_Orb
  imports C_Text
begin

text \<open>
  The CORBA vocabulary of the program, and \<^verbatim>\<open>Orb.cc\<close>, \<^verbatim>\<open>Orb.h\<close>, \<^verbatim>\<open>Servant.cc\<close> and \<^verbatim>\<open>Servant.h\<close>.
  omniORB itself is not part of the repository. Every call the program makes to it is
  recorded in the trace of the \<open>world\<close>, and its answer is given by an \<open>env\<close>, a parameter of
  every definition: a record of functions from the calls made so far to the answer. A
  theorem that holds for every \<open>env\<close> holds whatever the ORB answers.
\<close>

section \<open>Values, exceptions, requests\<close>

datatype tckind =
    tk_null | tk_void | tk_short | tk_long | tk_ushort | tk_ulong | tk_float | tk_double
  | tk_boolean | tk_char | tk_octet | tk_any | tk_TypeCode | tk_Principal | tk_objref
  | tk_struct | tk_union | tk_enum | tk_string | tk_sequence | tk_array | tk_alias
  | tk_except | tk_longlong | tk_ulonglong | tk_longdouble | tk_wchar | tk_wstring
  | tk_fixed | tk_value | tk_value_box | tk_native | tk_abstract_interface
  | tk_local_interface | np_tk_indirect

datatype any = Any (any_kind: tckind) (any_id: string) (any_val: any_value)
and any_value = VNone | VBool bool | VULong ulong | VString string | VAny any | VOther nat

definition empty_any :: any where
  "empty_any = Any tk_null [] VNone"

definition any_boolean :: "any \<Rightarrow> bool option" where
  "any_boolean a = (case any_val a of VBool b \<Rightarrow> Some b | _ \<Rightarrow> None)"

definition any_ulong :: "any \<Rightarrow> ulong option" where
  "any_ulong a = (case any_val a of VULong v \<Rightarrow> Some v | _ \<Rightarrow> None)"

definition any_string :: "any \<Rightarrow> string option" where
  "any_string a = (case any_val a of VString s \<Rightarrow> Some s | _ \<Rightarrow> None)"

definition any_any :: "any \<Rightarrow> any option" where
  "any_any a = (case any_val a of VAny b \<Rightarrow> Some b | _ \<Rightarrow> None)"

type_synonym objref = nat
type_synonym addr = nat
type_synonym criteria = "(string \<times> any) list"

text \<open>
  The exceptions the program throws or catches, and the ways in which it ends: \<open>ProcessExit\<close>
  for \<^verbatim>\<open>exit(n)\<close>, \<open>AssertFail\<close> for a failed \<^verbatim>\<open>assert\<close>, \<open>BadAlloc\<close>, and \<open>InvalidAccess\<close> for a
  read through a null pointer or outside an array.
\<close>

datatype exn =
    BAD_PARAM | OBJECT_NOT_EXIST | TRANSIENT | COMM_FAILURE | TIMEOUT | UNKNOWN
  | SystemOther string
  | AlreadyConnected | TypeError | Disconnected
  | ServantNotActive | ServantAlreadyActive | ObjectAlreadyActive | ObjectNotActive
  | WrongPolicy | AdapterAlreadyExists | InvalidPolicy nat | AdapterInactive
  | NoFactory | InvalidCriteria criteria | CannotMeetCriteria criteria
  | NameAlreadyUsed | EventChannelNotFound | UserOther string
  | ProcessExit int | AssertFail | BadAlloc | InvalidAccess

fun is_system_exn :: "exn \<Rightarrow> bool" where
  "is_system_exn BAD_PARAM = True"
| "is_system_exn OBJECT_NOT_EXIST = True"
| "is_system_exn TRANSIENT = True"
| "is_system_exn COMM_FAILURE = True"
| "is_system_exn TIMEOUT = True"
| "is_system_exn UNKNOWN = True"
| "is_system_exn (SystemOther _) = True"
| "is_system_exn _ = False"

fun is_fatal :: "exn \<Rightarrow> bool" where
  "is_fatal (ProcessExit _) = True"
| "is_fatal AssertFail = True"
| "is_fatal BadAlloc = True"
| "is_fatal InvalidAccess = True"
| "is_fatal _ = False"

text \<open>The two exceptions of \<^verbatim>\<open>create_POA\<close> that the managers catch.\<close>

fun is_poa_clash :: "exn \<Rightarrow> bool" where
  "is_poa_clash AdapterAlreadyExists = True"
| "is_poa_clash (InvalidPolicy _) = True"
| "is_poa_clash _ = False"

definition is_corba_exn :: "exn \<Rightarrow> bool" where
  "is_corba_exn e \<longleftrightarrow> \<not> is_fatal e"

definition is_user_exn :: "exn \<Rightarrow> bool" where
  "is_user_exn e \<longleftrightarrow> \<not> is_fatal e \<and> \<not> is_system_exn e"

datatype request = Request (req_id: nat) (req_target: objref) (req_op: string) (req_args: "any list")

text \<open>What \<^verbatim>\<open>poll_response()\<close>, \<^verbatim>\<open>env()\<close>, \<^verbatim>\<open>return_value()\<close> and \<^verbatim>\<open>arguments()\<close> tell of a request.\<close>

datatype response =
    Pending
  | Reply (rsp_value: any) (rsp_args: "(string \<times> any) list")
  | Raised exn

datatype policy =
    PERSISTENT | USER_ID | MULTIPLE_ID | NO_IMPLICIT_ACTIVATION | USE_SERVANT_MANAGER
  | USE_DEFAULT_SERVANT | NON_RETAIN | SINGLE_THREAD_MODEL

datatype call =
    SendDeferred request
  | PollResponse request
  | PoaServantToId string addr
  | PoaActivate string string addr
  | PoaDeactivate string string
  | PoaCreate string string "policy list"
  | PoaSetServant string addr
  | PoaDestroy string
  | PoaHold string
  | PoaManagerActivate string
  | CreateReference string string
  | ReportFailure string
  | RemoteCall objref string
  | GetTime
  | Join addr

record env =
  env_poll :: "call list \<Rightarrow> request \<Rightarrow> response"
  env_throws :: bool
  env_time :: "call list \<Rightarrow> nat \<times> nat"
  env_pid :: int
  env_servant_to_id :: "call list \<Rightarrow> string \<Rightarrow> addr \<Rightarrow> exn + string"
  env_bad_oid :: "string \<Rightarrow> bool"
  env_activate :: "call list \<Rightarrow> string \<Rightarrow> string \<Rightarrow> addr \<Rightarrow> exn option"
  env_deactivate :: "call list \<Rightarrow> string \<Rightarrow> string \<Rightarrow> exn option"
  env_create_poa :: "call list \<Rightarrow> string \<Rightarrow> string \<Rightarrow> exn option"
  env_create_ref :: "call list \<Rightarrow> string \<Rightarrow> string \<Rightarrow> objref option"
  env_string_to_object :: "string \<Rightarrow> exn + objref option"
  env_object_to_string :: "objref \<Rightarrow> string"
  env_this :: "call list \<Rightarrow> addr \<Rightarrow> objref"
  env_remote :: "call list \<Rightarrow> objref \<Rightarrow> string \<Rightarrow> exn option"
  env_current_oid :: "call list \<Rightarrow> exn + string"
  env_tckind :: "int \<Rightarrow> tckind"
  env_hold :: "call list \<Rightarrow> exn option"
  env_alloc :: "call list \<Rightarrow> addr"
  env_id_to_ref :: "call list \<Rightarrow> string \<Rightarrow> string \<Rightarrow> exn + objref"

text \<open>
  The shared state of the program: the trace of ORB calls; \<^verbatim>\<open>Orb::_deferredRequests\<close> and
  \<^verbatim>\<open>Orb::_shutdownRequested\<close>; the text written to the active logfile since it was opened
  (\<open>None\<close> when \<^verbatim>\<open>omniEventsLog::theLog\<close> is null) and \<^verbatim>\<open>_checkpointNeeded\<close>; the reference
  counts of the servants; the \<^verbatim>\<open>count\<close> of \<^verbatim>\<open>newUniqueId()\<close>.
\<close>

record world =
  w_trace :: "call list"
  w_deferred :: "(request \<times> addr option) list"
  w_shutdown :: bool
  w_log :: "string option"
  w_checkpoint :: bool
  w_refs :: "addr \<Rightarrow> int"
  w_count :: uint64

definition init_world :: "bool \<Rightarrow> world" where
  "init_world logging = \<lparr>w_trace = [], w_deferred = [], w_shutdown = False,
     w_log = (if logging then Some [] else None), w_checkpoint = True,
     w_refs = (\<lambda>_. 0), w_count = 0\<rparr>"

text \<open>An environment for concrete runs: no response ever arrives and every call succeeds.\<close>

definition idle_env :: env where
  "idle_env = \<lparr>env_poll = (\<lambda>_ _. Pending), env_throws = True, env_time = (\<lambda>_. (1000, 0)),
     env_pid = 42, env_servant_to_id = (\<lambda>_ _ a. Inr (show_int (int a))),
     env_bad_oid = (\<lambda>_. False), env_activate = (\<lambda>_ _ _ _. None),
     env_deactivate = (\<lambda>_ _ _. None), env_create_poa = (\<lambda>_ _ _. None),
     env_create_ref = (\<lambda>_ _ _. Some 1), env_string_to_object = (\<lambda>s. Inr (Some (length s))),
     env_object_to_string = (\<lambda>obj. replicate obj (CHR ''x'')), env_this = (\<lambda>_ a. a),
     env_remote = (\<lambda>_ _ _. None), env_current_oid = (\<lambda>_. Inr ''oid''),
     env_tckind = (\<lambda>_. tk_null), env_hold = (\<lambda>_. None), env_alloc = length,
     env_id_to_ref = (\<lambda>_ _ _. Inr 1)\<rparr>"

definition orb_call :: "call \<Rightarrow> world \<Rightarrow> world" where
  "orb_call c w = w\<lparr>w_trace := w_trace w @ [c]\<rparr>"

text \<open>Sequencing of operations that may throw: the second runs only if the first returned.\<close>

definition then_do :: "exn option \<times> 's \<Rightarrow> ('s \<Rightarrow> exn option \<times> 's) \<Rightarrow> exn option \<times> 's" where
  "then_do r f = (case r of (None, s) \<Rightarrow> f s | (Some e, s) \<Rightarrow> (Some e, s))"

section \<open>Orb: deferred requests\<close>

definition send_deferred :: "objref \<Rightarrow> string \<Rightarrow> any list \<Rightarrow> world \<Rightarrow> request \<times> world" where
  "send_deferred target op args w =
     (let r = Request (length (w_trace w)) target op args
      in (r, orb_call (SendDeferred r) w))"

definition add_ref :: "addr \<Rightarrow> world \<Rightarrow> world" where
  "add_ref a w = w\<lparr>w_refs := (w_refs w)(a := w_refs w a + 1)\<rparr>"

definition remove_ref :: "addr \<Rightarrow> world \<Rightarrow> world" where
  "remove_ref a w = w\<lparr>w_refs := (w_refs w)(a := w_refs w a - 1)\<rparr>"

definition deferredRequest :: "request \<Rightarrow> addr option \<Rightarrow> world \<Rightarrow> world" where
  "deferredRequest req callback w =
     (let cb = (if w_shutdown w then None else callback);
          w1 = (case cb of Some a \<Rightarrow> add_ref a w | None \<Rightarrow> w)
      in w1\<lparr>w_deferred := w_deferred w1 @ [(req, cb)]\<rparr>)"

text \<open>
  One pass of the loop of \<^verbatim>\<open>Orb::run()\<close> over the deferred requests, with the dispatch of
  \<^verbatim>\<open>Callback::callback()\<close> on the state \<open>'s\<close> of the callback objects as a parameter: what a
  callback throws is swallowed, so it is a function on states. The pass returns the
  callbacks it has used; their references are dropped when the lock is released.
\<close>

definition poll_response :: "env \<Rightarrow> request \<Rightarrow> world \<Rightarrow> response \<times> world" where
  "poll_response E req w = (env_poll E (w_trace w) req, orb_call (PollResponse req) w)"

definition poll_one :: "env \<Rightarrow> (addr \<Rightarrow> request \<Rightarrow> any \<Rightarrow> 's \<times> world \<Rightarrow> 's \<times> world)
    \<Rightarrow> request \<Rightarrow> addr option \<Rightarrow> 's \<times> world \<Rightarrow> response \<times> 's \<times> world" where
  "poll_one E dispatch req cb sw =
     (case poll_response E req (snd sw) of (rsp, w1) \<Rightarrow>
        (rsp, case rsp of
           Reply v _ \<Rightarrow> (case cb of Some a \<Rightarrow> dispatch a req v (fst sw, w1) | None \<Rightarrow> (fst sw, w1))
         | _ \<Rightarrow> (fst sw, w1)))"

fun poll_pass :: "env \<Rightarrow> (addr \<Rightarrow> request \<Rightarrow> any \<Rightarrow> 's \<times> world \<Rightarrow> 's \<times> world)
    \<Rightarrow> (request \<times> addr option) list \<Rightarrow> 's \<times> world
    \<Rightarrow> (request \<times> addr option) list \<times> addr list \<times> 's \<times> world" where
  "poll_pass E dispatch [] sw = ([], [], sw)"
| "poll_pass E dispatch ((req, cb) # ds) sw =
     (case poll_one E dispatch req cb sw of (rsp, sw1) \<Rightarrow>
      case poll_pass E dispatch ds sw1 of (keep, used, sw') \<Rightarrow>
        if rsp = Pending then ((req, cb) # keep, used, sw')
        else (keep, (case cb of Some a \<Rightarrow> a # used | None \<Rightarrow> used), sw'))"

definition run_once :: "env \<Rightarrow> (addr \<Rightarrow> request \<Rightarrow> any \<Rightarrow> 's \<times> world \<Rightarrow> 's \<times> world)
    \<Rightarrow> 's \<times> world \<Rightarrow> 's \<times> world" where
  "run_once E dispatch sw =
     (case poll_pass E dispatch (w_deferred (snd sw)) sw of (keep, used, sw') \<Rightarrow>
        (fst sw', fold remove_ref used ((snd sw')\<lparr>w_deferred := keep\<rparr>)))"

text \<open>The clean-up at the end of \<^verbatim>\<open>Orb::run()\<close>: every outstanding request is collected.\<close>

definition drain_deferred :: "world \<Rightarrow> world" where
  "drain_deferred w =
     (fold (\<lambda>(req, cb) v. case cb of Some a \<Rightarrow> remove_ref a v | None \<Rightarrow> v) (w_deferred w) w)
       \<lparr>w_deferred := []\<rparr>"

definition orb_shutdown :: "world \<Rightarrow> world" where
  "orb_shutdown w = w\<lparr>w_shutdown := True\<rparr>"

text \<open>\<^verbatim>\<open>string_to_<T>\<close>: a nil object and a failed narrow are \<open>BAD_PARAM\<close>.\<close>

definition string_to :: "env \<Rightarrow> string \<Rightarrow> exn + objref" where
  "string_to E s = (case env_string_to_object E s of
      Inl e \<Rightarrow> Inl e
    | Inr None \<Rightarrow> Inl BAD_PARAM
    | Inr (Some obj) \<Rightarrow> Inr obj)"

section \<open>Writing to the logfile\<close>

text \<open>
  \<^verbatim>\<open>if(omniEventsLog::exists()) { WriteLock log; output(log.os) }\<close>: the text written before an
  exception stays written, and the destructor of \<^verbatim>\<open>WriteLock\<close> sets \<^verbatim>\<open>_checkpointNeeded\<close>.
\<close>

type_synonym outres = "string \<times> exn option"

definition log_output :: "outres \<Rightarrow> world \<Rightarrow> exn option \<times> world" where
  "log_output out w = (case w_log w of
      None \<Rightarrow> (None, w)
    | Some t \<Rightarrow> (snd out, w\<lparr>w_log := Some (t @ fst out), w_checkpoint := True\<rparr>))"

definition log_write :: "(world \<Rightarrow> outres \<times> world) \<Rightarrow> world \<Rightarrow> exn option \<times> world" where
  "log_write out w = (if w_log w = None then (None, w)
     else case out w of (o1, w1) \<Rightarrow> log_output o1 w1)"

section \<open>Servant\<close>

definition newUniqueId :: "env \<Rightarrow> world \<Rightarrow> string \<times> world" where
  "newUniqueId E w =
     (let c = w_count w + 1; sec = fst (env_time E (w_trace w))
      in (show_base 16 (unat c) @ ''.'' @ show_int (env_pid E) @ ''.'' @ show_base 16 sec,
          orb_call GetTime (w\<lparr>w_count := c\<rparr>)))"

definition createReference :: "env \<Rightarrow> string \<Rightarrow> world \<Rightarrow> (exn + objref) \<times> world" where
  "createReference E poa w =
     (case newUniqueId E w of (oid, w1) \<Rightarrow>
        (case env_create_ref E (w_trace w1) poa oid of
           None \<Rightarrow> (Inl AssertFail, orb_call (CreateReference poa oid) w1)
         | Some obj \<Rightarrow> (Inr obj, orb_call (CreateReference poa oid) w1)))"

definition activateObjectWithId :: "env \<Rightarrow> string \<Rightarrow> string \<Rightarrow> addr \<Rightarrow> world \<Rightarrow> exn option \<times> world" where
  "activateObjectWithId E poa oid a w =
     (let w1 = orb_call (PoaActivate poa oid a) w
      in case env_activate E (w_trace w) poa oid a of
           None \<Rightarrow> (None, w1)
         | Some e \<Rightarrow> if e = WrongPolicy then (Some (ProcessExit 1), w1) else (Some e, w1))"

definition deactivateObject :: "env \<Rightarrow> string \<Rightarrow> addr \<Rightarrow> world \<Rightarrow> exn option \<times> world" where
  "deactivateObject E poa a w =
     (let w1 = orb_call (PoaServantToId poa a) w
      in case env_servant_to_id E (w_trace w) poa a of
           Inl e \<Rightarrow> if e = ServantNotActive then (None, w1)
                    else if e = WrongPolicy then (Some (ProcessExit 1), w1)
                    else (Some e, w1)
         | Inr oid \<Rightarrow>
             if env_bad_oid E oid then (None, w1)
             else let w2 = orb_call (PoaDeactivate poa oid) w1
                  in case env_deactivate E (w_trace w1) poa oid of
                       None \<Rightarrow> (None, w2)
                     | Some e \<Rightarrow> if e = ObjectNotActive then (None, w2)
                                 else if e = WrongPolicy then (Some (ProcessExit 1), w2)
                                 else (Some e, w2))"

section \<open>Facts about the shared operations\<close>

lemma then_do_None [simp]: "then_do (None, s) f = f s"
  and then_do_Some [simp]: "then_do (Some e, s) f = (Some e, s)"
  by (simp_all add: then_do_def)

lemma then_do_cases:
  "then_do r f = (if fst r = None then f (snd r) else r)"
  by (cases r) (auto simp: then_do_def split: option.splits)

lemma then_do_assoc: "then_do (then_do r f) g = then_do r (\<lambda>s. then_do (f s) g)"
  by (auto simp: then_do_def split: prod.splits option.splits)

lemma orb_call_simps [simp]:
  "w_trace (orb_call c w) = w_trace w @ [c]"
  "w_deferred (orb_call c w) = w_deferred w"
  "w_shutdown (orb_call c w) = w_shutdown w"
  "w_log (orb_call c w) = w_log w"
  "w_checkpoint (orb_call c w) = w_checkpoint w"
  "w_refs (orb_call c w) = w_refs w"
  "w_count (orb_call c w) = w_count w"
  by (simp_all add: orb_call_def)

lemma ref_simps [simp]:
  "w_deferred (add_ref a w) = w_deferred w"
  "w_deferred (remove_ref a w) = w_deferred w"
  "w_log (add_ref a w) = w_log w"
  "w_log (remove_ref a w) = w_log w"
  "w_trace (add_ref a w) = w_trace w"
  "w_trace (remove_ref a w) = w_trace w"
  "w_refs (add_ref a w) = (w_refs w)(a := w_refs w a + 1)"
  "w_refs (remove_ref a w) = (w_refs w)(a := w_refs w a - 1)"
  "w_shutdown (add_ref a w) = w_shutdown w"
  "w_shutdown (remove_ref a w) = w_shutdown w"
  "w_checkpoint (add_ref a w) = w_checkpoint w"
  "w_checkpoint (remove_ref a w) = w_checkpoint w"
  by (simp_all add: add_ref_def remove_ref_def)

lemma deferredRequest_simps [simp]:
  "w_log (deferredRequest r cb w) = w_log w"
  "w_trace (deferredRequest r cb w) = w_trace w"
  "w_shutdown (deferredRequest r cb w) = w_shutdown w"
  "w_checkpoint (deferredRequest r cb w) = w_checkpoint w"
  "w_deferred (deferredRequest r cb w) =
     w_deferred w @ [(r, if w_shutdown w then None else cb)]"
  by (auto simp: deferredRequest_def Let_def split: option.splits)

lemma send_deferred_simps [simp]:
  "fst (send_deferred t op args w) = Request (length (w_trace w)) t op args"
  "w_log (snd (send_deferred t op args w)) = w_log w"
  "w_trace (snd (send_deferred t op args w)) =
     w_trace w @ [SendDeferred (Request (length (w_trace w)) t op args)]"
  "w_shutdown (snd (send_deferred t op args w)) = w_shutdown w"
  "w_deferred (snd (send_deferred t op args w)) = w_deferred w"
  "w_checkpoint (snd (send_deferred t op args w)) = w_checkpoint w"
  "w_refs (snd (send_deferred t op args w)) = w_refs w"
  by (simp_all add: send_deferred_def Let_def)

lemma deactivateObject_log [simp]: "w_log (snd (deactivateObject E poa a w)) = w_log w"
  by (auto simp: deactivateObject_def Let_def split: sum.splits option.splits)

lemma deactivateObject_deferred [simp]:
  "w_deferred (snd (deactivateObject E poa a w)) = w_deferred w"
  by (auto simp: deactivateObject_def Let_def split: sum.splits option.splits)

lemma deactivateObject_refs [simp]: "w_refs (snd (deactivateObject E poa a w)) = w_refs w"
  by (auto simp: deactivateObject_def Let_def split: sum.splits option.splits)

lemma activateObjectWithId_simps [simp]:
  "w_log (snd (activateObjectWithId E poa oid a w)) = w_log w"
  "w_deferred (snd (activateObjectWithId E poa oid a w)) = w_deferred w"
  "w_refs (snd (activateObjectWithId E poa oid a w)) = w_refs w"
  "w_trace (snd (activateObjectWithId E poa oid a w)) = w_trace w @ [PoaActivate poa oid a]"
  by (auto simp: activateObjectWithId_def Let_def split: option.splits)

text \<open>The requests sent, in order.\<close>

fun sent_of :: "call \<Rightarrow> request list" where
  "sent_of (SendDeferred r) = [r]"
| "sent_of _ = []"

definition sent :: "call list \<Rightarrow> request list" where
  "sent cs = concat (map sent_of cs)"

lemma sent_append [simp]: "sent (xs @ ys) = sent xs @ sent ys"
  by (simp add: sent_def)

lemma sent_Nil [simp]: "sent [] = []"
  by (simp add: sent_def)

lemma sent_Cons [simp]: "sent (c # cs) = sent_of c @ sent cs"
  by (simp add: sent_def)

lemma deactivateObject_sent [simp]:
  "sent (w_trace (snd (deactivateObject E poa a w))) = sent (w_trace w)"
  by (auto simp: deactivateObject_def Let_def split: sum.splits option.splits)

subsection \<open>Unique object ids\<close>

lemma show_hex_no_dot: "CHR ''.'' \<notin> set (show_base 16 n)"
proof
  assume "CHR ''.'' \<in> set (show_base 16 n)"
  then obtain d where "d < 16" and "CHR ''.'' = digit_char d"
    using show_base_chars [of 16 "CHR ''.''" n] by auto
  then have "(of_char (CHR ''.'') :: nat) = (if d < 10 then 48 + d else 87 + d)"
    using of_char_digit_char by metis
  then show False by (simp split: if_splits)
qed

lemma newUniqueId_prefix:
  "takeWhile (\<lambda>c. c \<noteq> CHR ''.'') (fst (newUniqueId E w)) = show_base 16 (unat (w_count w + 1))"
proof -
  have "takeWhile (\<lambda>c. c \<noteq> CHR ''.'') (show_base 16 n @ CHR ''.'' # t) = show_base 16 n" for n t
    using show_hex_no_dot [of n] by (subst takeWhile_append2) auto
  then show ?thesis by (simp add: newUniqueId_def Let_def)
qed

lemma newUniqueId_count: "w_count (snd (newUniqueId E w)) = w_count w + 1"
  by (simp add: newUniqueId_def Let_def)

lemma newUniqueId_distinct:
  assumes "w_count w \<noteq> w_count w'"
  shows "fst (newUniqueId E w) \<noteq> fst (newUniqueId E' w')"
proof
  assume "fst (newUniqueId E w) = fst (newUniqueId E' w')"
  then have "show_base 16 (unat (w_count w + 1)) = show_base 16 (unat (w_count w' + 1))"
    by (metis newUniqueId_prefix)
  then have "unat (w_count w + 1) = unat (w_count w' + 1)"
    by (rule show_base_inj [rotated 2]) auto
  then have "w_count w + 1 = w_count w' + 1" by (simp only: word_unat_eq_iff)
  then show False using assms by simp
qed

fun new_ids :: "nat \<Rightarrow> env \<Rightarrow> world \<Rightarrow> string list" where
  "new_ids 0 E w = []"
| "new_ids (Suc n) E w = (case newUniqueId E w of (s, w') \<Rightarrow> s # new_ids n E w')"

lemma new_ids_nth:
  assumes "s \<in> set (new_ids n E w)"
  shows "\<exists>k < n. \<exists>v. w_count v = w_count w + of_nat k \<and> s = fst (newUniqueId E v)"
  using assms
proof (induction n arbitrary: w)
  case (Suc n)
  obtain t w' where nw: "newUniqueId E w = (t, w')" by force
  then have c: "w_count w' = w_count w + 1" using newUniqueId_count [of E w] by simp
  from Suc.prems nw have "s = t \<or> s \<in> set (new_ids n E w')" by simp
  then show ?case
  proof
    assume "s = t"
    then show ?thesis using nw by (intro exI [of _ 0]) auto
  next
    assume "s \<in> set (new_ids n E w')"
    from Suc.IH [OF this] obtain k v
      where "k < n" "w_count v = w_count w' + of_nat k" "s = fst (newUniqueId E v)" by blast
    then show ?thesis using c by (intro exI [of _ "Suc k"]) (auto simp: algebra_simps)
  qed
qed simp

text \<open>
  Object ids handed out by \<^verbatim>\<open>newUniqueId()\<close> are pairwise different as long as the 64-bit
  counter has not wrapped, whatever process id and time the environment reports.
\<close>

lemma unique_ids_distinct: "n \<le> 2 ^ 64 \<Longrightarrow> distinct (new_ids n E w)"
proof (induction n arbitrary: w)
  case (Suc n)
  obtain t w' where nw: "newUniqueId E w = (t, w')" by force
  then have c: "w_count w' = w_count w + 1" using newUniqueId_count [of E w] by simp
  have "t \<notin> set (new_ids n E w')"
  proof
    assume "t \<in> set (new_ids n E w')"
    from new_ids_nth [OF this] obtain k v where k: "k < n"
      and v: "w_count v = w_count w' + of_nat k" and t: "t = fst (newUniqueId E v)" by blast
    have "(of_nat (Suc k) :: uint64) \<noteq> 0"
      using k Suc.prems by (simp add: word_of_nat_eq_0_iff del: of_nat_Suc) (auto dest!: dvd_imp_le)
    then have "w_count v \<noteq> w_count w" using v c by (simp add: add.assoc)
    then show False using newUniqueId_distinct [of w v E E] t nw by auto
  qed
  with Suc nw show ?case by simp
qed simp

subsection \<open>References held on callbacks\<close>

definition held :: "(request \<times> addr option) list \<Rightarrow> addr \<Rightarrow> int" where
  "held ds a = int (length (filter (\<lambda>d. snd d = Some a) ds))"

definition own_refs :: "world \<Rightarrow> addr \<Rightarrow> int" where
  "own_refs w a = w_refs w a - held (w_deferred w) a"

definition no_refs_change :: "(addr \<Rightarrow> request \<Rightarrow> any \<Rightarrow> 's \<times> world \<Rightarrow> 's \<times> world) \<Rightarrow> bool" where
  "no_refs_change dispatch \<longleftrightarrow>
     (\<forall>a r v sw. w_refs (snd (dispatch a r v sw)) = w_refs (snd sw))"

lemma held_append [simp]: "held (ds @ ds') a = held ds a + held ds' a"
  by (simp add: held_def)

lemma fold_remove_ref_refs:
  "w_refs (fold remove_ref as w) a = w_refs w a - int (count_list as a)"
  by (induction as arbitrary: w) auto

lemma fold_remove_ref_deferred [simp]: "w_deferred (fold remove_ref as w) = w_deferred w"
  by (induction as arbitrary: w) auto

lemma poll_one_refs:
  "no_refs_change dispatch \<Longrightarrow> w_refs (snd (snd (poll_one E dispatch req cb sw))) = w_refs (snd sw)"
  unfolding poll_one_def no_refs_change_def poll_response_def
  by (auto split: response.splits option.splits simp del: split_paired_All)

lemma poll_pass_held:
  assumes "no_refs_change dispatch"
    and "poll_pass E dispatch ds sw = (keep, used, sw')"
  shows "w_refs (snd sw') = w_refs (snd sw) \<and> held ds a = held keep a + int (count_list used a)"
  using assms(2)
proof (induction ds arbitrary: sw keep used)
  case Nil
  then show ?case by (simp add: held_def)
next
  case (Cons d ds)
  obtain req cb where d: "d = (req, cb)" by force
  obtain rsp sw1 where po: "poll_one E dispatch req cb sw = (rsp, sw1)"
    by (cases "poll_one E dispatch req cb sw") blast
  obtain keep' used' sw2 where pp: "poll_pass E dispatch ds sw1 = (keep', used', sw2)"
    by (metis prod_cases3)
  then have sw2: "sw2 = sw'" using Cons.prems d po by (auto split: if_splits)
  have "w_refs (snd sw1) = w_refs (snd sw)" using poll_one_refs [OF assms(1), of E req cb sw] po by simp
  then have ih: "w_refs (snd sw') = w_refs (snd sw) \<and> held ds a = held keep' a + int (count_list used' a)"
    using Cons.IH [OF pp [unfolded sw2]] by simp
  show ?case using Cons.prems pp ih sw2 po
    by (auto simp: d held_def split: if_splits option.splits)
qed

lemma deferredRequest_own_refs: "own_refs (deferredRequest r cb w) = own_refs w"
  by (auto simp: own_refs_def deferredRequest_def held_def Let_def fun_eq_iff split: option.splits)

lemma drain_refs:
  "w_refs (fold (\<lambda>(req, cb) v. case cb of Some a \<Rightarrow> remove_ref a v | None \<Rightarrow> v) ds w) a =
   w_refs w a - held ds a"
  by (induction ds arbitrary: w) (auto simp: held_def split: option.splits)

lemma drain_deferred_own_refs: "own_refs (drain_deferred w) = own_refs w"
  by (simp add: own_refs_def drain_deferred_def drain_refs held_def fun_eq_iff)

text \<open>
  Reference balance of the deferred requests: a pass of \<^verbatim>\<open>Orb::run()\<close> gives back exactly the
  references \<^verbatim>\<open>deferredRequest()\<close> took for the requests it removes. For every servant the count
  less the number of deferred requests that name it as callback is unchanged, provided the
  callbacks themselves leave the counts and the list alone.
\<close>

lemma run_once_own_refs:
  assumes "no_refs_change dispatch"
  shows "own_refs (snd (run_once E dispatch sw)) = own_refs (snd sw)"
proof
  fix a
  obtain keep used sw' where pp: "poll_pass E dispatch (w_deferred (snd sw)) sw = (keep, used, sw')"
    by (metis prod_cases3)
  from poll_pass_held [OF assms this, of a]
  show "own_refs (snd (run_once E dispatch sw)) a = own_refs (snd sw) a"
    by (simp add: run_once_def pp own_refs_def fold_remove_ref_refs split: prod.split)
qed

end
