(* ===== verification/Event_Queue.thy ===== *)
theory Event_Queue
  imports Corba_Orb
begin

text \<open>
  \<^verbatim>\<open>Filter.h\<close>, \<^verbatim>\<open>Filter.cc\<close>, \<^verbatim>\<open>EventQueue.h\<close> and \<^verbatim>\<open>EventQueue.cc\<close>: the event filters, the circular
  buffer shared by all consumers of a channel, and the readers that run behind it. The
  contract of a reader is the locale \<open>event_reader\<close>: it is interpreted here on the circular
  buffer and used by the proxies that inherit \<^verbatim>\<open>EventQueue::Reader\<close>.
\<close>

section \<open>Filters\<close>

datatype event_filter = FilterByTCKind tckind | FilterByRepositoryId string

text \<open>
  \<^verbatim>\<open>Filter::keep\<close>. Kinds with a repository id are compared by id, every other kind is
  dropped, and omniORB's internal indirection kind fails the assertion.
\<close>

fun filter_keep :: "event_filter \<Rightarrow> any \<Rightarrow> exn + bool" where
  "filter_keep (FilterByTCKind kind) event = Inr (any_kind event = kind)"
| "filter_keep (FilterByRepositoryId rid) event =
     (case any_kind event of
        np_tk_indirect \<Rightarrow> Inl AssertFail
      | tk_objref \<Rightarrow> Inr (rid = any_id event)
      | tk_struct \<Rightarrow> Inr (rid = any_id event)
      | tk_union \<Rightarrow> Inr (rid = any_id event)
      | tk_enum \<Rightarrow> Inr (rid = any_id event)
      | tk_alias \<Rightarrow> Inr (rid = any_id event)
      | tk_except \<Rightarrow> Inr (rid = any_id event)
      | _ \<Rightarrow> Inr False)"

section \<open>The circular buffer\<close>

record equeue =
  eq_next :: int
  eq_size :: int
  eq_queue :: "any option list"
  eq_filter :: "event_filter option"

text \<open>
  The constructor. \<^verbatim>\<open>new CORBA::Any*[_size]\<close> fails for a negative size before the assertion
  is reached.
\<close>

definition EventQueue :: "int \<Rightarrow> exn + equeue" where
  "EventQueue sz =
     (if sz + 1 < 0 then Inl BadAlloc
      else if \<not> sz + 1 > 1 then Inl AssertFail
      else Inr \<lparr>eq_next = 0, eq_size = sz + 1,
                eq_queue = replicate (nat (sz + 1)) None, eq_filter = None\<rparr>)"

definition setFilter :: "event_filter \<Rightarrow> equeue \<Rightarrow> equeue" where
  "setFilter f q = q\<lparr>eq_filter := Some f\<rparr>"

definition eq_keep :: "equeue \<Rightarrow> any \<Rightarrow> exn + bool" where
  "eq_keep q event = (case eq_filter q of None \<Rightarrow> Inr True | Some f \<Rightarrow> filter_keep f event)"

text \<open>\<^verbatim>\<open>append\<close> returns the events it deletes and the new queue.\<close>

definition eq_append :: "equeue \<Rightarrow> any \<Rightarrow> exn + any list \<times> equeue" where
  "eq_append q event = (case eq_keep q event of
      Inl e \<Rightarrow> Inl e
    | Inr False \<Rightarrow> Inr ([], q)
    | Inr True \<Rightarrow>
        (let i = nat (eq_next q) in
         if eq_next q < 0 \<or> length (eq_queue q) \<le> i then Inl InvalidAccess
         else Inr (case eq_queue q ! i of None \<Rightarrow> [] | Some old \<Rightarrow> [old],
                   q\<lparr>eq_queue := (eq_queue q)[i := Some event],
                     eq_next := (eq_next q + 1) mod eq_size q\<rparr>)))"

definition eq_destroy :: "equeue \<Rightarrow> any list" where
  "eq_destroy q = List.map_filter (\<lambda>x. x) (eq_queue q)"

section \<open>Readers\<close>

record reader =
  rd_next :: int

definition Reader :: "equeue \<Rightarrow> reader" where
  "Reader q = \<lparr>rd_next = to_int32 (eq_next q)\<rparr>"

definition moreEvents :: "equeue \<Rightarrow> reader \<Rightarrow> bool" where
  "moreEvents q r \<longleftrightarrow> rd_next r \<noteq> eq_next q"

definition nextEvent :: "equeue \<Rightarrow> reader \<Rightarrow> (exn + any option) \<times> reader" where
  "nextEvent q r =
     (if rd_next r < 0 \<or> length (eq_queue q) \<le> nat (rd_next r) then (Inl InvalidAccess, r)
      else (Inr (eq_queue q ! nat (rd_next r)),
            r\<lparr>rd_next := to_int32 ((rd_next r + 1) mod eq_size q)\<rparr>))"

section \<open>Specification: the history of events and positions in it\<close>

text \<open>
  Abstractly the queue is the list \<open>H\<close> of all events it has ever kept, and a reader is a
  position in \<open>H\<close>. \<open>eq_rep q H\<close> relates a buffer to a history: the last \<open>eq_size\<close> events
  are in their slots, and slots not yet used are null. The bound keeps indices in an \<^verbatim>\<open>int\<close>.
\<close>

definition eq_cap :: "equeue \<Rightarrow> nat" where
  "eq_cap q = nat (eq_size q)"

definition eq_rep :: "equeue \<Rightarrow> any list \<Rightarrow> bool" where
  "eq_rep q H \<longleftrightarrow>
     1 < eq_size q \<and> eq_size q \<le> 2 ^ 31 \<and> length (eq_queue q) = eq_cap q \<and>
     eq_next q = int (length H mod eq_cap q) \<and>
     (\<forall>k < length H. length H \<le> k + eq_cap q \<longrightarrow> eq_queue q ! (k mod eq_cap q) = Some (H ! k)) \<and>
     (\<forall>i < eq_cap q. length H \<le> i \<longrightarrow> eq_queue q ! i = None)"

definition rd_at :: "equeue \<Rightarrow> any list \<Rightarrow> reader \<Rightarrow> nat \<Rightarrow> bool" where
  "rd_at q H r p \<longleftrightarrow> p \<le> length H \<and> rd_next r = int (p mod eq_cap q)"

text \<open>Reading while there are events, at most \<open>n\<close> of them.\<close>

fun read_upto :: "('q \<Rightarrow> 'r \<Rightarrow> bool) \<Rightarrow> ('q \<Rightarrow> 'r \<Rightarrow> (exn + 'e option) \<times> 'r)
    \<Rightarrow> 'q \<Rightarrow> nat \<Rightarrow> 'r \<Rightarrow> 'e list \<times> 'r" where
  "read_upto has nxt q 0 r = ([], r)"
| "read_upto has nxt q (Suc n) r =
     (if has q r then (case nxt q r of
          (Inr (Some e), r') \<Rightarrow> (case read_upto has nxt q n r' of (es, r'') \<Rightarrow> (e # es, r''))
        | (_, r') \<Rightarrow> ([], r'))
      else ([], r))"

text \<open>What a reader promises its clients.\<close>

locale event_reader =
  fixes rep :: "'q \<Rightarrow> 'e list \<Rightarrow> bool"
    and at :: "'q \<Rightarrow> 'e list \<Rightarrow> 'r \<Rightarrow> nat \<Rightarrow> bool"
    and cap :: "'q \<Rightarrow> nat"
    and has :: "'q \<Rightarrow> 'r \<Rightarrow> bool"
    and nxt :: "'q \<Rightarrow> 'r \<Rightarrow> (exn + 'e option) \<times> 'r"
  assumes at_le: "at q H r p \<Longrightarrow> p \<le> length H"
    and cap_pos: "rep q H \<Longrightarrow> 0 < cap q"
    and has_iff: "rep q H \<Longrightarrow> at q H r p \<Longrightarrow> length H < p + cap q \<Longrightarrow> has q r \<longleftrightarrow> p < length H"
    and next_at: "rep q H \<Longrightarrow> at q H r p \<Longrightarrow> length H < p + cap q \<Longrightarrow> p < length H \<Longrightarrow>
      fst (nxt q r) = Inr (Some (H ! p)) \<and> at q H (snd (nxt q r)) (Suc p)"
    and lapped: "rep q H \<Longrightarrow> at q H r p \<Longrightarrow> p + cap q \<le> length H \<Longrightarrow> at q H r (p + cap q)"
begin

text \<open>The position a reader really reads from, after the buffer has lapped it.\<close>

lemma skip_laps:
  assumes "rep q H" and "at q H r p"
  shows "at q H r (p + cap q * ((length H - p) div cap q)) \<and>
         length H < p + cap q * ((length H - p) div cap q) + cap q"
proof -
  have "at q H r (p + cap q * k)" if "cap q * k \<le> length H - p" for k
    using that
  proof (induction k)
    case 0
    then show ?case using assms(2) by simp
  next
    case (Suc k)
    then have "at q H r (p + cap q * k)" by simp
    moreover have "p + cap q * k + cap q \<le> length H"
      using Suc.prems at_le [OF assms(2)] by (simp add: le_diff_conv2)
    ultimately have "at q H r (p + cap q * k + cap q)" by (rule lapped [OF assms(1)])
    then show ?case by (simp add: algebra_simps)
  qed
  moreover have "cap q * ((length H - p) div cap q) \<le> length H - p" by (simp add: mult.commute)
  moreover have "length H - p < cap q * ((length H - p) div cap q) + cap q"
    using cap_pos [OF assms(1)] dividend_less_times_div [of "cap q" "length H - p"] by simp
  ultimately show ?thesis by auto
qed

lemma has_event:
  assumes "rep q H" and "at q H r p" and "has q r"
  obtains e where "fst (nxt q r) = Inr (Some e)" and "e \<in> set (drop p H)"
proof -
  define p' where "p' = p + cap q * ((length H - p) div cap q)"
  from skip_laps [OF assms(1,2)] have at': "at q H r p'" and b: "length H < p' + cap q"
    by (simp_all add: p'_def)
  with assms have "p' < length H" using has_iff by blast
  with at' b have "fst (nxt q r) = Inr (Some (H ! p'))" using next_at assms(1) by blast
  moreover have "H ! p' \<in> set (drop p H)"
    using \<open>p' < length H\<close> by (auto simp: p'_def in_set_conv_nth intro: exI [of _ "p' - p"])
  ultimately show thesis by (rule that)
qed

lemma read_upto_drop:
  assumes "rep q H" and "at q H r p" and "length H < p + cap q" and "length H - p \<le> n"
  shows "fst (read_upto has nxt q n r) = drop p H \<and>
         at q H (snd (read_upto has nxt q n r)) (length H)"
  using assms(2-)
proof (induction n arbitrary: r p)
  case 0
  then show ?case using at_le [of q H r p] by auto
next
  case (Suc n)
  show ?case
  proof (cases "p < length H")
    case True
    with Suc.prems have nx: "fst (nxt q r) = Inr (Some (H ! p))" "at q H (snd (nxt q r)) (Suc p)"
      using next_at assms(1) by blast+
    obtain r' where r': "nxt q r = (Inr (Some (H ! p)), r')" using nx(1) by (metis prod.collapse)
    have "fst (read_upto has nxt q n r') = drop (Suc p) H \<and>
          at q H (snd (read_upto has nxt q n r')) (length H)"
      using Suc.IH [of r' "Suc p"] Suc.prems nx(2) r' True by auto
    moreover have "has q r" using has_iff Suc.prems True assms(1) by blast
    ultimately show ?thesis
      by (auto simp: r' Cons_nth_drop_Suc True split: prod.splits)
  next
    case False
    moreover have "\<not> has q r" using has_iff Suc.prems False assms(1) by blast
    moreover have "p = length H" using False Suc.prems at_le [of q H r p] by simp
    ultimately show ?thesis using Suc.prems by simp
  qed
qed

end

section \<open>The buffer meets the specification\<close>

lemma mod_neq:
  fixes k m n :: nat
  assumes "k < m" and "m < k + n"
  shows "k mod n \<noteq> m mod n"
proof
  assume "k mod n = m mod n"
  then have "n dvd (m - k)" using assms(1) by (metis less_imp_le mod_eq_dvd_iff_nat)
  then have "n \<le> m - k" using assms(1) by (simp add: dvd_imp_le)
  with assms show False by simp
qed

lemma int_mod_nat: "0 < s \<Longrightarrow> int (k mod nat s) = int k mod s"
  by (simp add: zmod_int)

lemma eq_rep_cap: "eq_rep q H \<Longrightarrow> 1 < eq_cap q \<and> int (eq_cap q) = eq_size q \<and> eq_cap q \<le> 2 ^ 31"
  by (auto simp: eq_rep_def eq_cap_def nat_le_iff)

lemma EventQueue_rep:
  "EventQueue sz = Inr q \<Longrightarrow> sz < 2 ^ 31 \<Longrightarrow> eq_rep q [] \<and> eq_cap q = nat (sz + 1)"
  by (auto simp: EventQueue_def eq_rep_def eq_cap_def split: if_splits)

lemma eq_append_idx: "eq_rep q H \<Longrightarrow> nat (eq_next q) = length H mod eq_cap q"
  by (simp add: eq_rep_def)

lemma eq_append_next:
  assumes "eq_rep q H"
  shows "(eq_next q + 1) mod eq_size q = int (length (H @ [e]) mod eq_cap q)"
proof -
  have "(int (length H) mod eq_size q + 1) mod eq_size q = (int (length H) + 1) mod eq_size q"
    by (simp add: mod_add_left_eq)
  then show ?thesis using assms eq_rep_cap [OF assms]
    by (simp add: eq_rep_def zmod_int algebra_simps)
qed

lemma eq_append_kept:
  assumes "eq_rep q H" and "eq_keep q e = Inr True"
  shows "\<exists>q'. eq_append q e = Inr (if eq_cap q \<le> length H then [H ! (length H - eq_cap q)] else [], q')
    \<and> eq_rep q' (H @ [e]) \<and> eq_size q' = eq_size q \<and> eq_filter q' = eq_filter q"
proof -
  let ?n = "eq_cap q" and ?i = "length H mod eq_cap q"
  have n: "1 < ?n" "int ?n = eq_size q" using eq_rep_cap [OF assms(1)] by auto
  have i: "?i < ?n" using n by simp
  have len: "length (eq_queue q) = ?n" and old: "\<And>k. k < length H \<Longrightarrow> length H \<le> k + ?n \<Longrightarrow>
      eq_queue q ! (k mod ?n) = Some (H ! k)"
    and fresh: "\<And>j. j < ?n \<Longrightarrow> length H \<le> j \<Longrightarrow> eq_queue q ! j = None"
    using assms(1) by (auto simp: eq_rep_def)
  define q' where "q' = q\<lparr>eq_queue := (eq_queue q)[?i := Some e],
                     eq_next := (eq_next q + 1) mod eq_size q\<rparr>"
  have del: "(case eq_queue q ! ?i of None \<Rightarrow> [] | Some old \<Rightarrow> [old]) =
      (if ?n \<le> length H then [H ! (length H - ?n)] else [])"
  proof (cases "?n \<le> length H")
    case True
    then have "eq_queue q ! ((length H - ?n) mod ?n) = Some (H ! (length H - ?n))"
      using n by (intro old) auto
    moreover have "(length H - ?n) mod ?n = ?i" using True by (simp add: le_mod_geq)
    ultimately show ?thesis using True by simp
  qed (use fresh i in simp)
  have "eq_append q e = Inr (if ?n \<le> length H then [H ! (length H - ?n)] else [], q')"
    using assms i len del eq_append_idx [OF assms(1)]
    by (simp add: eq_append_def q'_def Let_def eq_rep_def)
  moreover have "eq_rep q' (H @ [e])"
  proof -
    have cap': "eq_cap q' = ?n" by (simp add: q'_def eq_cap_def)
    have "eq_queue q' ! (k mod ?n) = Some ((H @ [e]) ! k)"
      if "k < length (H @ [e])" and "length (H @ [e]) \<le> k + ?n" for k
    proof (cases "k = length H")
      case True
      then show ?thesis using i len by (simp add: q'_def)
    next
      case False
      then have "k < length H" using that by simp
      moreover have "k mod ?n \<noteq> ?i" using calculation that by (intro mod_neq) auto
      ultimately show ?thesis using that old [of k] by (simp add: q'_def nth_append)
    qed
    moreover have "eq_queue q' ! j = None" if "j < ?n" and "length (H @ [e]) \<le> j" for j
    proof -
      have "?i = length H" using that by simp
      then show ?thesis using that fresh [of j] by (simp add: q'_def)
    qed
    ultimately show ?thesis using assms(1) len eq_append_next [OF assms(1), of e] cap'
      by (simp add: eq_rep_def q'_def)
  qed
  ultimately show ?thesis by (auto simp: q'_def)
qed

lemma eq_append_dropped: "eq_keep q e = Inr False \<Longrightarrow> eq_append q e = Inr ([], q)"
  by (simp add: eq_append_def)

lemma eq_append_cases:
  assumes "eq_rep q H" and "eq_append q e = Inr (del, q')"
  shows "eq_rep q' (if eq_keep q e = Inr True then H @ [e] else H) \<and> eq_cap q' = eq_cap q
    \<and> eq_filter q' = eq_filter q"
proof (cases "eq_keep q e")
  case (Inl x)
  then show ?thesis using assms(2) by (simp add: eq_append_def)
next
  case (Inr b)
  then show ?thesis
  proof (cases b)
    case True
    with Inr eq_append_kept [OF assms(1)] assms(2) show ?thesis by (fastforce simp: eq_cap_def)
  next
    case False
    with Inr eq_append_dropped assms show ?thesis by auto
  qed
qed

lemma Reader_at: "eq_rep q H \<Longrightarrow> rd_at q H (Reader q) (length H)"
proof -
  assume rep: "eq_rep q H"
  have "length H mod eq_cap q < eq_cap q" using eq_rep_cap [OF rep] by simp
  moreover have "int (eq_cap q) \<le> 2 ^ 31" using rep by (simp add: eq_rep_def eq_cap_def)
  ultimately have "int (length H mod eq_cap q) < 2 ^ 31" by linarith
  then have "to_int32 (int (length H mod eq_cap q)) = int (length H mod eq_cap q)"
    by (intro to_int32_id) auto
  then show ?thesis using rep by (simp add: rd_at_def Reader_def eq_rep_def)
qed

lemma moreEvents_iff:
  assumes "eq_rep q H" and "rd_at q H r p"
  shows "moreEvents q r \<longleftrightarrow> p mod eq_cap q \<noteq> length H mod eq_cap q"
  using assms by (simp add: moreEvents_def rd_at_def eq_rep_def)

lemma nextEvent_at:
  assumes "eq_rep q H" and "rd_at q H r p" and "p < length H" and "length H < p + eq_cap q"
  shows "fst (nextEvent q r) = Inr (Some (H ! p)) \<and> rd_at q H (snd (nextEvent q r)) (Suc p)"
proof -
  let ?n = "eq_cap q"
  have n: "1 < ?n" "int ?n = eq_size q" using eq_rep_cap [OF assms(1)] by auto
  have r: "rd_next r = int (p mod ?n)" using assms(2) by (simp add: rd_at_def)
  have lt: "p mod ?n < ?n" using n by simp
  have s: "eq_queue q ! (p mod ?n) = Some (H ! p)" and len: "length (eq_queue q) = ?n"
    using assms by (auto simp: eq_rep_def)
  have "(rd_next r + 1) mod eq_size q = int (Suc p mod ?n)"
    using r n by (simp add: zmod_int mod_simps algebra_simps)
  moreover have "int (Suc p mod ?n) < 2 ^ 31"
  proof -
    have "Suc p mod ?n < ?n" using n by simp
    moreover have "int ?n \<le> 2 ^ 31" using assms(1) n by (simp add: eq_rep_def)
    ultimately show ?thesis by linarith
  qed
  ultimately have "to_int32 ((rd_next r + 1) mod eq_size q) = int (Suc p mod ?n)"
    by (simp add: to_int32_id)
  moreover have "\<not> ?n \<le> p mod ?n" using lt by linarith
  ultimately show ?thesis using r s len assms by (simp add: nextEvent_def rd_at_def)
qed

interpretation eqr: event_reader eq_rep rd_at eq_cap moreEvents nextEvent
proof (unfold_locales, goal_cases)
  case (1 q H r p)
  then show ?case by (simp add: rd_at_def)
next
  case (2 q H)
  then show ?case using eq_rep_cap by fastforce
next
  case (3 q H r p)
  then have "p \<le> length H" by (simp add: rd_at_def)
  then show ?case
    using 3 moreEvents_iff mod_neq [of p "length H" "eq_cap q"] by (cases "p = length H") auto
next
  case (4 q H r p)
  then show ?case by (intro nextEvent_at)
next
  case (5 q H r p)
  then show ?case by (simp add: rd_at_def)
qed

section \<open>Any interleaving of appends and reads\<close>

text \<open>
  A queue with one reader, driven by an arbitrary sequence of appends and of reads (a read
  asks \<^verbatim>\<open>moreEvents()\<close> first, as every caller in the program does). The abstract machine works
  on the history and a position: before it reads it skips whole turns of the buffer.
\<close>

datatype qop = QAppend any | QRead

fun run_queue :: "qop list \<Rightarrow> equeue \<times> reader \<Rightarrow> exn + (any option) list" where
  "run_queue [] qr = Inr []"
| "run_queue (QAppend e # ops) (q, r) = (case eq_append q e of
      Inl x \<Rightarrow> Inl x
    | Inr (_, q') \<Rightarrow> run_queue ops (q', r))"
| "run_queue (QRead # ops) (q, r) =
     (if moreEvents q r then
        (case nextEvent q r of
           (Inl x, _) \<Rightarrow> Inl x
         | (Inr None, _) \<Rightarrow> Inl InvalidAccess
         | (Inr (Some e), r') \<Rightarrow> map_sum id (Cons (Some e)) (run_queue ops (q, r')))
      else map_sum id (Cons None) (run_queue ops (q, r)))"

definition skip_to :: "nat \<Rightarrow> any list \<Rightarrow> nat \<Rightarrow> nat" where
  "skip_to n H p = p + n * ((length H - p) div n)"

fun spec_queue :: "nat \<Rightarrow> (any \<Rightarrow> bool) \<Rightarrow> qop list \<Rightarrow> any list \<times> nat \<Rightarrow> any option list" where
  "spec_queue n keep [] Hp = []"
| "spec_queue n keep (QAppend e # ops) (H, p) =
     spec_queue n keep ops (if keep e then H @ [e] else H, p)"
| "spec_queue n keep (QRead # ops) (H, p) =
     (let p' = skip_to n H p in
      if p' < length H then Some (H ! p') # spec_queue n keep ops (H, Suc p')
      else None # spec_queue n keep ops (H, p'))"

definition kept_by :: "event_filter option \<Rightarrow> any \<Rightarrow> bool" where
  "kept_by f e = (case f of None \<Rightarrow> True | Some g \<Rightarrow> filter_keep g e = Inr True)"

fun op_ok :: "event_filter option \<Rightarrow> qop \<Rightarrow> bool" where
  "op_ok f (QAppend e) = (any_kind e \<noteq> np_tk_indirect)"
| "op_ok f QRead = True"

lemma filter_keep_defined: "any_kind e \<noteq> np_tk_indirect \<Longrightarrow> \<exists>b. filter_keep f e = Inr b"
  by (cases f; cases "any_kind e") auto

lemma eq_keep_defined:
  assumes "any_kind e \<noteq> np_tk_indirect"
  shows "eq_keep q e = Inr (kept_by (eq_filter q) e)"
proof (cases "eq_filter q")
  case (Some f)
  obtain b where "filter_keep f e = Inr b" using filter_keep_defined [OF assms] by blast
  with Some show ?thesis by (cases b) (simp_all add: eq_keep_def kept_by_def)
qed (simp add: eq_keep_def kept_by_def)

lemma eq_append_total:
  assumes "eq_rep q H" and "any_kind e \<noteq> np_tk_indirect"
  shows "\<exists>d q'. eq_append q e = Inr (d, q') \<and>
    eq_rep q' (if kept_by (eq_filter q) e then H @ [e] else H) \<and>
    eq_cap q' = eq_cap q \<and> eq_filter q' = eq_filter q"
proof -
  have k: "eq_keep q e = Inr (kept_by (eq_filter q) e)" by (rule eq_keep_defined [OF assms(2)])
  show ?thesis
  proof (cases "kept_by (eq_filter q) e")
    case True
    then show ?thesis using k eq_append_kept [OF assms(1)] by (fastforce simp: eq_cap_def)
  next
    case False
    then show ?thesis using k eq_append_dropped assms(1) by fastforce
  qed
qed

lemma rd_at_append: "rd_at q H r p \<Longrightarrow> eq_cap q' = eq_cap q \<Longrightarrow> rd_at q' (H @ X) r p"
  by (simp add: rd_at_def)

text \<open>
  C1. The circular buffer with a reader behaves exactly as a growing history with a position,
  for every interleaving of appends and reads: the reads return the kept events in order,
  nothing is read twice, and the only losses are whole turns of \<open>eq_cap\<close> events skipped when
  the buffer has lapped the reader. In particular no read hits a null or foreign slot.
\<close>

theorem event_queue_refines_history:
  assumes "eq_rep q H" and "rd_at q H r p" and "\<forall>op \<in> set ops. op_ok (eq_filter q) op"
  shows "run_queue ops (q, r) = Inr (spec_queue (eq_cap q) (kept_by (eq_filter q)) ops (H, p))"
  using assms
proof (induction ops arbitrary: q H r p)
  case (Cons op ops)
  show ?case
  proof (cases op)
    case (QAppend e)
    then have "any_kind e \<noteq> np_tk_indirect" using Cons.prems by simp
    from eq_append_total [OF Cons.prems(1) this] obtain d q'
      where a: "eq_append q e = Inr (d, q')"
        and rep: "eq_rep q' (if kept_by (eq_filter q) e then H @ [e] else H)"
        and c: "eq_cap q' = eq_cap q" "eq_filter q' = eq_filter q" by blast
    have "rd_at q' (if kept_by (eq_filter q) e then H @ [e] else H) r p"
      using Cons.prems(2) c rd_at_append [of q H r p q'] rd_at_append [of q H r p q' "[]"] by auto
    from Cons.IH [OF rep this] Cons.prems(3) QAppend a c show ?thesis by simp
  next
    case QRead
    define p' where "p' = skip_to (eq_cap q) H p"
    have at': "rd_at q H r p'" and b: "length H < p' + eq_cap q"
      using eqr.skip_laps [OF Cons.prems(1,2)] by (simp_all add: p'_def skip_to_def)
    have ops: "\<forall>op \<in> set ops. op_ok (eq_filter q) op" using Cons.prems(3) by simp
    have m: "moreEvents q r \<longleftrightarrow> p' < length H" by (rule eqr.has_iff [OF Cons.prems(1) at' b])
    show ?thesis
    proof (cases "p' < length H")
      case True
      then obtain r' where "nextEvent q r = (Inr (Some (H ! p')), r')" "rd_at q H r' (Suc p')"
        using eqr.next_at [OF Cons.prems(1) at' b] by (metis prod.collapse)
      then show ?thesis using Cons.IH [OF Cons.prems(1) _ ops, of r' "Suc p'"] m True QRead
        by (simp add: Let_def p'_def [symmetric])
    next
      case False
      then show ?thesis using Cons.IH [OF Cons.prems(1) at' ops] m QRead
        by (simp add: Let_def p'_def [symmetric])
    qed
  qed
qed simp

theorem event_queue_refines_history_witness:
  "\<exists>q. EventQueue 2 = Inr q \<and> eq_rep q [] \<and> rd_at q [] (Reader q) 0 \<and>
     run_queue [QRead, QAppend (Any tk_long [] (VOther 1)), QAppend (Any tk_long [] (VOther 2)),
                QRead, QRead, QRead] (q, Reader q) =
       Inr [None, Some (Any tk_long [] (VOther 1)), Some (Any tk_long [] (VOther 2)), None]"
proof -
  obtain q where q: "EventQueue 2 = Inr q" by (simp add: EventQueue_def)
  have rep: "eq_rep q []" and cap: "eq_cap q = 3" using EventQueue_rep [OF q] by auto
  have at0: "rd_at q [] (Reader q) 0" using Reader_at [OF rep] by simp
  have f: "eq_filter q = None" using q by (auto simp: EventQueue_def)
  show ?thesis
    using q rep at0 event_queue_refines_history [OF rep at0, of "[QRead,
       QAppend (Any tk_long [] (VOther 1)), QAppend (Any tk_long [] (VOther 2)), QRead, QRead, QRead]"]
    by (auto simp: cap f kept_by_def skip_to_def Let_def)
qed

text \<open>
  A consumer that has fallen less than one buffer length behind misses nothing: reading
  while there are events returns exactly the events appended since its position, oldest
  first, and leaves it level with the queue.
\<close>

lemma reader_drains_backlog:
  assumes "eq_rep q H" and "rd_at q H r p" and "length H < p + eq_cap q" and "length H - p \<le> n"
  shows "fst (read_upto moreEvents nextEvent q n r) = drop p H \<and>
         \<not> moreEvents q (snd (read_upto moreEvents nextEvent q n r))"
proof -
  from eqr.read_upto_drop [OF assms] have d: "fst (read_upto moreEvents nextEvent q n r) = drop p H"
    and e: "rd_at q H (snd (read_upto moreEvents nextEvent q n r)) (length H)" by auto
  from e assms(1) have "\<not> moreEvents q (snd (read_upto moreEvents nextEvent q n r))"
    by (simp add: moreEvents_iff)
  with d show ?thesis by simp
qed

text \<open>
  Memory of the buffer: appending a kept event to a buffer that has seen \<open>eq_cap\<close> events
  deletes exactly the oldest one still stored, before that nothing is deleted, and the array
  never changes its length; so at most \<open>eq_cap\<close> events are alive in it.
\<close>

lemma append_evicts_oldest:
  assumes "eq_rep q H" and "eq_keep q e = Inr True"
  shows "\<exists>q'. eq_append q e =
      Inr (if length H < eq_cap q then [] else [H ! (length H - eq_cap q)], q') \<and>
    eq_rep q' (H @ [e]) \<and> length (eq_queue q') = length (eq_queue q) \<and>
    length (eq_destroy q') \<le> eq_cap q"
proof -
  from eq_append_kept [OF assms] obtain q'
    where q': "eq_append q e = Inr (if eq_cap q \<le> length H then [H ! (length H - eq_cap q)] else [], q')"
      "eq_rep q' (H @ [e])" "eq_size q' = eq_size q" by blast
  have len: "length (eq_queue q') = eq_cap q" "length (eq_queue q) = eq_cap q"
    using q' assms(1) by (auto simp: eq_rep_def eq_cap_def)
  have "length (List.map_filter (\<lambda>x. x) xs) \<le> length xs" for xs :: "any option list"
    by (simp add: List.map_filter_def)
  then have "length (eq_destroy q') \<le> eq_cap q" using len by (metis eq_destroy_def)
  with q' len show ?thesis by (auto simp: not_less)
qed

end
