(* ===== verification/Persist_Node.thy ===== *)
theory Persist_Node
  imports C_Text
begin

text \<open>
  \<^verbatim>\<open>PersistNode.h\<close> and \<^verbatim>\<open>PersistNode.cc\<close>: the tree kept in the persistency logfile, the parser
  that reads the file with \<^verbatim>\<open>istream >> string\<close>, and the writer. The file is a journal: a node
  record replaces the node of that path, a record that starts with a minus deletes it. The
  specification is the replay of the records; the parser is proved to compute it, and the
  writer to be inverted by the parser.
\<close>

section \<open>The tree\<close>

datatype pnode = PersistNode (pn_attr: "(string, string) smap") (pn_child: "(string \<times> pnode) list")

definition pn_empty :: pnode where
  "pn_empty = PersistNode [] []"

fun split_slash :: "string \<Rightarrow> string list" where
  "split_slash [] = [[]]"
| "split_slash (c # cs) =
     (if c = CHR ''/'' then [] # split_slash cs
      else case split_slash cs of [] \<Rightarrow> [[c]] | p # ps \<Rightarrow> (c # p) # ps)"

text \<open>
  \<^verbatim>\<open>addnode\<close> and \<^verbatim>\<open>delnode\<close> walk down the pieces of the name between the slashes. A leaf is
  overwritten together with its children; missing branches are created.
\<close>

fun addnode_path :: "string list \<Rightarrow> pnode \<Rightarrow> pnode" where
  "addnode_path [] node = node"
| "addnode_path [k] (PersistNode at ch) = PersistNode at (smap_set k pn_empty ch)"
| "addnode_path (k # ks) (PersistNode at ch) =
     (let newchild = (case map_of ch k of None \<Rightarrow> pn_empty | Some c \<Rightarrow> c)
      in PersistNode at (smap_set k (addnode_path ks newchild) ch))"

definition addnode :: "string \<Rightarrow> pnode \<Rightarrow> pnode" where
  "addnode name = addnode_path (split_slash name)"

fun delnode_path :: "string list \<Rightarrow> pnode \<Rightarrow> pnode" where
  "delnode_path [] node = node"
| "delnode_path [k] (PersistNode at ch) = PersistNode at (smap_erase k ch)"
| "delnode_path (k # ks) (PersistNode at ch) =
     (case map_of ch k of
        None \<Rightarrow> PersistNode at ch
      | Some c \<Rightarrow> PersistNode at (smap_set k (delnode_path ks c) ch))"

definition delnode :: "string \<Rightarrow> pnode \<Rightarrow> pnode" where
  "delnode name = delnode_path (split_slash name)"

fun set_attr :: "string \<Rightarrow> string \<Rightarrow> pnode \<Rightarrow> pnode" where
  "set_attr k v (PersistNode at ch) = PersistNode (smap_set k v at) ch"

definition addattr :: "string \<Rightarrow> pnode \<Rightarrow> pnode" where
  "addattr keyvalue = set_attr (takeWhile (\<lambda>c. c \<noteq> CHR ''='') keyvalue)
                               (tl (dropWhile (\<lambda>c. c \<noteq> CHR ''='') keyvalue))"

text \<open>\<^verbatim>\<open>addattr(key,long)\<close> prints with \<^verbatim>\<open>%i\<close>, so only the low 32 bits survive, as a signed number.\<close>

definition addattr_long :: "string \<Rightarrow> int \<Rightarrow> pnode \<Rightarrow> pnode" where
  "addattr_long key value = set_attr key (show_int (to_int32 value))"

definition hasAttr :: "string \<Rightarrow> pnode \<Rightarrow> bool" where
  "hasAttr key node \<longleftrightarrow> map_of (pn_attr node) key \<noteq> None"

definition attrString :: "string \<Rightarrow> string \<Rightarrow> pnode \<Rightarrow> string" where
  "attrString key fallback node =
     (case map_of (pn_attr node) key of None \<Rightarrow> fallback | Some v \<Rightarrow> v)"

definition attrLong :: "string \<Rightarrow> int \<Rightarrow> pnode \<Rightarrow> int" where
  "attrLong key fallback node =
     (case map_of (pn_attr node) key of None \<Rightarrow> fallback | Some v \<Rightarrow> c_atol v)"

definition child :: "string \<Rightarrow> pnode \<Rightarrow> pnode option" where
  "child key node = map_of (pn_child node) key"

section \<open>Writing\<close>

definition nl :: string where "nl = [CHR 0x0A]"

definition attr_line :: "string \<times> string \<Rightarrow> string" where
  "attr_line kv = '' '' @ fst kv @ ''='' @ snd kv @ nl"

fun pn_output :: "string \<Rightarrow> pnode \<Rightarrow> string"
  and pn_outputs :: "string \<Rightarrow> (string \<times> pnode) list \<Rightarrow> string" where
  "pn_output name (PersistNode at ch) =
     (if name \<noteq> [] then name @ nl @ concat (map attr_line at) @ '' ;;'' @ nl
                          @ pn_outputs (name @ ''/'') ch
      else pn_outputs name ch)"
| "pn_outputs name [] = []"
| "pn_outputs name ((k, c) # ch) = pn_output (name @ k) c @ pn_outputs name ch"

section \<open>Reading\<close>

text \<open>
  \<^verbatim>\<open>readtoken\<close>: the next word that does not start a comment. When the extraction fails, the
  old value of \<^verbatim>\<open>tok\<close> is still there and is taken for a token.
\<close>

function readtoken :: "istream \<Rightarrow> string \<Rightarrow> bool \<times> string \<times> istream" where
  "readtoken s tok =
     (if is_fail s then (False, tok, s)
      else case is_extract s tok of (tok', s') \<Rightarrow>
        if tok' = [] then (False, tok', s')
        else if hd tok' \<noteq> CHR ''#'' then (True, tok', s')
        else readtoken (is_ignore int_max (CHR 0x0A) s') tok')"
  by pat_completeness auto
termination
proof (relation "measure (\<lambda>(s, tok). strm_left s)", goal_cases)
  case (2 s tok tok' s')
  then have "strm_left s' < strm_left s" using is_extract_left [of s tok] by (metis snd_conv)
  then show ?case using is_ignore_left [of int_max "CHR 0x0A" s'] by simp
qed simp

declare readtoken.simps [simp del]

lemma readtoken_measure:
  "\<not> is_fail s \<Longrightarrow> readtoken s tok = (b, tok', s') \<Longrightarrow> strm_left s' < strm_left s"
proof (induction s tok rule: readtoken.induct)
  case (1 s tok)
  obtain t1 s1 where e: "is_extract s tok = (t1, s1)" by force
  have m: "strm_left s1 < strm_left s" using is_extract_left [OF 1(2), of tok] e by simp
  let ?s2 = "is_ignore int_max (CHR 0x0A) s1"
  have m2: "strm_left ?s2 \<le> strm_left s1" by (rule is_ignore_left)
  show ?case
  proof (cases "t1 \<noteq> [] \<and> hd t1 = CHR ''#''")
    case True
    then have rt: "readtoken ?s2 t1 = (b, tok', s')"
      using 1(2,3) e by (simp add: readtoken.simps [of s tok])
    show ?thesis
    proof (cases "is_fail ?s2")
      case True
      then show ?thesis using rt m m2 by (simp add: readtoken.simps [of ?s2])
    next
      case False
      then show ?thesis using 1(1) [OF 1(2) e [symmetric]] rt True m m2
        using \<open>t1 \<noteq> [] \<and> hd t1 = CHR ''#''\<close> by fastforce
    qed
  next
    case False
    then show ?thesis using 1(2,3) e m by (auto simp: readtoken.simps [of s tok] split: if_splits)
  qed
qed

lemma readtoken_True_fail: "readtoken s tok = (True, tok', s') \<Longrightarrow> \<not> is_fail s"
  by (cases "is_fail s") (auto simp: readtoken.simps [of s tok])

lemma readtoken_True_measure: "readtoken s tok = (True, tok', s') \<Longrightarrow> strm_left s' < strm_left s"
  using readtoken_measure readtoken_True_fail by blast

text \<open>The node a C++ pointer designates is the path to it in the tree.\<close>

fun pn_update :: "string list \<Rightarrow> (pnode \<Rightarrow> pnode) \<Rightarrow> pnode \<Rightarrow> pnode" where
  "pn_update [] f node = f node"
| "pn_update (k # ks) f (PersistNode at ch) =
     (case map_of ch k of
        None \<Rightarrow> PersistNode at ch
      | Some c \<Rightarrow> PersistNode at (smap_set k (pn_update ks f c) ch))"

text \<open>The loop of \<^verbatim>\<open>readnode\<close>, with its local variables \<^verbatim>\<open>tok\<close> and \<^verbatim>\<open>node\<close>.\<close>

function readnode_loop :: "istream \<Rightarrow> string \<Rightarrow> string list option \<Rightarrow> pnode \<Rightarrow> bool \<times> istream \<times> pnode"
where
  "readnode_loop s tok node root =
     (case readtoken s tok of (ok, tok', s') \<Rightarrow>
        if \<not> ok \<or> tok' = '';;'' then (node \<noteq> None, s', root)
        else (case node of
            Some path \<Rightarrow> readnode_loop s' tok' node (pn_update path (addattr tok') root)
          | None \<Rightarrow>
              if hd tok' = CHR ''-'' then readnode_loop s' tok' None (delnode (tl tok') root)
              else readnode_loop s' tok' (Some (split_slash tok')) (addnode tok' root)))"
  by pat_completeness auto
termination
  by (relation "measure (\<lambda>(s, tok, node, root). strm_left s)")
     (auto dest!: sym [of "(_, _)" "readtoken _ _"] dest: readtoken_True_measure)

declare readnode_loop.simps [simp del]

definition readnode :: "istream \<Rightarrow> pnode \<Rightarrow> bool \<times> istream \<times> pnode" where
  "readnode s root = readnode_loop s [] None root"

lemma readnode_loop_measure:
  "readnode_loop s tok node root = (b, s', root') \<Longrightarrow> strm_left s' \<le> strm_left s"
proof (induction s tok node root rule: readnode_loop.induct)
  case (1 s tok node root)
  obtain ok t1 s1 where e: "readtoken s tok = (ok, t1, s1)" by (metis prod_cases3)
  have le: "strm_left s1 \<le> strm_left s"
    using readtoken_measure e by (cases "is_fail s") (fastforce simp: readtoken.simps [of s tok])+
  show ?case
  proof (cases "\<not> ok \<or> t1 = '';;''")
    case True
    then show ?thesis using 1(4) e le by (auto simp: readnode_loop.simps [of s])
  next
    case False
    then show ?thesis using 1 e le
      by (fastforce simp: readnode_loop.simps [of s] split: option.splits if_splits)
  qed
qed

lemma readnode_loop_True:
  assumes "readnode_loop s tok None root = (True, s', root')"
  shows "strm_left s' < strm_left s"
proof -
  obtain ok t1 s1 where e: "readtoken s tok = (ok, t1, s1)" by (metis prod_cases3)
  with assms have ok: "ok" by (cases ok) (auto simp: readnode_loop.simps [of s])
  with e have "strm_left s1 < strm_left s" by (auto dest: readtoken_True_measure)
  moreover have "strm_left s' \<le> strm_left s1"
    using assms e ok readnode_loop_measure
    by (auto simp: readnode_loop.simps [of s] split: if_splits)
  ultimately show ?thesis by simp
qed

text \<open>The constructor from a stream: \<^verbatim>\<open>while(readnode(is)){}\<close>.\<close>

function parse_stream :: "istream \<Rightarrow> pnode \<Rightarrow> pnode" where
  "parse_stream s root = (case readnode s root of
      (True, s', root') \<Rightarrow> parse_stream s' root'
    | (False, s', root') \<Rightarrow> root')"
  by pat_completeness auto
termination
  by (relation "measure (\<lambda>(s, root). strm_left s)")
     (auto simp: readnode_def dest!: sym [of "(True, _, _)"] dest: readnode_loop_True)

declare parse_stream.simps [simp del]

definition parse_text :: "string \<Rightarrow> pnode" where
  "parse_text txt = parse_stream (istream_of txt) pn_empty"

section \<open>Specification: replay of the journal\<close>

datatype log_record = AddRec string "(string \<times> string) list" | DelRec string

definition attr_token :: "string \<times> string \<Rightarrow> string" where
  "attr_token kv = fst kv @ ''='' @ snd kv"

fun rec_tokens :: "log_record \<Rightarrow> string list" where
  "rec_tokens (AddRec name as) = name # map attr_token as @ ['';;'']"
| "rec_tokens (DelRec name) = [CHR ''-'' # name]"

fun apply_rec :: "log_record \<Rightarrow> pnode \<Rightarrow> pnode" where
  "apply_rec (AddRec name as) root =
     pn_update (split_slash name) (fold (\<lambda>kv. set_attr (fst kv) (snd kv)) as) (addnode name root)"
| "apply_rec (DelRec name) root = delnode name root"

text \<open>The words of a text, and the texts the lemmas are about: every word is followed by space.\<close>

function text_words :: "string \<Rightarrow> string list" where
  "text_words s = (let r = dropWhile c_space s in
     if r = [] then []
     else takeWhile (\<lambda>c. \<not> c_space c) r # text_words (dropWhile (\<lambda>c. \<not> c_space c) r))"
  by pat_completeness auto
termination
proof (relation "measure length", goal_cases)
  case (2 s r)
  then have "length (dropWhile (\<lambda>c. \<not> c_space c) r) < length r"
    using hd_dropWhile_space [of c_space s] by (intro dropWhile_word) auto
  moreover have "length r \<le> length s" using 2 by (simp add: length_dropWhile_le)
  ultimately show ?case by simp
qed simp

declare text_words.simps [simp del]

definition word :: "string \<Rightarrow> bool" where
  "word t \<longleftrightarrow> t \<noteq> [] \<and> (\<forall>c \<in> set t. \<not> c_space c)"

definition ends_space :: "string \<Rightarrow> bool" where
  "ends_space s \<longleftrightarrow> s = [] \<or> c_space (last s)"

definition attr_ok :: "string \<times> string \<Rightarrow> bool" where
  "attr_ok kv \<longleftrightarrow> (\<forall>c \<in> set (fst kv) \<union> set (snd kv). \<not> c_space c) \<and> CHR ''='' \<notin> set (fst kv)
     \<and> (fst kv \<noteq> [] \<longrightarrow> hd (fst kv) \<noteq> CHR ''#'')"

definition name_ok :: "string \<Rightarrow> bool" where
  "name_ok name \<longleftrightarrow> word name \<and> hd name \<noteq> CHR ''#'' \<and> hd name \<noteq> CHR ''-'' \<and> name \<noteq> '';;''"

fun rec_ok :: "log_record \<Rightarrow> bool" where
  "rec_ok (AddRec name as) \<longleftrightarrow> name_ok name \<and> (\<forall>kv \<in> set as. attr_ok kv)"
| "rec_ok (DelRec name) \<longleftrightarrow> (\<forall>c \<in> set name. \<not> c_space c)"

text \<open>A tree is well formed when attributes and children are ordered maps at every level.\<close>

fun pn_ok :: "pnode \<Rightarrow> bool" and pn_oks :: "(string \<times> pnode) list \<Rightarrow> bool" where
  "pn_ok (PersistNode at ch) \<longleftrightarrow> smap_ok at \<and> smap_ok ch \<and> pn_oks ch"
| "pn_oks [] \<longleftrightarrow> True"
| "pn_oks ((k, c) # ch) \<longleftrightarrow> pn_ok c \<and> pn_oks ch"

subsection \<open>Words of texts\<close>

lemma text_words_Nil [simp]: "text_words [] = []"
  by (simp add: text_words.simps)

lemma text_words_space [simp]: "c_space c \<Longrightarrow> text_words (c # s) = text_words s"
  by (simp add: text_words.simps [of "c # s"] text_words.simps [of s] Let_def)

lemma text_words_word: "word t \<Longrightarrow> c_space c \<Longrightarrow> text_words (t @ c # s) = t # text_words s"
  using text_words.simps [of "t @ c # s"]
  by (cases t) (auto simp: word_def Let_def takeWhile_append2 dropWhile_append2 simp del: text_words.simps)

lemma c_space_chars [simp]: "c_space CHR '' ''" "c_space CHR 0x0A"
  by (simp_all add: c_space_def)

lemma ends_space_dropWhile:
  assumes "ends_space s" and "dropWhile c_space s \<noteq> []"
  shows "dropWhile (\<lambda>c. \<not> c_space c) (dropWhile c_space s) \<noteq> [] \<and>
         ends_space (dropWhile (\<lambda>c. \<not> c_space c) (dropWhile c_space s))"
proof -
  let ?r = "dropWhile c_space s"
  have "s \<noteq> []" using assms(2) by auto
  then have l: "c_space (last s)" using assms(1) by (simp add: ends_space_def)
  obtain u where "s = u @ ?r" by (metis takeWhile_dropWhile_id)
  then have lr: "c_space (last ?r)" using l assms(2) by (metis last_appendR)
  then have ne: "dropWhile (\<lambda>c. \<not> c_space c) ?r \<noteq> []"
    using assms(2) by (metis dropWhile_eq_Nil_conv last_in_set)
  obtain v where "?r = v @ dropWhile (\<lambda>c. \<not> c_space c) ?r" by (metis takeWhile_dropWhile_id)
  then have "c_space (last (dropWhile (\<lambda>c. \<not> c_space c) ?r))" using lr ne by (metis last_appendR)
  then show ?thesis using ne by (simp add: ends_space_def)
qed

text \<open>Reading a token from a healthy stream, and at the end of it.\<close>

lemma readtoken_word:
  assumes "is_good s" and "ends_space (is_rest s)" and "text_words (is_rest s) = t # ts"
    and "hd t \<noteq> CHR ''#''"
  shows "\<exists>s'. readtoken s tok = (True, t, s') \<and> is_good s' \<and> ends_space (is_rest s') \<and>
     text_words (is_rest s') = ts"
proof -
  let ?r = "dropWhile c_space (is_rest s)"
  let ?s = "s\<lparr>is_rest := dropWhile (\<lambda>c. \<not> c_space c) ?r, is_eof := False\<rparr>"
  have r: "?r \<noteq> []"
    using assms(3) by (auto simp: text_words.simps [of "is_rest s"] Let_def split: if_splits)
  with assms(3) have t: "t = takeWhile (\<lambda>c. \<not> c_space c) ?r"
    and ts: "ts = text_words (dropWhile (\<lambda>c. \<not> c_space c) ?r)"
    by (auto simp: text_words.simps [of "is_rest s"] Let_def split: if_splits)
  have "t \<noteq> []" using r hd_dropWhile_space [of c_space "is_rest s"] t by (cases ?r) auto
  moreover have "is_extract s tok = (t, ?s)"
    using assms(1) r t ends_space_dropWhile [OF assms(2) r]
    by (simp add: is_extract_def Let_def del: dropWhile_eq_Nil_conv)
  ultimately have "readtoken s tok = (True, t, ?s)"
    using assms(1,4) by (simp add: readtoken.simps [of s] is_good_def)
  then show ?thesis using assms(1) ts ends_space_dropWhile [OF assms(2) r] by (simp add: is_good_def)
qed

lemma readtoken_end:
  assumes "is_good s" and "text_words (is_rest s) = []" and "tok = [] \<or> hd tok \<noteq> CHR ''#''"
  shows "\<exists>s'. readtoken s tok = (tok \<noteq> [], tok, s') \<and> is_fail s'"
proof -
  have "dropWhile c_space (is_rest s) = []"
    using assms(2) by (auto simp: text_words.simps [of "is_rest s"] Let_def split: if_splits)
  then show ?thesis using assms
    by (auto simp: readtoken.simps [of s] is_extract_def is_good_def Let_def)
qed

lemma readtoken_fail: "is_fail s \<Longrightarrow> readtoken s tok = (False, tok, s)"
  by (simp add: readtoken.simps [of s])

subsection \<open>The parser replays the journal\<close>

lemma takeWhile_neq_append: "c \<notin> set k \<Longrightarrow> takeWhile (\<lambda>d. d \<noteq> c) (k @ c # v) = k"
  and dropWhile_neq_append: "c \<notin> set k \<Longrightarrow> dropWhile (\<lambda>d. d \<noteq> c) (k @ c # v) = c # v"
  by (induction k) auto

lemma addattr_token: "attr_ok kv \<Longrightarrow> addattr (attr_token kv) = set_attr (fst kv) (snd kv)"
  by (simp add: addattr_def attr_token_def attr_ok_def takeWhile_neq_append dropWhile_neq_append)

lemma attr_token_word: "attr_ok kv \<Longrightarrow> word (attr_token kv) \<and> hd (attr_token kv) \<noteq> CHR ''#''
    \<and> attr_token kv \<noteq> '';;''"
proof -
  assume ok: "attr_ok kv"
  have "CHR ''='' \<in> set (attr_token kv)" by (simp add: attr_token_def)
  moreover have "CHR ''='' \<notin> set '';;''" by simp
  ultimately have "attr_token kv \<noteq> '';;''" by metis
  moreover have "word (attr_token kv)" using ok by (auto simp: attr_ok_def attr_token_def word_def c_space_def)
  moreover have "hd (attr_token kv) \<noteq> CHR ''#''"
    using ok by (cases "fst kv") (auto simp: attr_ok_def attr_token_def)
  ultimately show ?thesis by simp
qed

text \<open>Reading the attributes of a node up to the closing \<^verbatim>\<open>;;\<close>.\<close>

lemma readnode_attrs:
  assumes "is_good s" and "ends_space (is_rest s)" and "\<forall>kv \<in> set as. attr_ok kv"
    and "text_words (is_rest s) = map attr_token as @ '';;'' # ts"
  shows "\<exists>s'. readnode_loop s tok (Some path) root =
      (True, s', fold (\<lambda>kv. pn_update path (set_attr (fst kv) (snd kv))) as root) \<and>
    is_good s' \<and> ends_space (is_rest s') \<and> text_words (is_rest s') = ts"
  using assms
proof (induction as arbitrary: s tok root)
  case Nil
  then obtain s' where rt: "readtoken s tok = (True, '';;'', s')" "is_good s'"
    "ends_space (is_rest s')" "text_words (is_rest s') = ts"
    using readtoken_word [of s "'';;''" ts tok] by auto
  then show ?case by (simp add: readnode_loop.simps [of s])
next
  case (Cons kv as)
  then have ok: "attr_ok kv" by simp
  obtain s1 where rt: "readtoken s tok = (True, attr_token kv, s1)" "is_good s1"
    "ends_space (is_rest s1)" "text_words (is_rest s1) = map attr_token as @ '';;'' # ts"
    using readtoken_word [of s "attr_token kv" "map attr_token as @ '';;'' # ts" tok] Cons.prems
      attr_token_word [OF ok] by auto
  with Cons.IH [of s1 "attr_token kv" "pn_update path (addattr (attr_token kv)) root"] Cons.prems
  obtain s' where "readnode_loop s1 (attr_token kv) (Some path)
        (pn_update path (addattr (attr_token kv)) root) =
      (True, s', fold (\<lambda>kv. pn_update path (set_attr (fst kv) (snd kv))) as
         (pn_update path (addattr (attr_token kv)) root)) \<and>
      is_good s' \<and> ends_space (is_rest s') \<and> text_words (is_rest s') = ts"
    by auto
  then show ?case using rt attr_token_word [OF ok] addattr_token [OF ok]
    by (simp add: readnode_loop.simps [of s])
qed

subsection \<open>Grafting a subtree\<close>

text \<open>\<open>graft p n T\<close> puts the node \<open>n\<close> at path \<open>p\<close> of \<open>T\<close>, creating missing branches.\<close>

fun graft :: "string list \<Rightarrow> pnode \<Rightarrow> pnode \<Rightarrow> pnode" where
  "graft [] n T = n"
| "graft (k # ks) n (PersistNode at ch) =
     PersistNode at (smap_set k (graft ks n (case map_of ch k of None \<Rightarrow> pn_empty | Some c \<Rightarrow> c)) ch)"

lemma addnode_path_graft: "p \<noteq> [] \<Longrightarrow> addnode_path p T = graft p pn_empty T"
  by (induction p T rule: addnode_path.induct) (auto simp: Let_def)

lemma graft_graft: "graft p n (graft p m T) = graft p n T"
  by (induction p m T rule: graft.induct) (auto simp: map_of_smap_set smap_set_twice)

lemma pn_update_graft: "pn_update p f (graft p n T) = graft p (f n) T"
  by (induction p n T rule: graft.induct) (auto simp: map_of_smap_set smap_set_twice)

lemma graft_child:
  "graft (p @ [k]) c (graft p (PersistNode at ch) T) = graft p (PersistNode at (smap_set k c ch)) T"
proof (induction p "PersistNode at ch" T rule: graft.induct)
  case (2 k' ks at' ch')
  then show ?case by (simp add: map_of_smap_set smap_set_twice)
qed simp

lemma split_slash_not_Nil [simp]: "split_slash s \<noteq> []"
  by (induction s) (auto split: list.splits)

lemma split_slash_plain: "CHR ''/'' \<notin> set k \<Longrightarrow> split_slash k = [k]"
  by (induction k) auto

lemma split_slash_join: "CHR ''/'' \<notin> set k \<Longrightarrow> split_slash (name @ ''/'' @ k) = split_slash name @ [k]"
  by (induction name) (auto simp: split_slash_plain split: list.splits)

lemma addnode_graft: "addnode name T = graft (split_slash name) pn_empty T"
  by (simp add: addnode_def addnode_path_graft)

lemma fold_set_attr: "fold (\<lambda>kv. set_attr (fst kv) (snd kv)) as (PersistNode at ch) =
    PersistNode (fold (\<lambda>kv. smap_set (fst kv) (snd kv)) as at) ch"
  by (induction as arbitrary: at) auto

lemma fold_smap_set_sorted:
  "smap_ok (at @ as) \<Longrightarrow> fold (\<lambda>kv. smap_set (fst kv) (snd kv)) as at = at @ as"
proof (induction as arbitrary: at)
  case (Cons kv as)
  have "smap_set (fst kv) (snd kv) at = at @ [kv]"
    using Cons.prems by (subst smap_set_append) (force simp: smap_ok_def sorted_wrt_append)+
  with Cons show ?case by simp
qed simp

lemma apply_AddRec: "smap_ok as \<Longrightarrow> apply_rec (AddRec name as) T = graft (split_slash name) (PersistNode as []) T"
  using fold_smap_set_sorted [of "[]" as]
  by (simp add: addnode_graft pn_update_graft pn_empty_def fold_set_attr)

lemma fold_pn_update:
  "fold (\<lambda>kv. pn_update p (set_attr (fst kv) (snd kv))) as (graft p n T) =
   graft p (fold (\<lambda>kv. set_attr (fst kv) (snd kv)) as n) T"
  by (induction as arbitrary: n) (auto simp: pn_update_graft)

subsection \<open>Well-formedness is kept\<close>

lemma pn_oks_iff: "pn_oks ch \<longleftrightarrow> (\<forall>kc \<in> set ch. pn_ok (snd kc))"
  by (induction ch) auto

lemma pn_oks_map_of: "pn_oks ch \<Longrightarrow> map_of ch k = Some c \<Longrightarrow> pn_ok c"
  by (auto simp: pn_oks_iff dest!: map_of_SomeD)

lemma pn_oks_smap_set: "pn_oks ch \<Longrightarrow> pn_ok c \<Longrightarrow> pn_oks (smap_set k c ch)"
  by (induction k c ch rule: smap_set.induct) auto

lemma pn_oks_smap_erase: "pn_oks ch \<Longrightarrow> pn_oks (smap_erase k ch)"
  by (induction k ch rule: smap_erase.induct) auto

lemma pn_empty_ok [simp]: "pn_ok pn_empty"
  by (simp add: pn_empty_def)

lemma graft_ok: "pn_ok n \<Longrightarrow> pn_ok T \<Longrightarrow> pn_ok (graft p n T)"
proof (induction p n T rule: graft.induct)
  case (2 k ks n at ch)
  have "pn_ok (case map_of ch k of None \<Rightarrow> pn_empty | Some c \<Rightarrow> c)"
    using 2(3) by (auto split: option.splits intro: pn_oks_map_of)
  with 2 show ?case by (auto simp: smap_set_ok intro!: pn_oks_smap_set)
qed simp

lemma set_attr_ok: "pn_ok n \<Longrightarrow> pn_ok (set_attr k v n)"
  by (cases n) (simp add: smap_set_ok)

lemma fold_set_attr_ok: "pn_ok n \<Longrightarrow> pn_ok (fold (\<lambda>kv. set_attr (fst kv) (snd kv)) as n)"
  by (induction as arbitrary: n) (auto simp: set_attr_ok)

lemma delnode_path_ok: "pn_ok T \<Longrightarrow> pn_ok (delnode_path p T)"
  by (induction p T rule: delnode_path.induct)
     (auto simp: smap_erase_ok smap_set_ok pn_oks_smap_erase split: option.splits
       intro: pn_oks_smap_set pn_oks_map_of)

lemma apply_rec_ok: "pn_ok T \<Longrightarrow> pn_ok (apply_rec r T)"
  by (cases r) (auto simp: addnode_graft pn_update_graft delnode_def
      intro!: graft_ok fold_set_attr_ok delnode_path_ok)

lemma fold_apply_rec_ok: "pn_ok T \<Longrightarrow> pn_ok (fold apply_rec rs T)"
  by (induction rs arbitrary: T) (auto simp: apply_rec_ok)

lemma delnode_path_twice: "pn_ok T \<Longrightarrow> delnode_path p (delnode_path p T) = delnode_path p T"
proof (induction p T rule: delnode_path.induct)
  case (2 k at ch)
  then show ?case by (simp add: smap_erase_idem)
next
  case (3 k k' ks at ch)
  show ?case
  proof (cases "map_of ch k")
    case (Some c)
    then have "pn_ok c" using 3(2) pn_oks_map_of by auto
    with 3(1) [OF Some] Some show ?thesis by (simp add: map_of_smap_set smap_set_twice)
  qed simp
qed auto

lemma delnode_twice: "pn_ok T \<Longrightarrow> delnode name (delnode name T) = delnode name T"
  by (simp add: delnode_def delnode_path_twice)

subsection \<open>One call of readnode\<close>

text \<open>
  Deletions at the head of the journal, then a node record; or deletions up to the end, where
  the last one is performed twice.
\<close>

lemma readnode_dels:
  assumes "is_good s" and "ends_space (is_rest s)" and "\<forall>d \<in> set ds. \<forall>c \<in> set d. \<not> c_space c"
    and "text_words (is_rest s) = map (Cons CHR ''-'') ds @ ts"
  shows "\<exists>s' tok'. readnode_loop s tok None root = readnode_loop s' tok' None (fold delnode ds root) \<and>
    is_good s' \<and> ends_space (is_rest s') \<and> text_words (is_rest s') = ts \<and>
    tok' = (if ds = [] then tok else CHR ''-'' # last ds)"
  using assms
proof (induction ds arbitrary: s tok root)
  case Nil
  then show ?case by auto
next
  case (Cons d ds)
  obtain s1 where rt: "readtoken s tok = (True, CHR ''-'' # d, s1)" "is_good s1"
    "ends_space (is_rest s1)" "text_words (is_rest s1) = map (Cons CHR ''-'') ds @ ts"
    using readtoken_word [of s "CHR ''-'' # d" "map (Cons CHR ''-'') ds @ ts" tok] Cons.prems by auto
  have "readnode_loop s tok None root = readnode_loop s1 (CHR ''-'' # d) None (delnode d root)"
    using rt(1) by (simp add: readnode_loop.simps [of s])
  moreover obtain s' tok' where "readnode_loop s1 (CHR ''-'' # d) None (delnode d root) =
      readnode_loop s' tok' None (fold delnode ds (delnode d root)) \<and>
    is_good s' \<and> ends_space (is_rest s') \<and> text_words (is_rest s') = ts \<and>
    tok' = (if ds = [] then CHR ''-'' # d else CHR ''-'' # last ds)"
    using Cons.IH [of s1 "CHR ''-'' # d" "delnode d root"] rt Cons.prems by auto
  ultimately show ?case by auto
qed

lemma readnode_add:
  assumes "is_good s" and "ends_space (is_rest s)" and "rec_ok (AddRec name as)"
    and "text_words (is_rest s) = rec_tokens (AddRec name as) @ ts"
  shows "\<exists>s'. readnode_loop s tok None root = (True, s', apply_rec (AddRec name as) root) \<and>
    is_good s' \<and> ends_space (is_rest s') \<and> text_words (is_rest s') = ts"
proof -
  have n: "hd name \<noteq> CHR ''#''" "hd name \<noteq> CHR ''-''" "name \<noteq> '';;''" "name \<noteq> []"
    using assms(3) by (auto simp: name_ok_def word_def)
  obtain s1 where rt: "readtoken s tok = (True, name, s1)" "is_good s1" "ends_space (is_rest s1)"
      "text_words (is_rest s1) = map attr_token as @ '';;'' # ts"
    using readtoken_word [of s name "map attr_token as @ '';;'' # ts" tok] assms n by auto
  have "readnode_loop s tok None root =
      readnode_loop s1 name (Some (split_slash name)) (addnode name root)"
    using rt(1) n by (simp add: readnode_loop.simps [of s])
  with readnode_attrs [OF rt(2,3) _ rt(4), of name "split_slash name" "addnode name root"] assms(3)
  show ?thesis by (auto simp: addnode_graft fold_pn_update pn_update_graft)
qed

lemma readnode_end:
  assumes "is_good s" and "text_words (is_rest s) = []" and "pn_ok root"
    and "tok = [] \<or> (\<exists>d. tok = CHR ''-'' # d \<and> delnode d root = root)"
  shows "\<exists>s'. readnode_loop s tok None root = (False, s', root)"
proof -
  have h: "tok = [] \<or> hd tok \<noteq> CHR ''#''" using assms(4) by auto
  obtain s' where rt: "readtoken s tok = (tok \<noteq> [], tok, s')" "is_fail s'"
    using readtoken_end [OF assms(1,2) h] by blast
  show ?thesis
  proof (cases "tok = []")
    case True
    then show ?thesis using rt by (simp add: readnode_loop.simps [of s])
  next
    case False
    then obtain d where d: "tok = CHR ''-'' # d" "delnode d root = root" using assms(4) by auto
    then have "readnode_loop s tok None root = readnode_loop s' tok None root"
      using rt by (simp add: readnode_loop.simps [of s])
    also have "\<dots> = (False, s', root)" using rt(2) by (simp add: readnode_loop.simps [of s'] readtoken_fail)
    finally show ?thesis by blast
  qed
qed

subsection \<open>The whole journal\<close>

lemma split_dels:
  obtains ds rs' where "rs = map DelRec ds @ rs'" and "rs' = [] \<or> (\<exists>n as rs''. rs' = AddRec n as # rs'')"
proof -
  have "\<exists>ds rs'. rs = map DelRec ds @ rs' \<and> (rs' = [] \<or> (\<exists>n as rs''. rs' = AddRec n as # rs''))"
  proof (induction rs)
    case (Cons r rs)
    show ?case
    proof (cases r)
      case (AddRec n as)
      then show ?thesis by (intro exI [of _ "[]"] exI [of _ "r # rs"]) simp
    next
      case (DelRec d)
      from Cons obtain ds rs' where "rs = map DelRec ds @ rs'"
        "rs' = [] \<or> (\<exists>n as rs''. rs' = AddRec n as # rs'')" by blast
      with DelRec show ?thesis by (intro exI [of _ "d # ds"] exI [of _ rs']) simp
    qed
  qed simp
  then show thesis using that by blast
qed

lemma dels_tokens: "concat (map rec_tokens (map DelRec ds)) = map (Cons CHR ''-'') ds"
  by (induction ds) auto

lemma dels_apply: "fold apply_rec (map DelRec ds) T = fold delnode ds T"
  by (induction ds arbitrary: T) auto

lemma fold_delnode_ok: "pn_ok T \<Longrightarrow> pn_ok (fold delnode ds T)"
  using fold_apply_rec_ok [of T "map DelRec ds"] by (simp add: dels_apply)

lemma dels_last: "pn_ok T \<Longrightarrow> ds \<noteq> [] \<Longrightarrow> delnode (last ds) (fold delnode ds T) = fold delnode ds T"
  by (induction ds rule: rev_induct) (auto simp: delnode_twice fold_delnode_ok)

lemma parse_stream_replay:
  assumes "is_good s" and "ends_space (is_rest s)" and "\<forall>r \<in> set rs. rec_ok r" and "pn_ok T"
    and "text_words (is_rest s) = concat (map rec_tokens rs)"
  shows "parse_stream s T = fold apply_rec rs T"
  using assms
proof (induction "length rs" arbitrary: s rs T rule: less_induct)
  case less
  obtain ds rs' where rs: "rs = map DelRec ds @ rs'"
    and rs': "rs' = [] \<or> (\<exists>n as rs''. rs' = AddRec n as # rs'')" by (rule split_dels)
  let ?T = "fold delnode ds T"
  have "\<forall>d \<in> set ds. rec_ok (DelRec d)"
    using less.prems(3) rs by (simp add: image_Un ball_Un del: rec_ok.simps)
  then have ds: "\<forall>d \<in> set ds. \<forall>c \<in> set d. \<not> c_space c" by simp
  have okT: "pn_ok ?T" by (rule fold_delnode_ok [OF less.prems(4)])
  obtain s' tok' where L: "readnode s T = readnode_loop s' tok' None ?T"
    and s': "is_good s'" "ends_space (is_rest s')"
      "text_words (is_rest s') = concat (map rec_tokens rs')"
    and tok': "tok' = (if ds = [] then [] else CHR ''-'' # last ds)"
    using readnode_dels [OF less.prems(1,2) ds, of "concat (map rec_tokens rs')" "[]" T]
      less.prems(5) rs dels_tokens [of ds] by (auto simp: readnode_def)
  from rs' show ?case
  proof
    assume "rs' = []"
    have "tok' = [] \<or> (\<exists>d. tok' = CHR ''-'' # d \<and> delnode d ?T = ?T)"
      using tok' dels_last [OF less.prems(4)] by (cases "ds = []") auto
    then obtain s'' where "readnode_loop s' tok' None ?T = (False, s'', ?T)"
      using readnode_end [OF s'(1) _ okT, of tok'] s'(3) \<open>rs' = []\<close> by auto
    then show ?thesis using L rs \<open>rs' = []\<close>
      by (simp add: parse_stream.simps [of s] dels_apply)
  next
    assume "\<exists>n as rs''. rs' = AddRec n as # rs''"
    then obtain n as rs'' where c: "rs' = AddRec n as # rs''" by blast
    then obtain s'' where R: "readnode_loop s' tok' None ?T = (True, s'', apply_rec (AddRec n as) ?T)"
      and s'': "is_good s''" "ends_space (is_rest s'')"
        "text_words (is_rest s'') = concat (map rec_tokens rs'')"
      using readnode_add [OF s'(1,2), of n as "concat (map rec_tokens rs'')" tok' ?T]
        s'(3) less.prems(3) rs by auto
    have "parse_stream s'' (apply_rec (AddRec n as) ?T) = fold apply_rec rs'' (apply_rec (AddRec n as) ?T)"
      using less.hyps [of rs'' s'' "apply_rec (AddRec n as) ?T"] s'' less.prems(3) rs c okT
      by (simp add: apply_rec_ok del: apply_rec.simps)
    then show ?thesis using L R rs c
      by (simp add: parse_stream.simps [of s] dels_apply del: apply_rec.simps)
  qed
qed

lemma parse_text_replay:
  "ends_space txt \<Longrightarrow> \<forall>r \<in> set rs. rec_ok r \<Longrightarrow> text_words txt = concat (map rec_tokens rs) \<Longrightarrow>
   parse_text txt = fold apply_rec rs pn_empty"
  unfolding parse_text_def by (rule parse_stream_replay) (simp_all add: istream_of_def is_good_def)

subsection \<open>Texts of records\<close>

fun rec_text :: "log_record \<Rightarrow> string" where
  "rec_text (AddRec name as) = name @ nl @ concat (map attr_line as) @ '' ;;'' @ nl"
| "rec_text (DelRec name) = ''-'' @ name @ nl"

lemma attr_lines_words:
  "\<forall>kv \<in> set as. attr_ok kv \<Longrightarrow>
   text_words (concat (map attr_line as) @ s) = map attr_token as @ text_words s"
proof (induction as)
  case (Cons kv as)
  then have "word (attr_token kv)" using attr_token_word by simp
  then have "text_words (attr_token kv @ CHR 0x0A # concat (map attr_line as) @ s) =
      attr_token kv # text_words (concat (map attr_line as) @ s)"
    by (intro text_words_word) simp_all
  moreover have "attr_line kv = CHR '' '' # attr_token kv @ [CHR 0x0A]"
    by (simp add: attr_line_def attr_token_def nl_def)
  ultimately show ?case using Cons by simp
qed simp

lemma rec_text_words: "rec_ok r \<Longrightarrow> text_words (rec_text r @ s) = rec_tokens r @ text_words s"
proof (cases r)
  case (AddRec name as)
  assume "rec_ok r"
  then have n: "word name" and as: "\<forall>kv \<in> set as. attr_ok kv" using AddRec by (auto simp: name_ok_def)
  have "text_words ('';;'' @ CHR 0x0A # s) = '';;'' # text_words s"
    by (rule text_words_word) (simp_all add: word_def c_space_def)
  then show ?thesis using AddRec text_words_word [OF n, of "CHR 0x0A"] attr_lines_words [OF as]
    by (simp add: nl_def)
next
  case (DelRec d)
  assume "rec_ok r"
  then have "word (CHR ''-'' # d)" using DelRec by (auto simp: word_def c_space_def)
  from text_words_word [OF this, of "CHR 0x0A" s] DelRec show ?thesis by (simp add: nl_def)
qed

lemma journal_words:
  "\<forall>r \<in> set rs. rec_ok r \<Longrightarrow> text_words (concat (map rec_text rs)) = concat (map rec_tokens rs)"
  by (induction rs) (simp_all add: rec_text_words)

lemma rec_text_last: "rec_text r \<noteq> [] \<and> last (rec_text r) = CHR 0x0A"
  by (cases r) (auto simp: nl_def)

lemma journal_ends: "ends_space (concat (map rec_text rs))"
proof (cases rs rule: rev_cases)
  case (snoc rs' r)
  then show ?thesis using rec_text_last [of r] by (simp add: ends_space_def)
qed (simp add: ends_space_def)

text \<open>
  C4. The logfile is a journal: parsing the concatenation of the records written to it gives
  the tree obtained by performing them one after the other, in order, whether the file ends
  with a node or with a deletion. So appending a record to the file changes the parsed state
  by exactly that record.
\<close>

theorem parse_replays_journal:
  assumes "\<forall>r \<in> set rs. rec_ok r"
  shows "parse_text (concat (map rec_text rs)) = fold apply_rec rs pn_empty"
  using parse_text_replay [OF journal_ends assms journal_words [OF assms]] .

theorem parse_replays_journal_witness:
  "parse_text (concat (map rec_text [AddRec ''ecf'' [(''port'', ''11169'')], AddRec ''ecf/c'' [], DelRec ''ecf/c'']))
     = PersistNode [] [(''ecf'', PersistNode [(''port'', ''11169'')] [])]"
proof -
  have h: "\<forall>r \<in> set [AddRec ''ecf'' [(''port'', ''11169'')], AddRec ''ecf/c'' [], DelRec ''ecf/c'']. rec_ok r"
    by (simp add: name_ok_def word_def attr_ok_def c_space_def)
  show ?thesis using parse_replays_journal [OF h]
    by (simp add: pn_empty_def addnode_def delnode_def del: rec_text.simps rec_ok.simps)
qed

subsection \<open>Writing and reading back\<close>

fun tree_recs :: "string \<Rightarrow> pnode \<Rightarrow> log_record list"
  and trees_recs :: "string \<Rightarrow> (string \<times> pnode) list \<Rightarrow> log_record list" where
  "tree_recs name (PersistNode at ch) =
     (if name \<noteq> [] then AddRec name at # trees_recs (name @ ''/'') ch else trees_recs name ch)"
| "trees_recs name [] = []"
| "trees_recs name ((k, c) # ch) = tree_recs (name @ k) c @ trees_recs name ch"

fun tree_valid :: "pnode \<Rightarrow> bool" and trees_valid :: "(string \<times> pnode) list \<Rightarrow> bool" where
  "tree_valid (PersistNode at ch) \<longleftrightarrow> (\<forall>kv \<in> set at. attr_ok kv) \<and> trees_valid ch"
| "trees_valid [] \<longleftrightarrow> True"
| "trees_valid ((k, c) # ch) \<longleftrightarrow>
     (\<forall>x \<in> set k. \<not> c_space x \<and> x \<noteq> CHR ''/'') \<and> tree_valid c \<and> trees_valid ch"

text \<open>The state of the server: a root without attributes whose children have proper names.\<close>

definition root_valid :: "pnode \<Rightarrow> bool" where
  "root_valid root \<longleftrightarrow> pn_attr root = [] \<and> tree_valid root \<and>
     (\<forall>kc \<in> set (pn_child root). name_ok (fst kc))"

lemma pn_output_recs:
  "pn_output name n = concat (map rec_text (tree_recs name n))"
  "pn_outputs name ch = concat (map rec_text (trees_recs name ch))"
  by (induction name n and name ch rule: pn_output_pn_outputs.induct) auto

lemma name_ok_join:
  assumes "name_ok name" and "\<forall>x \<in> set k. \<not> c_space x"
  shows "name_ok (name @ ''/'' @ k)"
proof -
  have "CHR ''/'' \<in> set (name @ ''/'' @ k)" by simp
  moreover have "CHR ''/'' \<notin> set '';;''" by simp
  ultimately have "name @ ''/'' @ k \<noteq> '';;''" by metis
  with assms show ?thesis by (auto simp: name_ok_def word_def c_space_def)
qed

lemma tree_recs_ok:
  "tree_valid n \<Longrightarrow> name_ok name \<Longrightarrow> \<forall>r \<in> set (tree_recs name n). rec_ok r"
  "trees_valid ch \<Longrightarrow> (\<exists>p. name = p @ ''/'' \<and> name_ok p) \<Longrightarrow> \<forall>r \<in> set (trees_recs name ch). rec_ok r"
proof (induction name n and name ch rule: tree_recs_trees_recs.induct)
  case (3 name k c ch)
  from 3(4) obtain p where p: "name = p @ ''/''" "name_ok p" by blast
  then have "name_ok (name @ k)" using name_ok_join [OF p(2), of k] 3(3) by auto
  with 3 show ?case by auto
qed (auto simp: name_ok_def word_def)

lemma tree_recs_graft:
  "tree_valid n \<Longrightarrow> pn_ok n \<Longrightarrow> name \<noteq> [] \<Longrightarrow>
   fold apply_rec (tree_recs name n) T = graft (split_slash name) n T"
  "trees_valid ch \<Longrightarrow> pn_oks ch \<Longrightarrow> smap_ok (ch0 @ ch) \<Longrightarrow> name = p @ ''/'' \<Longrightarrow>
   fold apply_rec (trees_recs name ch) (graft (split_slash p) (PersistNode at ch0) T) =
   graft (split_slash p) (PersistNode at (ch0 @ ch)) T"
proof (induction name n and name ch arbitrary: T and T ch0 at p rule: tree_recs_trees_recs.induct)
  case (1 name at' ch)
  have ok: "smap_ok at'" "smap_ok ch" "pn_oks ch" "trees_valid ch" using 1(3,4) by auto
  have "fold apply_rec (trees_recs (name @ ''/'') ch) (graft (split_slash name) (PersistNode at' []) T) =
      graft (split_slash name) (PersistNode at' ([] @ ch)) T"
    by (rule 1(1)) (use ok 1(5) in auto)
  then show ?case using 1(5) apply_AddRec [OF ok(1)] by (simp del: apply_rec.simps)
next
  case (3 name k c ch)
  have k: "CHR ''/'' \<notin> set k" using 3(3) by auto
  have ok: "tree_valid c" "trees_valid ch" "pn_ok c" "pn_oks ch" using 3(3,4) by auto
  have so: "smap_ok ((ch0 @ [(k, c)]) @ ch)" using 3(5) by simp
  have app: "smap_set k c ch0 = ch0 @ [(k, c)]"
    using 3(5) by (intro smap_set_append) (auto simp: smap_ok_def sorted_wrt_append)
  have ne: "name @ k \<noteq> []" using 3(6) by simp
  have sp: "split_slash (name @ k) = split_slash p @ [k]" using split_slash_join [OF k, of p] 3(6) by simp
  show ?case using 3(1) [OF ok(1,3) ne] 3(2) [OF ok(2,4) so 3(6)]
    by (simp add: sp graft_child app)
qed simp_all

lemma root_recs_ok:
  assumes "trees_valid ch" and "\<forall>kc \<in> set ch. name_ok (fst kc)"
  shows "\<forall>r \<in> set (trees_recs [] ch). rec_ok r"
  using assms
proof (induction ch)
  case (Cons kc ch)
  then show ?case using tree_recs_ok(1) by (cases kc) auto
qed simp

lemma root_recs_graft:
  assumes "trees_valid ch" and "pn_oks ch" and "smap_ok (ch0 @ ch)" and "\<forall>kc \<in> set ch. name_ok (fst kc)"
  shows "fold apply_rec (trees_recs [] ch) (PersistNode [] ch0) = PersistNode [] (ch0 @ ch)"
  using assms
proof (induction ch arbitrary: ch0)
  case (Cons kc ch)
  obtain k c where kc: "kc = (k, c)" by force
  have k: "CHR ''/'' \<notin> set k" "k \<noteq> []" using Cons.prems kc by (auto simp: name_ok_def word_def)
  have app: "smap_set k x ch0 = ch0 @ [(k, x)]" for x
    using Cons.prems(3) kc by (intro smap_set_append) (auto simp: smap_ok_def sorted_wrt_append)
  have "fold apply_rec (tree_recs k c) (PersistNode [] ch0) = PersistNode [] (ch0 @ [(k, c)])"
    using tree_recs_graft(1) [of c k] Cons.prems kc k app by (simp add: split_slash_plain)
  then show ?case using Cons.IH [of "ch0 @ [(k, c)]"] Cons.prems kc by simp
qed simp

text \<open>
  C5. Round trip of the persistency file: the tree that \<^verbatim>\<open>output\<close> writes is the tree the parser
  reads back, for every well-formed tree whose names and values contain no white space.
\<close>

theorem persist_roundtrip:
  assumes "pn_ok root" and "root_valid root"
  shows "parse_text (pn_output [] root) = root"
proof -
  obtain ch where r: "root = PersistNode [] ch"
    using assms(2) by (cases root) (auto simp: root_valid_def)
  have v: "trees_valid ch" "\<forall>kc \<in> set ch. name_ok (fst kc)" using assms(2) r by (auto simp: root_valid_def)
  have o: "pn_oks ch" "smap_ok ([] @ ch)" using assms(1) r by auto
  have "parse_text (pn_output [] root) = fold apply_rec (trees_recs [] ch) pn_empty"
    using parse_text_replay [OF journal_ends root_recs_ok [OF v] journal_words [OF root_recs_ok [OF v]]]
    by (simp add: r pn_output_recs)
  also have "\<dots> = root" using root_recs_graft [OF v(1) o v(2)] r by (simp add: pn_empty_def)
  finally show ?thesis .
qed

theorem persist_roundtrip_witness:
  "pn_ok (PersistNode [] [(''ecf'', PersistNode [(''port'', ''11169'')] [(''c'', pn_empty)])]) \<and>
   root_valid (PersistNode [] [(''ecf'', PersistNode [(''port'', ''11169'')] [(''c'', pn_empty)])]) \<and>
   parse_text (pn_output [] (PersistNode [] [(''ecf'', PersistNode [(''port'', ''11169'')] [(''c'', pn_empty)])]))
     = PersistNode [] [(''ecf'', PersistNode [(''port'', ''11169'')] [(''c'', pn_empty)])]"
proof -
  let ?t = "PersistNode [] [(''ecf'', PersistNode [(''port'', ''11169'')] [(''c'', pn_empty)])]"
  have a: "pn_ok ?t" by simp
  have b: "root_valid ?t"
    by (simp add: root_valid_def name_ok_def word_def attr_ok_def c_space_def pn_empty_def)
  show ?thesis using a b persist_roundtrip [OF a b] by simp
qed

subsection \<open>The state after the last record\<close>

fun lookup_path :: "string list \<Rightarrow> pnode \<Rightarrow> pnode option" where
  "lookup_path [] n = Some n"
| "lookup_path (k # ks) n = (case child k n of None \<Rightarrow> None | Some c \<Rightarrow> lookup_path ks c)"

lemma lookup_delnode_path: "pn_ok T \<Longrightarrow> p \<noteq> [] \<Longrightarrow> lookup_path p (delnode_path p T) = None"
proof (induction p T rule: delnode_path.induct)
  case (2 k at ch)
  then show ?case by (simp add: child_def map_of_smap_erase)
next
  case (3 k k' ks at ch)
  show ?case
  proof (cases "map_of ch k")
    case (Some c)
    then have "pn_ok c" using 3(2) pn_oks_map_of by auto
    with 3(1) [OF Some] Some show ?thesis by (simp add: child_def map_of_smap_set)
  qed (simp add: child_def)
qed auto

lemma lookup_graft: "lookup_path p (graft p n T) = Some n"
  by (induction p n T rule: graft.induct) (auto simp: child_def map_of_smap_set)

text \<open>
  The last record about a path decides: after a node record the file holds exactly that
  node, with its attributes and without the children an older record of the path may have
  had; after a deletion record it holds no node at that path.
\<close>

lemma journal_last_record_wins:
  assumes "\<forall>r \<in> set rs. rec_ok r" and "rec_ok (AddRec name as)" and "smap_ok as" and "rec_ok (DelRec name)"
  shows "lookup_path (split_slash name) (parse_text (concat (map rec_text (rs @ [AddRec name as]))))
           = Some (PersistNode as []) \<and>
    lookup_path (split_slash name) (parse_text (concat (map rec_text (rs @ [DelRec name])))) = None"
proof (rule conjI)
  let ?T = "fold apply_rec rs pn_empty"
  have "\<forall>r \<in> set (rs @ [AddRec name as]). rec_ok r" using assms by auto
  from parse_text_replay [OF journal_ends this journal_words [OF this]]
  show "lookup_path (split_slash name) (parse_text (concat (map rec_text (rs @ [AddRec name as]))))
           = Some (PersistNode as [])"
    using apply_AddRec [OF assms(3), of name ?T] by (simp add: lookup_graft del: apply_rec.simps)
  have "\<forall>r \<in> set (rs @ [DelRec name]). rec_ok r" using assms by auto
  from parse_text_replay [OF journal_ends this journal_words [OF this]]
  show "lookup_path (split_slash name) (parse_text (concat (map rec_text (rs @ [DelRec name])))) = None"
    using lookup_delnode_path [OF fold_apply_rec_ok [OF pn_empty_ok]]
    by (simp add: delnode_def)
qed

lemma atol_show_sint: "c_atol (show_int (to_int32 (uint (v :: ulong)))) = sint v"
proof -
  have "- (2 ^ 31) \<le> sint v \<and> sint v < 2 ^ 31"
    using sint_range_size [of v] by (simp add: word_size)
  then have "c_atol (show_int (sint v)) = sint v"
    by (intro atol_show_int) (auto simp: long_min_def long_max_def)
  then show ?thesis by (simp add: to_int32_uint)
qed

lemma atol_show_ulong: "(word_of_int (c_atol (show_int (to_int32 (uint (v :: ulong))))) :: ulong) = v"
  by (simp add: atol_show_sint)

text \<open>
  Numeric attributes: a 32-bit value stored by \<^verbatim>\<open>addattr(key,long)\<close> is read back unchanged by
  the accessors that return \<^verbatim>\<open>CORBA::ULong\<close>, although a value of \<open>2^31\<close> or more is written to the
  file as a negative number.
\<close>

lemma ulong_attr_roundtrip:
  "(word_of_int (attrLong key d (addattr_long key (uint (v :: ulong)) node)) :: ulong) = v"
  by (cases node) (simp add: addattr_long_def attrLong_def map_of_smap_set atol_show_ulong)

end
