(* ===== verification/Proxy_Manager.thy ===== *)
theory Proxy_Manager
  imports Corba_Orb Persist_Node
begin

text \<open>
  \<^verbatim>\<open>ProxyManager.h\<close> and \<^verbatim>\<open>ProxyManager.cc\<close>: the servant activator that owns the proxies of one
  kind, and the base class of the proxies with its logfile output. A manager holds its
  servants as \<^verbatim>\<open>set<Proxy*>\<close>, modelled as the map from addresses to the servants' states in
  address order. The contract between a proxy and the journal it writes is the locale
  \<open>journal_entry\<close>.
\<close>

record poaref =
  pr_name :: string
  pr_parent :: string

record 'p manager =
  mg_servants :: "(addr, 'p) smap"
  mg_poa :: poaref

section \<open>Proxy\<close>

text \<open>The destructor hands an outstanding request over to the \<^verbatim>\<open>Orb\<close>.\<close>

definition proxy_destroy :: "request option \<Rightarrow> world \<Rightarrow> world" where
  "proxy_destroy req w = (case req of None \<Rightarrow> w | Some r \<Rightarrow> deferredRequest r None w)"

definition keyOutput :: "env \<Rightarrow> poaref \<Rightarrow> addr \<Rightarrow> string \<Rightarrow> world \<Rightarrow> outres \<times> world" where
  "keyOutput E P a name w =
     (let w1 = orb_call (PoaServantToId (pr_name P) a) w
      in case env_servant_to_id E (w_trace w) (pr_name P) a of
           Inl e \<Rightarrow> (([], Some e), w1)
         | Inr oid \<Rightarrow> if env_bad_oid E oid then (([], Some BAD_PARAM), w1)
                      else ((''ecf/'' @ pr_parent P @ ''/'' @ name @ ''/'' @ oid, None), w1))"

definition eraseKey :: "env \<Rightarrow> poaref \<Rightarrow> addr \<Rightarrow> string \<Rightarrow> world \<Rightarrow> exn option \<times> world" where
  "eraseKey E P a name w =
     (if w_log w = None then (None, w)
      else case keyOutput E P a name w of ((txt, ex), w1) \<Rightarrow>
        log_output (''-'' @ txt @ (if ex = None then nl else []), ex) w1)"

definition ior_text :: "string \<Rightarrow> string option \<Rightarrow> string" where
  "ior_text ior extra = '' IOR='' @ ior @ (case extra of None \<Rightarrow> [] | Some x \<Rightarrow> x)"

text \<open>The two overloads of \<^verbatim>\<open>basicOutput\<close>: with an object reference, and with its string form.\<close>

definition basicOutput :: "env \<Rightarrow> poaref \<Rightarrow> addr \<Rightarrow> string \<Rightarrow> objref option \<Rightarrow> string option
    \<Rightarrow> world \<Rightarrow> outres \<times> world" where
  "basicOutput E P a name target extra w =
     (case keyOutput E P a name w of
        ((txt, Some e), w1) \<Rightarrow> ((txt, Some e), w1)
      | ((txt, None), w1) \<Rightarrow>
          ((txt @ (case target of None \<Rightarrow> []
                   | Some t \<Rightarrow> ior_text (env_object_to_string E t) extra) @ '' ;;'' @ nl, None), w1))"

definition basicOutput_ior :: "env \<Rightarrow> poaref \<Rightarrow> addr \<Rightarrow> string \<Rightarrow> string \<Rightarrow> string option
    \<Rightarrow> world \<Rightarrow> outres \<times> world" where
  "basicOutput_ior E P a name ior extra w =
     (case keyOutput E P a name w of
        ((txt, Some e), w1) \<Rightarrow> ((txt, Some e), w1)
      | ((txt, None), w1) \<Rightarrow> ((txt @ ior_text ior extra @ '' ;;'' @ nl, None), w1))"

text \<open>The two calls every proxy makes to close its connection.\<close>

definition close_proxy :: "env \<Rightarrow> poaref \<Rightarrow> addr \<Rightarrow> string \<Rightarrow> world \<Rightarrow> exn option \<times> world" where
  "close_proxy E P a name w = then_do (eraseKey E P a name w) (deactivateObject E (pr_name P) a)"

section \<open>ProxyManager\<close>

definition mg_etherealize :: "('p \<Rightarrow> request option) \<Rightarrow> addr \<Rightarrow> ('p, 'z) manager_scheme \<times> world
    \<Rightarrow> ('p, 'z) manager_scheme \<times> world" where
  "mg_etherealize req_of a mw = (case mw of (m, w) \<Rightarrow>
     (case map_of (mg_servants m) a of
        None \<Rightarrow> (m, w)
      | Some p \<Rightarrow> (m\<lparr>mg_servants := smap_erase a (mg_servants m)\<rparr>, proxy_destroy (req_of p) w)))"

text \<open>A request to the servant at an address, and the insertion of a new servant.\<close>

definition mg_at :: "addr \<Rightarrow> ('p \<times> world \<Rightarrow> exn option \<times> 'p \<times> world) \<Rightarrow> ('p, 'z) manager_scheme \<times> world
    \<Rightarrow> exn option \<times> ('p, 'z) manager_scheme \<times> world" where
  "mg_at a f mw = (case mw of (m, w) \<Rightarrow>
     (case map_of (mg_servants m) a of
        None \<Rightarrow> (Some OBJECT_NOT_EXIST, m, w)
      | Some p \<Rightarrow> (case f (p, w) of (ex, p1, w1) \<Rightarrow>
          (ex, m\<lparr>mg_servants := smap_set a p1 (mg_servants m)\<rparr>, w1))))"

definition mg_insert :: "addr \<Rightarrow> 'p \<Rightarrow> ('p, 'z) manager_scheme \<Rightarrow> ('p, 'z) manager_scheme" where
  "mg_insert a p m = m\<lparr>mg_servants := smap_set a p (mg_servants m)\<rparr>"

text \<open>
  \<^verbatim>\<open>reincarnate\<close> makes a servant for every child of the node. A servant whose target fails to
  narrow (\<open>BAD_PARAM\<close>) is removed and deleted again; any other exception ends the loop.
\<close>

fun mg_reincarnate :: "('m \<times> world \<Rightarrow> (exn + addr) \<times> 'm \<times> world)
    \<Rightarrow> (addr \<Rightarrow> string \<Rightarrow> pnode \<Rightarrow> 'm \<times> world \<Rightarrow> exn option \<times> 'm \<times> world)
    \<Rightarrow> (addr \<Rightarrow> 'm \<times> world \<Rightarrow> 'm \<times> world)
    \<Rightarrow> (string \<times> pnode) list \<Rightarrow> 'm \<times> world \<Rightarrow> exn option \<times> 'm \<times> world" where
  "mg_reincarnate inc rei del [] mw = (None, mw)"
| "mg_reincarnate inc rei del ((oid, node) # rest) mw =
     (case inc mw of
        (Inl e, mw1) \<Rightarrow> (Some e, mw1)
      | (Inr a, mw1) \<Rightarrow>
          (case rei a oid node mw1 of
             (None, mw2) \<Rightarrow> mg_reincarnate inc rei del rest mw2
           | (Some e, mw2) \<Rightarrow>
               if e = BAD_PARAM then mg_reincarnate inc rei del rest (del a mw2)
               else (Some e, mw2)))"

text \<open>\<^verbatim>\<open>output\<close> runs over all servants; what was written before an exception stays written.\<close>

fun mg_output :: "(addr \<Rightarrow> 'p \<Rightarrow> world \<Rightarrow> outres \<times> world) \<Rightarrow> (addr, 'p) smap \<Rightarrow> world \<Rightarrow> outres \<times> world"
where
  "mg_output out [] w = (([], None), w)"
| "mg_output out ((a, p) # ps) w =
     (case out a p w of
        ((txt, Some e), w1) \<Rightarrow> ((txt, Some e), w1)
      | ((txt, None), w1) \<Rightarrow>
          (case mg_output out ps w1 of ((txt', ex), w2) \<Rightarrow> ((txt @ txt', ex), w2)))"

definition mg_policies :: "policy list" where
  "mg_policies = [PERSISTENT, USER_ID, NO_IMPLICIT_ACTIVATION, USE_SERVANT_MANAGER, SINGLE_THREAD_MODEL]"

text \<open>
  \<^verbatim>\<open>activate\<close>: a failed \<^verbatim>\<open>create_POA\<close> is only logged, so \<^verbatim>\<open>_managedPoa\<close> may stay nil, and the
  last call of the method is then made on a nil reference.
\<close>

definition mg_activate :: "env \<Rightarrow> string \<Rightarrow> string \<Rightarrow> addr \<Rightarrow> world \<Rightarrow> (exn + poaref) \<times> world" where
  "mg_activate E parent name self w =
     (let poaName = parent @ ''.'' @ name;
          res = env_create_poa E (w_trace w) parent poaName;
          w1 = orb_call (PoaCreate parent poaName mg_policies) w
      in case res of
           Some e \<Rightarrow>
             if is_poa_clash e
             then (case activateObjectWithId E parent (name @ ''Manager'') self w1 of
                     (Some e', w2) \<Rightarrow> (Inl e', w2)
                   | (None, w2) \<Rightarrow> (Inl (SystemOther ''INV_OBJREF''), w2))
             else (Inl e, w1)
         | None \<Rightarrow>
             (case activateObjectWithId E parent (name @ ''Manager'') self w1 of
                (Some e', w2) \<Rightarrow> (Inl e', w2)
              | (None, w2) \<Rightarrow> (Inr \<lparr>pr_name = poaName, pr_parent = parent\<rparr>,
                               orb_call (PoaSetServant poaName self) w2)))"

section \<open>What a proxy writes is a journal record\<close>

text \<open>
  A client of the journal relies on two laws: what the proxy writes when it connects reads
  back as a node record of its key, and what it writes when it disconnects as a deletion of
  the same key. Together they say that the connection is gone from the file.
\<close>

locale journal_entry =
  fixes key :: "'k \<Rightarrow> string"
    and enter :: "'k \<Rightarrow> 'v \<Rightarrow> string"
    and leave :: "'k \<Rightarrow> string"
    and attrs :: "'v \<Rightarrow> (string, string) smap"
    and ok_key :: "'k \<Rightarrow> bool"
    and ok_val :: "'v \<Rightarrow> bool"
  assumes attrs_ok: "ok_val v \<Longrightarrow> smap_ok (attrs v)"
    and enter_ok: "ok_key k \<Longrightarrow> ok_val v \<Longrightarrow> rec_ok (AddRec (key k) (attrs v))"
    and leave_ok: "ok_key k \<Longrightarrow> rec_ok (DelRec (key k))"
    and enter_words: "ok_key k \<Longrightarrow> ok_val v \<Longrightarrow>
      text_words (enter k v @ s) = rec_tokens (AddRec (key k) (attrs v)) @ text_words s"
    and enter_ends: "ok_key k \<Longrightarrow> ok_val v \<Longrightarrow> enter k v \<noteq> [] \<and> c_space (last (enter k v))"
    and leave_text: "leave k = rec_text (DelRec (key k))"
begin

lemma journal_enter:
  assumes "ok_key k" and "ok_val v" and "\<forall>r \<in> set rs. rec_ok r"
  shows "parse_text (concat (map rec_text rs) @ enter k v) =
         apply_rec (AddRec (key k) (attrs v)) (fold apply_rec rs pn_empty)"
proof -
  let ?txt = "concat (map rec_text rs) @ enter k v"
  have app: "text_words (concat (map rec_text rs) @ s) = concat (map rec_tokens rs) @ text_words s" for s
    using assms(3) by (induction rs) (simp_all add: rec_text_words)
  have "text_words ?txt = concat (map rec_tokens (rs @ [AddRec (key k) (attrs v)]))"
    using app [of "enter k v"] enter_words [OF assms(1,2), of "[]"] by simp
  moreover have "ends_space ?txt" using enter_ends [OF assms(1,2)] by (simp add: ends_space_def)
  moreover have "\<forall>r \<in> set (rs @ [AddRec (key k) (attrs v)]). rec_ok r"
    using assms enter_ok by auto
  ultimately have "parse_text ?txt = fold apply_rec (rs @ [AddRec (key k) (attrs v)]) pn_empty"
    by (intro parse_text_replay)
  then show ?thesis by simp
qed

lemma journal_leave:
  assumes "ok_key k" and "\<forall>r \<in> set rs. rec_ok r"
  shows "lookup_path (split_slash (key k)) (parse_text (concat (map rec_text rs) @ leave k)) = None"
proof -
  have "\<forall>r \<in> set (rs @ [DelRec (key k)]). rec_ok r" using assms leave_ok by auto
  from parse_text_replay [OF journal_ends this journal_words [OF this]]
  show ?thesis using lookup_delnode_path [OF fold_apply_rec_ok [OF pn_empty_ok]]
    by (simp add: leave_text delnode_def)
qed

lemma journal_enter_leave:
  assumes "ok_key k" and "ok_val v" and "\<forall>r \<in> set rs. rec_ok r"
  shows "lookup_path (split_slash (key k)) (parse_text (concat (map rec_text rs) @ enter k v @ leave k)) = None"
proof -
  let ?txt = "concat (map rec_text rs) @ enter k v @ leave k"
  let ?rs = "rs @ [AddRec (key k) (attrs v), DelRec (key k)]"
  have app: "text_words (concat (map rec_text rs) @ s) = concat (map rec_tokens rs) @ text_words s" for s
    using assms(3) by (induction rs) (simp_all add: rec_text_words)
  have "text_words (leave k) = rec_tokens (DelRec (key k))"
    using rec_text_words [OF leave_ok [OF assms(1)], of "[]"] leave_text by simp
  then have "text_words ?txt = concat (map rec_tokens ?rs)"
    using app [of "enter k v @ leave k"] enter_words [OF assms(1,2), of "leave k"] by simp
  moreover have "ends_space ?txt" using leave_text by (simp add: ends_space_def nl_def)
  moreover have "\<forall>r \<in> set ?rs. rec_ok r" using assms enter_ok leave_ok by auto
  ultimately have "parse_text ?txt = fold apply_rec ?rs pn_empty" by (intro parse_text_replay)
  then show ?thesis
    using lookup_delnode_path [OF apply_rec_ok [OF fold_apply_rec_ok [OF pn_empty_ok]]]
    by (simp add: delnode_def del: apply_rec.simps(1))
qed

lemma journal_found:
  assumes "ok_key k" and "ok_val v" and "\<forall>r \<in> set rs. rec_ok r"
  shows "lookup_path (split_slash (key k)) (parse_text (concat (map rec_text rs) @ enter k v))
         = Some (PersistNode (attrs v) [])"
  using journal_enter [OF assms] apply_AddRec [OF attrs_ok [OF assms(2)]]
  by (simp add: lookup_graft del: apply_rec.simps)

end

text \<open>The record of a connected proxy: key, IOR and the federation flag.\<close>

definition proxy_key :: "string \<times> string \<times> string \<Rightarrow> string" where
  "proxy_key k = (case k of (chan, name, oid) \<Rightarrow> ''ecf/'' @ chan @ ''/'' @ name @ ''/'' @ oid)"

definition proxy_enter :: "string \<times> string \<times> string \<Rightarrow> string \<times> bool \<Rightarrow> string" where
  "proxy_enter k v = proxy_key k @ ior_text (fst v) (if snd v then Some '' proxy=1'' else None) @ '' ;;'' @ nl"

definition proxy_leave :: "string \<times> string \<times> string \<Rightarrow> string" where
  "proxy_leave k = ''-'' @ proxy_key k @ nl"

definition proxy_attrs :: "string \<times> bool \<Rightarrow> (string, string) smap" where
  "proxy_attrs v = (''IOR'', fst v) # (if snd v then [(''proxy'', ''1'')] else [])"

definition no_space :: "string \<Rightarrow> bool" where
  "no_space s \<longleftrightarrow> (\<forall>c \<in> set s. \<not> c_space c)"

definition proxy_key_ok :: "string \<times> string \<times> string \<Rightarrow> bool" where
  "proxy_key_ok k \<longleftrightarrow> (case k of (chan, name, oid) \<Rightarrow> no_space chan \<and> no_space name \<and> no_space oid)"

definition proxy_val_ok :: "string \<times> bool \<Rightarrow> bool" where
  "proxy_val_ok v \<longleftrightarrow> no_space (fst v)"

lemma no_space_append [simp]: "no_space (a @ b) \<longleftrightarrow> no_space a \<and> no_space b"
  by (auto simp: no_space_def)

lemma no_space_Cons [simp]: "no_space (c # s) \<longleftrightarrow> \<not> c_space c \<and> no_space s"
  by (simp add: no_space_def)

lemma no_space_Nil [simp]: "no_space []"
  by (simp add: no_space_def)

lemma not_space_chars [simp]: "\<not> c_space CHR ''e''" "\<not> c_space CHR ''c''" "\<not> c_space CHR ''f''"
  "\<not> c_space CHR ''/''" "\<not> c_space CHR ''-''" "\<not> c_space CHR ''=''" "\<not> c_space CHR '';''"
  "\<not> c_space CHR ''I''" "\<not> c_space CHR ''O''" "\<not> c_space CHR ''R''"
  by (simp_all add: c_space_def)

lemma word_no_space: "word t \<longleftrightarrow> t \<noteq> [] \<and> no_space t"
  by (simp add: word_def no_space_def)

lemma proxy_key_facts:
  assumes "proxy_key_ok k"
  shows "name_ok (proxy_key k) \<and> no_space (proxy_key k)"
proof -
  obtain chan name oid where k: "k = (chan, name, oid)" by (metis prod_cases3)
  then show ?thesis using assms
    by (auto simp: proxy_key_def proxy_key_ok_def name_ok_def word_no_space)
qed

lemma words_single: "word t \<Longrightarrow> text_words (t @ CHR '' '' # s) = t # text_words s"
  by (rule text_words_word) simp_all

lemma words_end: "text_words (CHR '' '' # '';;'' @ nl @ s) = '';;'' # text_words s"
proof -
  have "text_words ('';;'' @ CHR 0x0A # s) = '';;'' # text_words s"
    by (rule text_words_word) (simp_all add: word_def)
  then show ?thesis by (simp add: nl_def)
qed

lemma proxy_enter_words:
  assumes "proxy_key_ok k" and "proxy_val_ok v"
  shows "text_words (proxy_enter k v @ s) = rec_tokens (AddRec (proxy_key k) (proxy_attrs v)) @ text_words s"
proof -
  have w1: "word (proxy_key k)" using proxy_key_facts [OF assms(1)] by (simp add: name_ok_def)
  have w2: "word (''IOR='' @ fst v)" using assms(2) by (simp add: word_no_space proxy_val_ok_def)
  have w3: "word ''proxy=1''" by (simp add: word_def c_space_def)
  show ?thesis
    using words_single [OF w1, of "''IOR='' @ fst v @ '' '' @ s'" for s'] words_single [OF w2]
      words_single [OF w3] words_end [of s]
    by (cases "snd v") (simp_all add: proxy_enter_def ior_text_def proxy_attrs_def attr_token_def)
qed

interpretation pj: journal_entry proxy_key proxy_enter proxy_leave proxy_attrs proxy_key_ok proxy_val_ok
proof (unfold_locales, goal_cases)
  case (1 v)
  then show ?case by (simp add: proxy_attrs_def smap_ok_def)
next
  case (2 k v)
  then show ?case using proxy_key_facts [OF 2(1)]
    by (auto simp: proxy_attrs_def attr_ok_def proxy_val_ok_def no_space_def c_space_def)
next
  case (3 k)
  then show ?case using proxy_key_facts by (auto simp: no_space_def)
next
  case (4 k v s)
  then show ?case by (rule proxy_enter_words)
next
  case (5 k v)
  then show ?case by (simp add: proxy_enter_def nl_def)
next
  case (6 k)
  then show ?case by (simp add: proxy_leave_def)
qed

section \<open>Facts for the proxies\<close>

lemma keyOutput_world [simp]:
  "snd (keyOutput E P a name w) = orb_call (PoaServantToId (pr_name P) a) w"
  by (auto simp: keyOutput_def Let_def split: sum.splits)

lemma keyOutput_ok:
  assumes "env_servant_to_id E (w_trace w) (pr_name P) a = Inr oid" and "\<not> env_bad_oid E oid"
  shows "keyOutput E P a name w =
    ((proxy_key (pr_parent P, name, oid), None), orb_call (PoaServantToId (pr_name P) a) w)"
  using assms by (simp add: keyOutput_def proxy_key_def Let_def)

lemma basicOutput_ior_ok:
  assumes "env_servant_to_id E (w_trace w) (pr_name P) a = Inr oid" and "\<not> env_bad_oid E oid"
  shows "basicOutput_ior E P a name ior (if f then Some '' proxy=1'' else None) w =
    ((proxy_enter (pr_parent P, name, oid) (ior, f), None), orb_call (PoaServantToId (pr_name P) a) w)"
  using keyOutput_ok [OF assms] by (simp add: basicOutput_ior_def proxy_enter_def)

lemma basicOutput_ok:
  assumes "env_servant_to_id E (w_trace w) (pr_name P) a = Inr oid" and "\<not> env_bad_oid E oid"
  shows "basicOutput E P a name (Some t) None w =
    ((proxy_enter (pr_parent P, name, oid) (env_object_to_string E t, False), None),
     orb_call (PoaServantToId (pr_name P) a) w)"
  using keyOutput_ok [OF assms] by (simp add: basicOutput_def proxy_enter_def)

lemma eraseKey_ok:
  assumes "env_servant_to_id E (w_trace w) (pr_name P) a = Inr oid" and "\<not> env_bad_oid E oid"
    and "w_log w = Some t"
  shows "eraseKey E P a name w =
    (None, (orb_call (PoaServantToId (pr_name P) a) w)
       \<lparr>w_log := Some (t @ proxy_leave (pr_parent P, name, oid)), w_checkpoint := True\<rparr>)"
  using assms keyOutput_ok [OF assms(1,2)] by (simp add: eraseKey_def log_output_def proxy_leave_def)

lemma eraseKey_deferred [simp]: "w_deferred (snd (eraseKey E P a name w)) = w_deferred w"
  by (auto simp: eraseKey_def log_output_def keyOutput_def Let_def split: option.splits sum.splits)

lemma eraseKey_refs [simp]: "w_refs (snd (eraseKey E P a name w)) = w_refs w"
  by (auto simp: eraseKey_def log_output_def keyOutput_def Let_def split: option.splits sum.splits)

lemma eraseKey_sent [simp]: "sent (w_trace (snd (eraseKey E P a name w))) = sent (w_trace w)"
  by (auto simp: eraseKey_def log_output_def keyOutput_def Let_def split: option.splits sum.splits)

lemma eraseKey_shutdown [simp]: "w_shutdown (snd (eraseKey E P a name w)) = w_shutdown w"
  by (auto simp: eraseKey_def log_output_def keyOutput_def Let_def split: option.splits sum.splits)

lemma close_proxy_simps [simp]:
  "w_deferred (snd (close_proxy E P a name w)) = w_deferred w"
  "w_refs (snd (close_proxy E P a name w)) = w_refs w"
  "sent (w_trace (snd (close_proxy E P a name w))) = sent (w_trace w)"
  "w_log (snd (close_proxy E P a name w)) = w_log (snd (eraseKey E P a name w))"
  by (simp_all add: close_proxy_def then_do_cases)

text \<open>What the environment has to answer for a servant that is active under an object id.\<close>

definition poa_knows :: "env \<Rightarrow> poaref \<Rightarrow> addr \<Rightarrow> string \<Rightarrow> bool" where
  "poa_knows E P a oid \<longleftrightarrow> \<not> env_bad_oid E oid \<and>
     (\<forall>tr. env_servant_to_id E tr (pr_name P) a = Inr oid \<and> env_deactivate E tr (pr_name P) oid = None)"

lemma poa_knowsD:
  assumes "poa_knows E P a oid"
  shows "env_servant_to_id E tr (pr_name P) a = Inr oid" "\<not> env_bad_oid E oid"
    "env_deactivate E tr (pr_name P) oid = None"
  using assms by (auto simp: poa_knows_def)

lemma close_proxy_ok:
  assumes "poa_knows E P a oid" and "w_log w = Some t"
  shows "fst (close_proxy E P a name w) = None \<and>
    w_log (snd (close_proxy E P a name w)) = Some (t @ proxy_leave (pr_parent P, name, oid))"
  using eraseKey_ok [OF poa_knowsD(1,2) [OF assms(1)] assms(2), of name] poa_knowsD [OF assms(1)]
  by (simp add: close_proxy_def deactivateObject_def Let_def)

lemma close_proxy_returns:
  assumes "poa_knows E P a oid"
  shows "fst (close_proxy E P a name w) = None"
proof (cases "w_log w")
  case None
  then show ?thesis using poa_knowsD [OF assms]
    by (simp add: close_proxy_def eraseKey_def deactivateObject_def Let_def)
qed (use close_proxy_ok [OF assms] in blast)

lemma lookup_graft_other: "k \<noteq> hd p \<Longrightarrow> p \<noteq> [] \<Longrightarrow> lookup_path (k # ks) (graft p n T) = lookup_path (k # ks) T"
  by (cases p; cases T) (simp_all add: child_def map_of_smap_set)

lemma split_slash_hd: "c \<noteq> CHR ''/'' \<Longrightarrow> hd (hd (split_slash (c # cs))) = c \<and> hd (split_slash (c # cs)) \<noteq> []"
  by (auto split: list.splits)

lemma proxy_key_split: "\<exists>ks. split_slash (proxy_key k) = ''ecf'' # ks"
  by (cases k) (auto simp: proxy_key_def split: list.splits)

text \<open>A connection record behind a stray minus: a deletion and a node named after the IOR.\<close>

lemma parse_stray_minus:
  assumes "proxy_key_ok k" and "proxy_val_ok v"
  shows "lookup_path (split_slash (proxy_key k)) (parse_text (''-'' @ proxy_enter k v)) = None"
proof -
  let ?as = "if snd v then [(''proxy'', ''1'')] else []"
  let ?T = "apply_rec (DelRec (proxy_key k)) pn_empty"
  have key: "word (proxy_key k)" "no_space (proxy_key k)"
    using proxy_key_facts [OF assms(1)] by (auto simp: name_ok_def)
  have w1: "word (CHR ''-'' # proxy_key k)" using key by (simp add: word_no_space)
  have w2: "word (''IOR='' @ fst v)" using assms(2) by (simp add: word_no_space proxy_val_ok_def)
  have w3: "word ''proxy=1''" by (simp add: word_def c_space_def)
  have words: "text_words (''-'' @ proxy_enter k v) =
      concat (map rec_tokens [DelRec (proxy_key k), AddRec (''IOR='' @ fst v) ?as])"
    using words_single [OF w1, of "''IOR='' @ fst v @ '' '' @ s'" for s'] words_single [OF w2]
      words_single [OF w3] words_end [of "[]"]
    by (cases "snd v") (simp_all add: proxy_enter_def ior_text_def attr_token_def)
  have ok: "\<forall>r \<in> set [DelRec (proxy_key k), AddRec (''IOR='' @ fst v) ?as]. rec_ok r"
    using key(2) w2 by (auto simp: no_space_def name_ok_def attr_ok_def c_space_def)
  have sp: "ends_space (''-'' @ proxy_enter k v)"
    by (simp add: ends_space_def proxy_enter_def nl_def)
  have "parse_text (''-'' @ proxy_enter k v) = apply_rec (AddRec (''IOR='' @ fst v) ?as) ?T"
    using parse_text_replay [OF sp ok words] by simp
  also have "\<dots> = graft (split_slash (''IOR='' @ fst v)) (PersistNode ?as []) ?T"
    by (rule apply_AddRec) (simp add: smap_ok_def)
  finally have p: "parse_text (''-'' @ proxy_enter k v) = \<dots>" .
  have ne: "''ecf'' \<noteq> hd (split_slash (''IOR='' @ fst v))"
  proof
    assume "''ecf'' = hd (split_slash (''IOR='' @ fst v))"
    then have "hd (hd (split_slash (CHR ''I'' # ''OR='' @ fst v))) = CHR ''e''" by (metis append_Cons list.sel(1))
    then show False using split_slash_hd [of "CHR ''I''" "''OR='' @ fst v"] by (simp del: split_slash.simps)
  qed
  have "lookup_path (split_slash (proxy_key k)) (parse_text (''-'' @ proxy_enter k v)) =
      lookup_path (split_slash (proxy_key k)) ?T"
    using lookup_graft_other [OF ne split_slash_not_Nil] proxy_key_split [of k]
    by (metis p)
  also have "\<dots> = None" by (simp add: delnode_def lookup_delnode_path)
  finally show ?thesis .
qed

text \<open>
  C10. A stray minus in the journal: when the POA reports that the servant is not active,
  \<^verbatim>\<open>eraseKey\<close> has already written the minus sign, writes neither key nor newline, and throws; so
  the record written next, here the connection of another proxy, is read as a deletion and the
  connection it records is not in the parsed state.
\<close>

theorem erase_inactive_corrupts_journal:
  assumes "env_servant_to_id E (w_trace w) (pr_name P) a = Inl ServantNotActive"
    and "w_log w = Some []" and "proxy_key_ok k" and "proxy_val_ok v"
  shows "fst (eraseKey E P a name w) = Some ServantNotActive \<and>
    w_log (snd (eraseKey E P a name w)) = Some ''-'' \<and>
    lookup_path (split_slash (proxy_key k))
      (parse_text (the (w_log (snd (eraseKey E P a name w))) @ proxy_enter k v)) = None"
proof -
  have e: "eraseKey E P a name w = (Some ServantNotActive,
      (orb_call (PoaServantToId (pr_name P) a) w)\<lparr>w_log := Some ''-'', w_checkpoint := True\<rparr>)"
    using assms(1,2) by (simp add: eraseKey_def keyOutput_def log_output_def Let_def)
  then show ?thesis using parse_stray_minus [OF assms(3,4)] by simp
qed

theorem erase_inactive_corrupts_journal_witness:
  "let E = idle_env\<lparr>env_servant_to_id := (\<lambda>_ _ _. Inl ServantNotActive)\<rparr>;
       w = init_world True; P = \<lparr>pr_name = ''c.x'', pr_parent = ''c''\<rparr>
   in w_log (snd (eraseKey E P 7 ''ConsumerAdmin/ProxyPushSupplier'' w)) = Some ''-'' \<and>
      lookup_path (split_slash (proxy_key (''c'', ''n'', ''o'')))
        (parse_text (''-'' @ proxy_enter (''c'', ''n'', ''o'') (''i'', False))) = None"
proof -
  let ?E = "idle_env\<lparr>env_servant_to_id := (\<lambda>_ _ _. Inl ServantNotActive)\<rparr>"
  let ?P = "\<lparr>pr_name = ''c.x'', pr_parent = ''c''\<rparr>"
  let ?k = "(''c'', ''n'', ''o'')"
  have a: "env_servant_to_id ?E (w_trace (init_world True)) (pr_name ?P) 7 = Inl ServantNotActive" by simp
  have b: "w_log (init_world True) = Some []" by (simp add: init_world_def)
  have c: "proxy_key_ok ?k" "proxy_val_ok (''i'', False)"
    by (simp_all add: proxy_key_ok_def proxy_val_ok_def c_space_def)
  note h = erase_inactive_corrupts_journal [OF a b c, of "''ConsumerAdmin/ProxyPushSupplier''"]
  from h have w: "w_log (snd (eraseKey ?E ?P 7 ''ConsumerAdmin/ProxyPushSupplier'' (init_world True))) = Some ''-''"
    by blast
  from h have "lookup_path (split_slash (proxy_key ?k)) (parse_text (''-'' @ proxy_enter ?k (''i'', False))) = None"
    unfolding w by (simp only: option.sel)
  with w show ?thesis by (simp add: Let_def)
qed

end
