(* ===== verification/Proxy_Push_Supplier.thy ===== *)
theory Proxy_Push_Supplier
  imports Event_Queue Proxy_Manager "HOL-Library.Sublist"
begin

text \<open>
  \<^verbatim>\<open>ProxyPushSupplier.h\<close> and \<^verbatim>\<open>ProxyPushSupplier.cc\<close>: the proxy that pushes the events of the
  channel to a connected \<^verbatim>\<open>PushConsumer\<close>, one outstanding request at a time, and the manager
  whose thread triggers the proxies in turn. The theorems say that a consumer gets events of
  the channel in order and without duplicates, that a responsive one gets all of them, what
  happens when it fails, and what a connection leaves in the logfile.
\<close>

record pps =
  pps_reader :: reader
  pps_req :: "request option"
  pps_target :: "objref option"
  pps_sior :: string
  pps_ior :: "objref option"
  pps_isProxy :: bool

abbreviation pps_name :: string where
  "pps_name \<equiv> ''ConsumerAdmin/ProxyPushSupplier''"

definition any_of_string :: "string \<Rightarrow> any" where
  "any_of_string s = Any tk_string [] (VString s)"

definition id_ProxyPushConsumer :: string where
  "id_ProxyPushConsumer = ''IDL:omg.org/CosEventChannelAdmin/ProxyPushConsumer:1.0''"

section \<open>ProxyPushSupplier_i\<close>

definition ProxyPushSupplier_i :: "equeue \<Rightarrow> pps" where
  "ProxyPushSupplier_i q = \<lparr>pps_reader = Reader q, pps_req = None, pps_target = None,
     pps_sior = [], pps_ior = None, pps_isProxy = False\<rparr>"

definition pps_output :: "env \<Rightarrow> poaref \<Rightarrow> addr \<Rightarrow> pps \<Rightarrow> world \<Rightarrow> outres \<times> world" where
  "pps_output E P a p w =
     basicOutput_ior E P a pps_name (pps_sior p) (if pps_isProxy p then Some '' proxy=1'' else None) w"

definition connect_push_consumer :: "env \<Rightarrow> poaref \<Rightarrow> addr \<Rightarrow> objref option \<Rightarrow> pps \<times> world
    \<Rightarrow> exn option \<times> pps \<times> world" where
  "connect_push_consumer E P a pushConsumer pw = (case pw of (p, w) \<Rightarrow>
     (case pushConsumer of
        None \<Rightarrow> (Some BAD_PARAM, p, w)
      | Some c \<Rightarrow>
          if pps_target p \<noteq> None \<or> pps_req p \<noteq> None then (Some AlreadyConnected, p, w)
          else
            (let p1 = p\<lparr>pps_target := Some c, pps_sior := env_object_to_string E c, pps_ior := Some c\<rparr>
             in case send_deferred c ''_is_a'' [any_of_string id_ProxyPushConsumer] w of (r, w1) \<Rightarrow>
                case log_write (pps_output E P a p1) (deferredRequest r (Some a) w1) of (ex, w2) \<Rightarrow>
                  (ex, p1, w2))))"

definition disconnect_push_supplier :: "env \<Rightarrow> poaref \<Rightarrow> addr \<Rightarrow> pps \<times> world \<Rightarrow> exn option \<times> pps \<times> world"
where
  "disconnect_push_supplier E P a pw = (case pw of (p, w) \<Rightarrow>
     (case close_proxy E P a pps_name w of
        (Some e, w1) \<Rightarrow> (Some e, p, w1)
      | (None, w1) \<Rightarrow>
          (case pps_target p of
             None \<Rightarrow> (Some OBJECT_NOT_EXIST, p, w1)
           | Some t \<Rightarrow>
               (case send_deferred t ''disconnect_push_consumer'' [] w1 of (r, w2) \<Rightarrow>
                  (None, p\<lparr>pps_target := None\<rparr>, deferredRequest r None w2)))))"

text \<open>
  The body of the \<^verbatim>\<open>catch(CORBA::Exception&)\<close> clause of \<^verbatim>\<open>trigger\<close>: the connection is closed.
  \<^verbatim>\<open>_req\<close> is reset only when there is a target.
\<close>

definition pps_fail :: "env \<Rightarrow> poaref \<Rightarrow> addr \<Rightarrow> pps \<Rightarrow> world \<Rightarrow> exn option \<times> pps \<times> world" where
  "pps_fail E P a p w =
     (case (case pps_target p of
              None \<Rightarrow> (p, w)
            | Some t \<Rightarrow>
                (case send_deferred t ''disconnect_push_consumer'' [] (orb_call (ReportFailure (pps_sior p)) w)
                 of (r, w1) \<Rightarrow> (p\<lparr>pps_req := None\<rparr>, deferredRequest r None w1))) of (p1, w1) \<Rightarrow>
      case close_proxy E P a pps_name w1 of (ex, w2) \<Rightarrow>
        (ex, p1\<lparr>pps_target := None\<rparr>, w2))"

text \<open>The last two statements of \<^verbatim>\<open>trigger\<close>: push the next event, and report outstanding work.\<close>

definition pps_push :: "equeue \<Rightarrow> bool \<times> bool \<Rightarrow> pps \<Rightarrow> world
    \<Rightarrow> exn option \<times> (bool \<times> bool) \<times> pps \<times> world" where
  "pps_push q bw p w =
     (case (pps_req p, pps_target p) of
        (None, Some t) \<Rightarrow>
          if moreEvents q (pps_reader p)
          then (case nextEvent q (pps_reader p) of
                  (Inr (Some ev), r') \<Rightarrow>
                    (case send_deferred t ''push'' [ev] w of (r, w1) \<Rightarrow>
                       (None, (True, True), p\<lparr>pps_reader := r', pps_req := Some r\<rparr>, w1))
                | (_, r') \<Rightarrow> (Some InvalidAccess, bw, p\<lparr>pps_reader := r'\<rparr>, w))
          else (None, bw, p, w)
      | (None, None) \<Rightarrow> (None, bw, p, w)
      | (Some _, _) \<Rightarrow> (None, (fst bw, True), p, w))"

definition pps_trigger :: "env \<Rightarrow> poaref \<Rightarrow> equeue \<Rightarrow> addr \<Rightarrow> bool \<times> bool \<Rightarrow> pps \<times> world
    \<Rightarrow> exn option \<times> (bool \<times> bool) \<times> pps \<times> world" where
  "pps_trigger E P q a bw pw = (case pw of (p, w) \<Rightarrow>
     (case pps_req p of
        None \<Rightarrow> pps_push q bw p w
      | Some r \<Rightarrow>
          (case poll_response E r w of (rsp, w1) \<Rightarrow>
             (case rsp of
                Pending \<Rightarrow> pps_push q bw p w1
              | Reply _ _ \<Rightarrow> pps_push q (True, snd bw) (p\<lparr>pps_req := None\<rparr>) w1
              | Raised e \<Rightarrow>
                  if e = TIMEOUT then pps_push q (True, snd bw) (p\<lparr>pps_req := None\<rparr>) w1
                  else (case pps_fail E P a p w1 of (ex, p2, w2) \<Rightarrow> (ex, bw, p2, w2))))))"

definition pps_callback :: "env \<Rightarrow> poaref \<Rightarrow> addr \<Rightarrow> any \<Rightarrow> pps \<times> world \<Rightarrow> exn option \<times> pps \<times> world" where
  "pps_callback E P a retval pw = (case pw of (p, w) \<Rightarrow>
     if pps_isProxy p then (None, p, w)
     else (case any_boolean retval of
             Some True \<Rightarrow>
               (case log_write (pps_output E P a (p\<lparr>pps_isProxy := True\<rparr>)) w of (ex, w1) \<Rightarrow>
                  (ex, p\<lparr>pps_isProxy := True\<rparr>, w1))
           | _ \<Rightarrow> (None, p\<lparr>pps_isProxy := False\<rparr>, w)))"

text \<open>
  \<^verbatim>\<open>reincarnate\<close>. The try block may be left by an exception at any call; five of them are
  swallowed. The reconnection to a proxy consumer is a remote call.
\<close>

definition pps_swallows :: "exn \<Rightarrow> bool" where
  "pps_swallows e \<longleftrightarrow> e \<in> {AlreadyConnected, TypeError, OBJECT_NOT_EXIST, TRANSIENT, COMM_FAILURE}"

definition pps_try_reincarnate :: "env \<Rightarrow> poaref \<Rightarrow> addr \<Rightarrow> string \<Rightarrow> pnode \<Rightarrow> pps \<times> world
    \<Rightarrow> exn option \<times> pps \<times> world" where
  "pps_try_reincarnate E P a oid node pw = (case pw of (p, w) \<Rightarrow>
     (let ior = attrString ''IOR'' [] node
      in case string_to E ior of
           Inl e \<Rightarrow> (Some e, p, w)
         | Inr c \<Rightarrow>
             (case activateObjectWithId E (pr_name P) oid a w of
                (Some e, w1) \<Rightarrow> (Some e, p, w1)
              | (None, w1) \<Rightarrow>
                  (let w2 = remove_ref a w1;
                       p1 = p\<lparr>pps_target := Some c, pps_isProxy := (attrLong ''proxy'' 0 node \<noteq> 0)\<rparr>
                   in if pps_isProxy p1
                      then (case string_to E ior of
                              Inl e \<Rightarrow> (Some e, p1, w2)
                            | Inr px \<Rightarrow>
                                (env_remote E (w_trace w2) px ''connect_push_supplier'', p1,
                                 orb_call (RemoteCall px ''connect_push_supplier'') w2))
                      else (None, p1, w2)))))"

definition pps_reincarnate :: "env \<Rightarrow> poaref \<Rightarrow> addr \<Rightarrow> string \<Rightarrow> pnode \<Rightarrow> pps \<times> world
    \<Rightarrow> exn option \<times> pps \<times> world" where
  "pps_reincarnate E P a oid node pw = (case pps_try_reincarnate E P a oid node pw of (ex, pw1) \<Rightarrow>
     (case ex of Some e \<Rightarrow> (if pps_swallows e then None else Some e, pw1) | None \<Rightarrow> (None, pw1)))"

section \<open>ProxyPushSupplierManager\<close>

record pps_mgr = "pps manager" +
  pm_refCount :: int
  pm_sleep :: uint64

text \<open>
  What a turn of the thread's loop ends with: another turn at once, a timed wait, a wait for
  a signal, or the end of the thread.
\<close>

datatype turn = Again | TimedWait uint64 | Block | Ended

definition sleepTimeNanosec0 :: uint64 where "sleepTimeNanosec0 = 0x8000"
definition maxSleepNanosec :: uint64 where "maxSleepNanosec = 0x800000"

definition ProxyPushSupplierManager :: "poaref \<Rightarrow> pps_mgr" where
  "ProxyPushSupplierManager P =
     \<lparr>mg_servants = [], mg_poa = P, pm_refCount = 1, pm_sleep = sleepTimeNanosec0\<rparr>"

definition pps_incarnate :: "env \<Rightarrow> equeue \<Rightarrow> pps_mgr \<times> world \<Rightarrow> (exn + addr) \<times> pps_mgr \<times> world" where
  "pps_incarnate E q mw = (case mw of (m, w) \<Rightarrow>
     (let a = env_alloc E (w_trace w)
      in (Inr a, mg_insert a (ProxyPushSupplier_i q) m, add_ref a w)))"

text \<open>
  \<^verbatim>\<open>etherealize\<close> drops a reference instead of deleting: the destructor runs when the deferred
  requests that name the servant as callback have been dealt with.
\<close>

definition pps_etherealize :: "addr \<Rightarrow> pps_mgr \<times> world \<Rightarrow> pps_mgr \<times> world" where
  "pps_etherealize a mw = (case mw of (m, w) \<Rightarrow>
     (case map_of (mg_servants m) a of
        None \<Rightarrow> (m, w)
      | Some p \<Rightarrow>
          (let w1 = remove_ref a w
           in (m\<lparr>mg_servants := smap_erase a (mg_servants m)\<rparr>,
               if w_refs w1 a \<le> 0 then proxy_destroy (pps_req p) w1 else w1))))"

definition pps_mgr_reincarnate :: "env \<Rightarrow> equeue \<Rightarrow> pnode \<Rightarrow> pps_mgr \<times> world
    \<Rightarrow> exn option \<times> pps_mgr \<times> world" where
  "pps_mgr_reincarnate E q node =
     mg_reincarnate (pps_incarnate E q)
       (\<lambda>a oid child mw. mg_at a (pps_reincarnate E (mg_poa (fst mw)) a oid child) mw)
       (mg_etherealize pps_req) (pn_child node)"

definition pps_createObject :: "env \<Rightarrow> pps_mgr \<Rightarrow> world \<Rightarrow> (exn + objref) \<times> world" where
  "pps_createObject E m w = createReference E (pr_name (mg_poa m)) w"

text \<open>\<^verbatim>\<open>disconnect\<close> sends a request through the POA to every servant.\<close>

fun pps_disconnect_all :: "env \<Rightarrow> (addr, pps) smap \<Rightarrow> world \<Rightarrow> exn option \<times> world" where
  "pps_disconnect_all E [] w = (None, w)"
| "pps_disconnect_all E ((a, p) # ps) w =
     (let obj = env_this E (w_trace w) a;
          w1 = orb_call (RemoteCall obj ''disconnect_push_supplier'') w
      in case env_remote E (w_trace w) obj ''disconnect_push_supplier'' of
           Some e \<Rightarrow> (Some e, w1)
         | None \<Rightarrow> pps_disconnect_all E ps w1)"

fun trigger_all :: "(addr \<Rightarrow> bool \<times> bool \<Rightarrow> 'p \<times> world \<Rightarrow> exn option \<times> (bool \<times> bool) \<times> 'p \<times> world)
    \<Rightarrow> (addr, 'p) smap \<Rightarrow> bool \<times> bool \<Rightarrow> world \<Rightarrow> exn option \<times> (bool \<times> bool) \<times> (addr, 'p) smap \<times> world" where
  "trigger_all trig [] bw w = (None, bw, [], w)"
| "trigger_all trig ((a, p) # ps) bw w =
     (case trig a bw (p, w) of
        (Some e, bw1, p1, w1) \<Rightarrow> (Some e, bw1, (a, p1) # ps, w1)
      | (None, bw1, p1, w1) \<Rightarrow>
          (case trigger_all trig ps bw1 w1 of (ex, bw2, ps2, w2) \<Rightarrow> (ex, bw2, (a, p1) # ps2, w2)))"

text \<open>
  One turn of the loop in \<^verbatim>\<open>run_undetached\<close>. CORBA exceptions of a servant are ignored and end
  the turn; anything else ends the thread.
\<close>

definition pps_turn :: "env \<Rightarrow> equeue \<Rightarrow> pps_mgr \<times> world \<Rightarrow> turn \<times> pps_mgr \<times> world" where
  "pps_turn E q mw = (case mw of (m, w) \<Rightarrow>
     if pm_refCount m < 1 then (Ended, m, w)
     else
       (case trigger_all (pps_trigger E (mg_poa m) q) (mg_servants m) (False, False) w of
          (ex, (busy, waiting), ps, w1) \<Rightarrow>
            (let m1 = m\<lparr>mg_servants := ps\<rparr>
             in case ex of
                  Some e \<Rightarrow> (if is_fatal e then Ended else Again, m1, w1)
                | None \<Rightarrow>
                    if busy then (Again, m1\<lparr>pm_sleep := sleepTimeNanosec0\<rparr>, w1)
                    else if waiting then
                      (let s = (if pm_sleep m < maxSleepNanosec then push_bit 1 (pm_sleep m)
                                else pm_sleep m)
                       in (TimedWait s, m1\<lparr>pm_sleep := s\<rparr>, orb_call GetTime w1))
                    else (Block, m1, w1))))"

definition pps_mgr_add_ref :: "pps_mgr \<Rightarrow> pps_mgr" where
  "pps_mgr_add_ref m = m\<lparr>pm_refCount := pm_refCount m + 1\<rparr>"

text \<open>\<^verbatim>\<open>_remove_ref\<close> wakes the thread and joins it when the count reaches zero.\<close>

definition pps_mgr_remove_ref :: "addr \<Rightarrow> pps_mgr \<times> world \<Rightarrow> pps_mgr \<times> world" where
  "pps_mgr_remove_ref self mw = (case mw of (m, w) \<Rightarrow>
     (let m1 = m\<lparr>pm_refCount := pm_refCount m - 1\<rparr>
      in (m1, if pm_refCount m1 = 0 then orb_call (Join self) w else w)))"

section \<open>Order of the pushes\<close>

definition pushes :: "call list \<Rightarrow> any list" where
  "pushes cs = concat (map req_args (filter (\<lambda>r. req_op r = ''push'') (sent cs)))"

lemma pushes_append [simp]: "pushes (xs @ ys) = pushes xs @ pushes ys"
  by (simp add: pushes_def)

lemma pushes_Nil [simp]: "pushes [] = []"
  by (simp add: pushes_def)

lemma pushes_Cons [simp]:
  "pushes (c # cs) = (case c of SendDeferred r \<Rightarrow> if req_op r = ''push'' then req_args r else [] | _ \<Rightarrow> []) @ pushes cs"
  by (cases c) (simp_all add: pushes_def)

lemma pushes_same: "sent cs = sent cs' \<Longrightarrow> pushes cs = pushes cs'"
  by (simp add: pushes_def)

lemma close_proxy_pushes [simp]: "pushes (w_trace (snd (close_proxy E P a name w))) = pushes (w_trace w)"
  by (rule pushes_same) simp

lemma pps_fail_cases:
  "pps_fail E P a p w = (case pps_target p of
     None \<Rightarrow> (fst (close_proxy E P a pps_name w), p, snd (close_proxy E P a pps_name w))
   | Some t \<Rightarrow>
       (let w1 = deferredRequest (Request (Suc (length (w_trace w))) t ''disconnect_push_consumer'' []) None
                   (snd (send_deferred t ''disconnect_push_consumer'' [] (orb_call (ReportFailure (pps_sior p)) w)))
        in (fst (close_proxy E P a pps_name w1), p\<lparr>pps_req := None, pps_target := None\<rparr>,
            snd (close_proxy E P a pps_name w1))))"
  by (cases "pps_target p") (simp_all add: pps_fail_def send_deferred_def Let_def split: prod.splits)

lemma pps_fail_effect:
  assumes "pps_fail E P a p w = (ex, p', w')"
  shows "pps_reader p' = pps_reader p \<and> pushes (w_trace w') = pushes (w_trace w) \<and> pps_target p' = None"
  using assms by (auto simp: pps_fail_cases Let_def split: option.splits)

text \<open>
  One trigger either leaves the reader alone and pushes nothing, or reads one event, at the
  position the buffer has left it, and pushes that.
\<close>

definition one_push :: "equeue \<Rightarrow> any list \<Rightarrow> nat \<Rightarrow> pps \<Rightarrow> call list \<Rightarrow> pps \<Rightarrow> call list \<Rightarrow> bool" where
  "one_push q H pos p tr p' tr' \<longleftrightarrow>
     (\<exists>k \<ge> pos. k < length H \<and> (length H < pos + eq_cap q \<longrightarrow> k = pos) \<and>
        pushes tr' = pushes tr @ [H ! k] \<and> rd_at q H (pps_reader p') (Suc k))"

definition no_push :: "pps \<Rightarrow> call list \<Rightarrow> pps \<Rightarrow> call list \<Rightarrow> bool" where
  "no_push p tr p' tr' \<longleftrightarrow> pps_reader p' = pps_reader p \<and> pushes tr' = pushes tr"

lemma pps_push_effect:
  assumes "eq_rep q H" and "rd_at q H (pps_reader p) pos"
    and "pps_push q bw p w = (ex, bw', p', w')"
  shows "ex = None \<and> (no_push p (w_trace w) p' (w_trace w') \<or>
    pps_req p = None \<and> pps_target p \<noteq> None \<and> pps_req p' \<noteq> None \<and>
    one_push q H pos p (w_trace w) p' (w_trace w'))"
proof (cases "pps_req p = None \<and> pps_target p \<noteq> None \<and> moreEvents q (pps_reader p)")
  case True
  define k where "k = pos + eq_cap q * ((length H - pos) div eq_cap q)"
  have at': "rd_at q H (pps_reader p) k" and b: "length H < k + eq_cap q"
    using eqr.skip_laps [OF assms(1,2)] by (simp_all add: k_def)
  have k: "k < length H" using eqr.has_iff [OF assms(1) at' b] True by simp
  then obtain r' where nx: "nextEvent q (pps_reader p) = (Inr (Some (H ! k)), r')" "rd_at q H r' (Suc k)"
    using eqr.next_at [OF assms(1) at' b] by (metis prod.collapse)
  have "k = pos" if "length H < pos + eq_cap q"
  proof -
    have "length H - pos < eq_cap q" using that assms(2) by (auto simp: rd_at_def)
    then show ?thesis by (simp add: k_def)
  qed
  moreover have "pos \<le> k" by (simp add: k_def)
  ultimately have "one_push q H pos p (w_trace w) p' (w_trace w')" using assms(3) True nx k
    by (auto simp: pps_push_def one_push_def send_deferred_def Let_def intro!: exI [of _ k])
  then show ?thesis using assms(3) True nx(1)
    by (auto simp: pps_push_def send_deferred_def Let_def)
next
  case False
  then show ?thesis using assms(3)
    by (auto simp: pps_push_def no_push_def split: option.splits if_splits)
qed

lemma pps_trigger_effect:
  assumes "eq_rep q H" and "rd_at q H (pps_reader p) pos"
    and "pps_trigger E P q a bw (p, w) = (ex, bw', p', w')"
  shows "no_push p (w_trace w) p' (w_trace w') \<or>
    one_push q H pos p (w_trace w) p' (w_trace w') \<and>
    (\<forall>r. pps_req p = Some r \<longrightarrow> env_poll E (w_trace w) r \<noteq> Pending)"
proof (cases "pps_req p")
  case None
  then have "pps_push q bw p w = (ex, bw', p', w')" using assms(3) by (simp add: pps_trigger_def)
  from pps_push_effect [OF assms(1,2) this] None show ?thesis by auto
next
  case (Some r)
  let ?w1 = "orb_call (PollResponse r) w"
  have np: "no_push p (w_trace ?w1) = no_push p (w_trace w)"
    "one_push q H pos (p\<lparr>pps_req := None\<rparr>) (w_trace ?w1) = one_push q H pos p (w_trace w)"
    "no_push (p\<lparr>pps_req := None\<rparr>) (w_trace ?w1) = no_push p (w_trace w)"
    by (simp_all add: no_push_def one_push_def fun_eq_iff)
  have cleared: "no_push p (w_trace w) p' (w_trace w') \<or> one_push q H pos p (w_trace w) p' (w_trace w')"
    if "pps_push q bw0 (p\<lparr>pps_req := None\<rparr>) ?w1 = (ex, bw', p', w')" for bw0
    using pps_push_effect [OF assms(1) _ that, of pos] assms(2) np by auto
  show ?thesis
  proof (cases "env_poll E (w_trace w) r")
    case Pending
    then have "pps_push q bw p ?w1 = (ex, bw', p', w')"
      using assms(3) Some by (simp add: pps_trigger_def poll_response_def)
    from pps_push_effect [OF assms(1,2) this] Some np show ?thesis by simp
  next
    case (Reply v as)
    then show ?thesis using cleared assms(3) Some by (auto simp: pps_trigger_def poll_response_def)
  next
    case (Raised e)
    then show ?thesis using cleared assms(3) Some
      by (auto simp: pps_trigger_def poll_response_def no_push_def split: if_splits prod.splits
          dest!: pps_fail_effect)
  qed
qed

section \<open>Runs of a proxy beside its queue\<close>

datatype pstep = PAppend any | PTrigger

fun run_pps :: "env \<Rightarrow> poaref \<Rightarrow> addr \<Rightarrow> pstep list \<Rightarrow> equeue \<times> pps \<times> world \<Rightarrow> equeue \<times> pps \<times> world" where
  "run_pps E P a [] s = s"
| "run_pps E P a (PAppend e # ss) (q, p, w) =
     (case eq_append q e of Inl _ \<Rightarrow> (q, p, w) | Inr (_, q') \<Rightarrow> run_pps E P a ss (q', p, w))"
| "run_pps E P a (PTrigger # ss) (q, p, w) =
     (case pps_trigger E P q a (False, False) (p, w) of (_, _, p', w') \<Rightarrow> run_pps E P a ss (q, p', w'))"

lemma subseq_drop_Cons:
  assumes "subseq xs (drop (Suc k) H)" and "pos \<le> k" and "k < length H"
  shows "subseq (H ! k # xs) (drop pos H)"
proof -
  have "drop pos H = take (k - pos) (drop pos H) @ H ! k # drop (Suc k) H"
    using assms(2,3) by (metis Cons_nth_drop_Suc append_take_drop_id drop_drop le_add_diff_inverse2)
  then show ?thesis using assms(1) by (metis subseq_drop_many subseq_Cons2)
qed



text \<open>A consumer that answers every request without an exception.\<close>

definition responsive :: "env \<Rightarrow> bool" where
  "responsive E \<longleftrightarrow> (\<forall>tr r. \<exists>v as. env_poll E tr r = Reply v as)"

definition delivered :: "equeue \<Rightarrow> any list \<Rightarrow> nat \<Rightarrow> reader \<Rightarrow> call list \<Rightarrow> reader \<Rightarrow> call list \<Rightarrow> bool" where
  "delivered q H pos r tr r' tr' \<longleftrightarrow>
     (if pos < length H then pushes tr' = pushes tr @ [H ! pos] \<and> rd_at q H r' (Suc pos)
      else pushes tr' = pushes tr \<and> r' = r)"

lemma responsive_trigger:
  assumes "responsive E" and "eq_rep q H" and "rd_at q H (pps_reader p) pos" and "length H < pos + eq_cap q"
    and "pps_target p = Some t"
  shows "\<exists>bw' p' w'. pps_trigger E P q a bw (p, w) = (None, bw', p', w') \<and> pps_target p' = Some t \<and>
    delivered q H pos (pps_reader p) (w_trace w) (pps_reader p') (w_trace w')"
proof -
  have m: "moreEvents q (pps_reader p) \<longleftrightarrow> pos < length H" by (rule eqr.has_iff [OF assms(2-4)])
  have push: "\<exists>bw' p' w'. pps_push q bw0 (p\<lparr>pps_req := None\<rparr>) w0 = (None, bw', p', w') \<and> pps_target p' = Some t \<and>
    delivered q H pos (pps_reader p) (w_trace w0) (pps_reader p') (w_trace w')" for bw0 w0
  proof (cases "pos < length H")
    case True
    then obtain r' where "nextEvent q (pps_reader p) = (Inr (Some (H ! pos)), r')" "rd_at q H r' (Suc pos)"
      using eqr.next_at [OF assms(2-4)] by (metis prod.collapse)
    then show ?thesis using True m assms(5)
      by (auto simp: pps_push_def send_deferred_def Let_def delivered_def)
  next
    case False
    then show ?thesis using m assms(5) by (auto simp: pps_push_def delivered_def)
  qed
  show ?thesis
  proof (cases "pps_req p")
    case None
    then have "p\<lparr>pps_req := None\<rparr> = p" by simp
    with push [of bw w] None show ?thesis by (auto simp: pps_trigger_def)
  next
    case (Some r)
    obtain v as where "env_poll E (w_trace w) r = Reply v as" using assms(1) by (meson responsive_def)
    then have "pps_trigger E P q a bw (p, w) =
        pps_push q (True, snd bw) (p\<lparr>pps_req := None\<rparr>) (orb_call (PollResponse r) w)"
      using Some by (simp add: pps_trigger_def poll_response_def)
    moreover have "delivered q H pos rd (w_trace (orb_call (PollResponse r) w)) = delivered q H pos rd (w_trace w)"
      for rd by (simp add: delivered_def fun_eq_iff)
    ultimately show ?thesis using push [of "(True, snd bw)" "orb_call (PollResponse r) w"] by simp
  qed
qed

lemma triggers_send_backlog:
  assumes "responsive E" and "eq_rep q H" and "rd_at q H (pps_reader p) pos" and "length H < pos + eq_cap q"
    and "pps_target p = Some t"
  shows "pushes (w_trace (snd (snd (run_pps E P a (replicate n PTrigger) (q, p, w))))) =
    pushes (w_trace w) @ take n (drop pos H)"
  using assms(3-)
proof (induction n arbitrary: p pos w)
  case (Suc n)
  from responsive_trigger [OF assms(1,2) Suc.prems(1-3), of P a "(False, False)" w]
  obtain bw' p' w' where t: "pps_trigger E P q a (False, False) (p, w) = (None, bw', p', w')"
      "pps_target p' = Some t"
    and e: "delivered q H pos (pps_reader p) (w_trace w) (pps_reader p') (w_trace w')" by blast
  show ?case
  proof (cases "pos < length H")
    case True
    then have "drop pos H = H ! pos # drop (Suc pos) H" by (simp add: Cons_nth_drop_Suc)
    with True e t Suc.IH [of p' "Suc pos" w'] Suc.prems show ?thesis by (simp add: delivered_def)
  next
    case False
    with e t Suc.IH [of p' pos w'] Suc.prems show ?thesis by (simp add: delivered_def)
  qed
qed simp

text \<open>
  C3. Progress of delivery: a connected consumer that answers its requests, and that is less
  than one buffer length behind, is sent by \<open>n\<close> triggers exactly the next \<open>n\<close> events of its
  backlog, in order, one by one; \<open>n\<close> as long as the backlog gives all of it.
\<close>

theorem pps_delivers_backlog:
  assumes "responsive E" and "eq_rep q H" and "rd_at q H (pps_reader p) pos" and "length H < pos + eq_cap q"
    and "pps_target p = Some t"
  shows "pushes (w_trace (snd (snd (run_pps E P a (replicate n PTrigger) (q, p, w))))) =
    pushes (w_trace w) @ take n (drop pos H)"
  using assms by (rule triggers_send_backlog)

theorem pps_delivers_backlog_witness:
  "\<exists>q d q'. EventQueue 2 = Inr q \<and> eq_append q empty_any = Inr (d, q') \<and>
     pushes (w_trace (snd (snd (run_pps (idle_env\<lparr>env_poll := \<lambda>_ _. Reply empty_any []\<rparr>)
       \<lparr>pr_name = ''c.x'', pr_parent = ''c''\<rparr> 7 (replicate 5 PTrigger)
       (q', (ProxyPushSupplier_i q)\<lparr>pps_target := Some 1\<rparr>, init_world True))))) = [empty_any]"
proof -
  let ?E = "idle_env\<lparr>env_poll := \<lambda>_ _. Reply empty_any []\<rparr>"
  obtain q where q: "EventQueue 2 = Inr q" by (simp add: EventQueue_def)
  have rep: "eq_rep q []" and cap: "eq_cap q = 3" using EventQueue_rep [OF q] by auto
  have f: "eq_filter q = None" using q by (auto simp: EventQueue_def)
  have "any_kind empty_any \<noteq> np_tk_indirect" by (simp add: empty_any_def)
  from eq_append_total [OF rep this] obtain d q' where a: "eq_append q empty_any = Inr (d, q')"
    and rep': "eq_rep q' [empty_any]" and cap': "eq_cap q' = 3"
    using cap f by (auto simp: kept_by_def)
  have at0: "rd_at q' [empty_any] (pps_reader ((ProxyPushSupplier_i q)\<lparr>pps_target := Some 1\<rparr>)) 0"
    using Reader_at [OF rep] cap cap' by (simp add: rd_at_def ProxyPushSupplier_i_def)
  have r: "responsive ?E" by (simp add: responsive_def)
  have "pushes (w_trace (init_world True)) = []" by (simp add: init_world_def)
  with pps_delivers_backlog [OF r rep' at0, of 1 _ 7 5 "init_world True"] cap' q a show ?thesis by auto
qed

section \<open>Connections and the logfile\<close>

lemma log_write_ok:
  assumes "w_log w = Some t" and "out w = ((txt, None), w1)" and "w_log w1 = w_log w"
  shows "log_write out w = (None, w1\<lparr>w_log := Some (t @ txt), w_checkpoint := True\<rparr>)"
  using assms by (simp add: log_write_def log_output_def)

lemma pps_output_ok:
  assumes "poa_knows E P a oid"
  shows "pps_output E P a p w =
    ((proxy_enter (pr_parent P, pps_name, oid) (pps_sior p, pps_isProxy p), None),
     orb_call (PoaServantToId (pr_name P) a) w)"
  unfolding pps_output_def by (rule basicOutput_ior_ok [OF poa_knowsD(1,2) [OF assms]])

lemma pps_name_no_space: "no_space pps_name"
  by (simp add: c_space_def)

text \<open>
  C6. Connecting: a first connection to a non-nil consumer stores the target, asks it once
  whether it is itself a proxy, with the servant registered for the answer, and leaves in the
  logfile, behind whatever records it holds, a record that reads back as the IOR of the
  target under the proxy's key. Connecting again is refused and changes nothing.
\<close>

theorem pps_connect_recorded:
  assumes "poa_knows E P a oid" and "pps_target p = None" and "pps_req p = None" and "\<not> pps_isProxy p"
    and "proxy_key_ok (pr_parent P, pps_name, oid)" and "no_space (env_object_to_string E c)"
    and "\<forall>r \<in> set rs. rec_ok r" and "w_log w = Some (concat (map rec_text rs))" and "\<not> w_shutdown w"
  shows "\<exists>p' w' txt r. connect_push_consumer E P a (Some c) (p, w) = (None, p', w') \<and>
    pps_target p' = Some c \<and> w_log w' = Some txt \<and>
    sent (w_trace w') = sent (w_trace w) @ [r] \<and> req_op r = ''_is_a'' \<and> req_target r = c \<and>
    w_deferred w' = w_deferred w @ [(r, Some a)] \<and>
    lookup_path (split_slash (proxy_key (pr_parent P, pps_name, oid))) (parse_text txt) =
      Some (PersistNode [(''IOR'', env_object_to_string E c)] []) \<and>
    connect_push_consumer E P a (Some c') (p', w') = (Some AlreadyConnected, p', w')"
proof -
  let ?k = "(pr_parent P, pps_name, oid)" and ?v = "(env_object_to_string E c, False)"
  let ?r = "Request (length (w_trace w)) c ''_is_a'' [any_of_string id_ProxyPushConsumer]"
  let ?p = "p\<lparr>pps_target := Some c, pps_sior := env_object_to_string E c, pps_ior := Some c\<rparr>"
  let ?w1 = "deferredRequest ?r (Some a) (orb_call (SendDeferred ?r) w)"
  let ?txt = "concat (map rec_text rs) @ proxy_enter ?k ?v"
  have "log_write (pps_output E P a ?p) ?w1 =
      (None, (orb_call (PoaServantToId (pr_name P) a) ?w1)\<lparr>w_log := Some ?txt, w_checkpoint := True\<rparr>)"
    using pps_output_ok [OF assms(1), of ?p ?w1] assms(4,8) by (intro log_write_ok) simp_all
  then have "connect_push_consumer E P a (Some c) (p, w) = (None, ?p,
      (orb_call (PoaServantToId (pr_name P) a) ?w1)\<lparr>w_log := Some ?txt, w_checkpoint := True\<rparr>)"
    using assms(2,3) by (simp add: connect_push_consumer_def send_deferred_def Let_def)
  moreover have "lookup_path (split_slash (proxy_key ?k)) (parse_text ?txt) =
      Some (PersistNode [(''IOR'', env_object_to_string E c)] [])"
    using pj.journal_found [OF assms(5), of ?v rs] assms(6,7)
    by (simp add: proxy_val_ok_def proxy_attrs_def)
  ultimately show ?thesis using assms(9) by (auto simp: connect_push_consumer_def)
qed

theorem pps_connect_recorded_witness:
  "let E = idle_env; P = \<lparr>pr_name = ''c.x'', pr_parent = ''c''\<rparr>; w = init_world True;
       p = \<lparr>pps_reader = \<lparr>rd_next = 0\<rparr>, pps_req = None, pps_target = None, pps_sior = [],
             pps_ior = None, pps_isProxy = False\<rparr>
   in \<exists>p' w' txt. connect_push_consumer E P 7 (Some 3) (p, w) = (None, p', w') \<and>
        w_log w' = Some txt \<and>
        lookup_path (split_slash (proxy_key (''c'', pps_name, ''7''))) (parse_text txt) =
          Some (PersistNode [(''IOR'', ''xxx'')] [])"
proof -
  let ?P = "\<lparr>pr_name = ''c.x'', pr_parent = ''c''\<rparr>"
  let ?p = "\<lparr>pps_reader = \<lparr>rd_next = 0\<rparr>, pps_req = None, pps_target = None, pps_sior = [],
             pps_ior = None, pps_isProxy = False\<rparr>"
  have k: "poa_knows idle_env ?P 7 ''7''"
    by (simp add: poa_knows_def idle_env_def) code_simp
  have x: "env_object_to_string idle_env 3 = ''xxx''" by (simp add: idle_env_def numeral_3_eq_3)
  have ok: "proxy_key_ok (pr_parent ?P, pps_name, ''7'')" "no_space (env_object_to_string idle_env 3)"
    by (simp_all add: proxy_key_ok_def c_space_def x)
  have w: "w_log (init_world True) = Some (concat (map rec_text []))" "\<not> w_shutdown (init_world True)"
    by (simp_all add: init_world_def)
  from pps_connect_recorded [OF k _ _ _ ok _ w, of ?p]
  show ?thesis by (simp add: x Let_def) metis
qed

text \<open>
  C7. A consumer that fails: when the outstanding push has raised a system or user exception
  other than \<open>TIMEOUT\<close>, the trigger pushes nothing, sends the consumer one
  \<^verbatim>\<open>disconnect_push_consumer\<close>, forgets target and request, and the connection is gone from the
  logfile. After a \<open>TIMEOUT\<close> the connection stays, and the trigger goes on as if the push had
  succeeded: the event is not pushed again.
\<close>

theorem pps_failure_closes:
  assumes "poa_knows E P a oid" and "pps_target p = Some t" and "pps_req p = Some r"
    and "env_poll E (w_trace w) r = Raised e" and "proxy_key_ok (pr_parent P, pps_name, oid)"
    and "\<forall>r \<in> set rs. rec_ok r" and "w_log w = Some (concat (map rec_text rs))"
  shows "if e = TIMEOUT
    then pps_trigger E P q a bw (p, w) =
      pps_push q (True, snd bw) (p\<lparr>pps_req := None\<rparr>) (orb_call (PollResponse r) w)
    else \<exists>w' txt d. pps_trigger E P q a bw (p, w) =
        (None, bw, p\<lparr>pps_req := None, pps_target := None\<rparr>, w') \<and>
      sent (w_trace w') = sent (w_trace w) @ [d] \<and> req_op d = ''disconnect_push_consumer'' \<and>
      req_target d = t \<and> w_deferred w' = w_deferred w @ [(d, None)] \<and> w_log w' = Some txt \<and>
      lookup_path (split_slash (proxy_key (pr_parent P, pps_name, oid))) (parse_text txt) = None"
proof (cases "e = TIMEOUT")
  case True
  then show ?thesis using assms by (simp add: pps_trigger_def poll_response_def)
next
  case False
  let ?w0 = "orb_call (ReportFailure (pps_sior p)) (orb_call (PollResponse r) w)"
  let ?d = "Request (length (w_trace ?w0)) t ''disconnect_push_consumer'' []"
  let ?w1 = "deferredRequest ?d None (snd (send_deferred t ''disconnect_push_consumer'' [] ?w0))"
  let ?c = "close_proxy E P a pps_name ?w1"
  have "w_log ?w1 = Some (concat (map rec_text rs))" using assms(7) by simp
  note c = close_proxy_ok [OF assms(1) this, of pps_name]
  have "pps_trigger E P q a bw (p, w) = (None, bw, p\<lparr>pps_req := None, pps_target := None\<rparr>, snd ?c)"
    using assms(2-4) False c by (simp add: pps_trigger_def poll_response_def pps_fail_cases Let_def)
  moreover have "lookup_path (split_slash (proxy_key (pr_parent P, pps_name, oid)))
      (parse_text (concat (map rec_text rs) @ proxy_leave (pr_parent P, pps_name, oid))) = None"
    by (rule pj.journal_leave [OF assms(5,6)])
  moreover have "sent (w_trace (snd ?c)) = sent (w_trace w) @ [?d]" by simp
  moreover have "w_deferred (snd ?c) = w_deferred w @ [(?d, None)]" by simp
  ultimately show ?thesis using False c by auto
qed

theorem pps_failure_closes_witness:
  "let E = idle_env\<lparr>env_poll := \<lambda>_ _. Raised COMM_FAILURE\<rparr>; P = \<lparr>pr_name = ''c.x'', pr_parent = ''c''\<rparr>;
       p = \<lparr>pps_reader = \<lparr>rd_next = 0\<rparr>, pps_req = Some (Request 0 3 ''push'' []), pps_target = Some 3,
             pps_sior = ''xxx'', pps_ior = Some 3, pps_isProxy = False\<rparr>
   in \<exists>w' txt. pps_trigger E P undefined 7 (False, False) (p, init_world True) =
        (None, (False, False), p\<lparr>pps_req := None, pps_target := None\<rparr>, w') \<and> w_log w' = Some txt \<and>
        lookup_path (split_slash (proxy_key (''c'', pps_name, ''7''))) (parse_text txt) = None"
proof -
  let ?E = "idle_env\<lparr>env_poll := \<lambda>_ _. Raised COMM_FAILURE\<rparr>"
  let ?P = "\<lparr>pr_name = ''c.x'', pr_parent = ''c''\<rparr>"
  let ?p = "\<lparr>pps_reader = \<lparr>rd_next = 0\<rparr>, pps_req = Some (Request 0 3 ''push'' []), pps_target = Some 3,
             pps_sior = ''xxx'', pps_ior = Some 3, pps_isProxy = False\<rparr>"
  have k: "poa_knows ?E ?P 7 ''7''" by (simp add: poa_knows_def idle_env_def) code_simp
  have ok: "proxy_key_ok (pr_parent ?P, pps_name, ''7'')" by (simp add: proxy_key_ok_def c_space_def)
  have w: "w_log (init_world True) = Some (concat (map rec_text []))" by (simp add: init_world_def)
  have "env_poll ?E (w_trace (init_world True)) (Request 0 3 ''push'' []) = Raised COMM_FAILURE" by simp
  from pps_failure_closes [OF k _ _ this ok _ w, of ?p 3 undefined "(False, False)"]
  show ?thesis by (simp add: Let_def) metis
qed

text \<open>
  C8. A connection survives one restart: the record written by a proxy for the consumer \<open>c\<close>,
  read back as a node and given to \<^verbatim>\<open>reincarnate\<close> on a new servant, connects that servant to \<open>c\<close>
  again, with the same federation flag. But it does not survive the second one: a
  reincarnated servant does not know the IOR string of its target, and what it writes reads
  back as an empty IOR, which \<^verbatim>\<open>reincarnate\<close> refuses.
\<close>

theorem pps_restart:
  assumes "env_string_to_object E (pps_sior p) = Inr (Some c)" and "string_to E [] = Inl BAD_PARAM"
    and "\<forall>tr. env_activate E tr (pr_name P) oid b = None" and "\<forall>tr. env_remote E tr c ''connect_push_supplier'' = None"
    and "poa_knows E P a oid" and "poa_knows E P b oid"
    and "proxy_key_ok (pr_parent P, pps_name, oid)" and "no_space (pps_sior p)"
  shows "\<exists>node p' w' node'.
    lookup_path (split_slash (proxy_key (pr_parent P, pps_name, oid)))
      (parse_text (fst (fst (pps_output E P a p w)))) = Some node \<and>
    pps_reincarnate E P b oid node (ProxyPushSupplier_i q, v) = (None, p', w') \<and>
    pps_target p' = Some c \<and> pps_isProxy p' = pps_isProxy p \<and>
    lookup_path (split_slash (proxy_key (pr_parent P, pps_name, oid)))
      (parse_text (fst (fst (pps_output E P b p' w')))) = Some node' \<and>
    pps_reincarnate E P b oid node' (ProxyPushSupplier_i q, v) = (Some BAD_PARAM, ProxyPushSupplier_i q, v)"
proof -
  let ?k = "(pr_parent P, pps_name, oid)"
  let ?path = "split_slash (proxy_key ?k)"
  define f where "f = pps_isProxy p"
  have rd: "lookup_path ?path (parse_text (proxy_enter ?k (x, g))) = Some (PersistNode (proxy_attrs (x, g)) [])"
    if "no_space x" for x g
    using pj.journal_found [OF assms(7), of "(x, g)" "[]"] that by (simp add: proxy_val_ok_def)
  have st: "attrString ''IOR'' [] (PersistNode (proxy_attrs (x, g)) []) = x" for x g
    by (simp add: attrString_def proxy_attrs_def)
  have pr: "(attrLong ''proxy'' 0 (PersistNode (proxy_attrs (x, g)) []) \<noteq> 0) = g" for x g
  proof -
    have "c_atol ''1'' = 1" by code_simp
    then show ?thesis by (simp add: attrLong_def proxy_attrs_def)
  qed
  define p' where "p' = (ProxyPushSupplier_i q)\<lparr>pps_target := Some c, pps_isProxy := f\<rparr>"
  have "\<exists>w'. pps_reincarnate E P b oid (PersistNode (proxy_attrs (pps_sior p, f)) [])
      (ProxyPushSupplier_i q, v) = (None, p', w')"
    using assms(1,3,4) by (simp add: pps_reincarnate_def pps_try_reincarnate_def string_to_def st pr p'_def
        activateObjectWithId_def Let_def)
  then obtain w' where w': "pps_reincarnate E P b oid (PersistNode (proxy_attrs (pps_sior p, f)) [])
      (ProxyPushSupplier_i q, v) = (None, p', w')" by blast
  have "pps_sior p' = []" by (simp add: p'_def ProxyPushSupplier_i_def)
  then have "lookup_path ?path (parse_text (fst (fst (pps_output E P b p' w')))) =
      Some (PersistNode (proxy_attrs ([], f)) [])"
    using rd [of "[]" f] by (simp add: pps_output_ok [OF assms(6)] p'_def)
  moreover have "pps_reincarnate E P b oid (PersistNode (proxy_attrs ([], f)) []) (ProxyPushSupplier_i q, v)
      = (Some BAD_PARAM, ProxyPushSupplier_i q, v)"
    using assms(2) by (simp add: pps_reincarnate_def pps_try_reincarnate_def string_to_def st pps_swallows_def)
  moreover have "lookup_path ?path (parse_text (fst (fst (pps_output E P a p w)))) =
      Some (PersistNode (proxy_attrs (pps_sior p, f)) [])"
    using rd [OF assms(8)] by (simp add: pps_output_ok [OF assms(5)] f_def)
  ultimately show ?thesis using w' by (auto simp: p'_def f_def)
qed

theorem pps_restart_witness:
  "let E = idle_env\<lparr>env_string_to_object := \<lambda>s. if s = [] then Inl BAD_PARAM else Inr (Some 3),
                    env_servant_to_id := \<lambda>_ _ _. Inr ''o''\<rparr>;
       P = \<lparr>pr_name = ''c.x'', pr_parent = ''c''\<rparr>; new = \<lparr>pps_reader = \<lparr>rd_next = 0\<rparr>, pps_req = None,
         pps_target = None, pps_sior = [], pps_ior = None, pps_isProxy = False\<rparr>;
       p = new\<lparr>pps_target := Some 3, pps_sior := ''xxx'', pps_isProxy := True\<rparr>;
       q = \<lparr>eq_next = 0, eq_size = 2, eq_queue = [None, None], eq_filter = None\<rparr>
   in \<exists>node p' w'. lookup_path (split_slash (proxy_key (''c'', pps_name, ''o'')))
        (parse_text (fst (fst (pps_output E P 7 p (init_world True))))) = Some node \<and>
      pps_reincarnate E P 8 ''o'' node (ProxyPushSupplier_i q, init_world True) = (None, p', w') \<and>
      pps_target p' = Some 3 \<and> pps_isProxy p'"
proof -
  let ?E = "idle_env\<lparr>env_string_to_object := \<lambda>s. if s = [] then Inl BAD_PARAM else Inr (Some 3),
                    env_servant_to_id := \<lambda>_ _ _. Inr ''o''\<rparr>"
  let ?P = "\<lparr>pr_name = ''c.x'', pr_parent = ''c''\<rparr>"
  let ?p = "\<lparr>pps_reader = \<lparr>rd_next = 0\<rparr>, pps_req = None,
         pps_target = Some 3, pps_sior = ''xxx'', pps_ior = None, pps_isProxy = True\<rparr>"
  have k: "poa_knows ?E ?P x ''o''" for x by (simp add: poa_knows_def idle_env_def)
  have ok: "proxy_key_ok (pr_parent ?P, pps_name, ''o'')" "no_space (pps_sior ?p)"
    by (simp_all add: proxy_key_ok_def c_space_def)
  have s: "env_string_to_object ?E (pps_sior ?p) = Inr (Some 3)" "string_to ?E [] = Inl BAD_PARAM"
    by (simp_all add: string_to_def)
  have act: "\<forall>tr. env_activate ?E tr (pr_name ?P) ''o'' 8 = None"
    "\<forall>tr. env_remote ?E tr 3 ''connect_push_supplier'' = None" by (simp_all add: idle_env_def)
  from pps_restart [OF s act k k ok]
  show ?thesis by (simp add: Let_def) metis
qed

section \<open>The thread of the manager\<close>

text \<open>The sleep time is the initial one, doubled at most eight times.\<close>

definition sleep_ok :: "uint64 \<Rightarrow> bool" where
  "sleep_ok s \<longleftrightarrow> s \<in> set (map (\<lambda>k. push_bit k sleepTimeNanosec0) [0..<9])"

definition pps_idle :: "equeue \<Rightarrow> pps \<Rightarrow> bool" where
  "pps_idle q p \<longleftrightarrow> pps_target p = None \<or> pps_req p = None \<and> \<not> moreEvents q (pps_reader p)"

lemma sleep_ok_double:
  assumes "sleep_ok s" and "s < maxSleepNanosec"
  shows "sleep_ok (push_bit 1 s) \<and> 2 * sleepTimeNanosec0 \<le> push_bit 1 s \<and> push_bit 1 s \<le> maxSleepNanosec"
  using assms unfolding sleep_ok_def by (auto simp: sleepTimeNanosec0_def maxSleepNanosec_def upt_rec)

lemma sleep_ok_max: "sleep_ok s \<Longrightarrow> \<not> s < maxSleepNanosec \<Longrightarrow> s = maxSleepNanosec"
  unfolding sleep_ok_def by (auto simp: sleepTimeNanosec0_def maxSleepNanosec_def upt_rec)

lemma pps_push_idle:
  assumes "pps_push q bw p w = (None, (b, wt), p', w')"
  shows "(fst bw \<longrightarrow> b) \<and> (snd bw \<longrightarrow> wt) \<and> (\<not> wt \<longrightarrow> pps_idle q p')"
  using assms by (auto simp: pps_push_def pps_idle_def split: option.splits if_splits prod.splits sum.splits)

lemma pps_trigger_idle:
  assumes "pps_trigger E P q a bw (p, w) = (None, (b, wt), p', w')"
  shows "(fst bw \<longrightarrow> b) \<and> (snd bw \<longrightarrow> wt) \<and> (\<not> wt \<longrightarrow> pps_idle q p')"
proof (cases "pps_req p")
  case None
  then show ?thesis using assms pps_push_idle [of q bw p w] by (simp add: pps_trigger_def)
next
  case (Some r)
  let ?w1 = "orb_call (PollResponse r) w"
  show ?thesis
  proof (cases "env_poll E (w_trace w) r")
    case Pending
    then show ?thesis using assms Some pps_push_idle [of q bw p ?w1]
      by (simp add: pps_trigger_def poll_response_def)
  next
    case (Reply v as)
    then show ?thesis using assms Some pps_push_idle [of q "(True, snd bw)" "p\<lparr>pps_req := None\<rparr>" ?w1]
      by (auto simp: pps_trigger_def poll_response_def)
  next
    case (Raised e)
    show ?thesis
    proof (cases "e = TIMEOUT")
      case True
      then show ?thesis using assms Some Raised pps_push_idle [of q "(True, snd bw)" "p\<lparr>pps_req := None\<rparr>" ?w1]
        by (simp add: pps_trigger_def poll_response_def)
    next
      case False
      then have "pps_fail E P a p ?w1 = (None, p', w')" and "bw = (b, wt)"
        using assms Some Raised by (simp_all add: pps_trigger_def poll_response_def split: prod.splits)
      from pps_fail_effect [OF this(1)] this(2) show ?thesis by (simp add: pps_idle_def)
    qed
  qed
qed

lemma trigger_all_keys: "map fst (fst (snd (snd (trigger_all trig ps bw w)))) = map fst ps"
  by (induction trig ps bw w rule: trigger_all.induct) (auto split: prod.splits option.splits)

lemma trigger_all_idle:
  assumes "trigger_all (pps_trigger E P q) ps bw w = (None, (b, wt), ps', w')"
  shows "(fst bw \<longrightarrow> b) \<and> (snd bw \<longrightarrow> wt) \<and> (\<not> wt \<longrightarrow> (\<forall>ap \<in> set ps'. pps_idle q (snd ap)))"
  using assms
proof (induction ps arbitrary: bw w ps')
  case (Cons ap ps)
  obtain a p where ap: "ap = (a, p)" by force
  obtain ex bw1 p1 w1 where t0: "pps_trigger E P q a bw (p, w) = (ex, bw1, p1, w1)"
    by (metis prod_cases4)
  obtain b1 wt1 where "bw1 = (b1, wt1)" by force
  with t0 have t: "pps_trigger E P q a bw (p, w) = (ex, (b1, wt1), p1, w1)" by simp
  have ex: "ex = None" using Cons.prems ap t by (auto split: option.splits prod.splits)
  obtain ps2 where rest: "trigger_all (pps_trigger E P q) ps (b1, wt1) w1 = (None, (b, wt), ps2, w')"
    and ps': "ps' = (a, p1) # ps2" using Cons.prems ap t ex by (auto split: prod.splits)
  from pps_trigger_idle [OF t [unfolded ex]] Cons.IH [OF rest] show ?case by (auto simp: ps' ap)
qed auto

text \<open>
  C9. When the thread sleeps. A turn waits for a signal only if no connected servant has a
  request outstanding or an event to push, so a response is never left waiting for the next
  event; it waits with a timeout only between twice the initial sleep time and the maximum of
  8.4 ms; and the sleep time stays one of the nine powers in between, so doubling never
  overflows it. The servants themselves stay the same ones.
\<close>

theorem pps_turn_sleep:
  assumes "sleep_ok (pm_sleep m)" and "pps_turn E q (m, w) = (res, m', w')"
  shows "sleep_ok (pm_sleep m') \<and> map fst (mg_servants m') = map fst (mg_servants m) \<and>
    (case res of
       Block \<Rightarrow> (\<forall>ap \<in> set (mg_servants m'). pps_idle q (snd ap))
     | TimedWait s \<Rightarrow> 2 * sleepTimeNanosec0 \<le> s \<and> s \<le> maxSleepNanosec
     | Ended \<Rightarrow> True
     | Again \<Rightarrow> 1 \<le> pm_refCount m)"
proof -
  obtain ex bw ps w1
    where t0: "trigger_all (pps_trigger E (mg_poa m) q) (mg_servants m) (False, False) w = (ex, bw, ps, w1)"
    by (metis prod_cases4)
  obtain b wt where bw: "bw = (b, wt)" by force
  have keys: "map fst ps = map fst (mg_servants m)"
    using trigger_all_keys [of "pps_trigger E (mg_poa m) q" "mg_servants m" "(False, False)" w] t0 by simp
  have zero: "sleep_ok sleepTimeNanosec0" by (simp add: sleep_ok_def upt_rec sleepTimeNanosec0_def)
  have mx: "2 * sleepTimeNanosec0 \<le> maxSleepNanosec"
    by (simp add: sleepTimeNanosec0_def maxSleepNanosec_def)
  show ?thesis
  proof (cases "pm_refCount m < 1")
    case True
    then show ?thesis using assms by (auto simp: pps_turn_def)
  next
    case False
    show ?thesis
    proof (cases ex)
      case (Some e)
      then show ?thesis using assms False t0 bw keys by (auto simp: pps_turn_def Let_def)
    next
      case None
      have idle: "\<not> wt \<longrightarrow> (\<forall>ap \<in> set ps. pps_idle q (snd ap))"
        using trigger_all_idle t0 None bw by blast
      have "res = (if b then Again else if wt then TimedWait (if pm_sleep m < maxSleepNanosec
              then push_bit 1 (pm_sleep m) else pm_sleep m) else Block)"
        and "pm_sleep m' = (if b then sleepTimeNanosec0 else if wt then
          (if pm_sleep m < maxSleepNanosec then push_bit 1 (pm_sleep m) else pm_sleep m) else pm_sleep m)"
        and "mg_servants m' = ps"
        using assms(2) False t0 bw None by (auto simp: pps_turn_def Let_def split: if_splits)
      then show ?thesis
        using idle keys zero mx False assms(1) sleep_ok_double [OF assms(1)] sleep_ok_max [OF assms(1)]
        by (cases "pm_sleep m < maxSleepNanosec") auto
    qed
  qed
qed

theorem pps_turn_sleep_witness:
  "let m = ProxyPushSupplierManager \<lparr>pr_name = ''c.x'', pr_parent = ''c''\<rparr>;
       q = \<lparr>eq_next = 0, eq_size = 2, eq_queue = [None, None], eq_filter = None\<rparr>
   in sleep_ok (pm_sleep m) \<and> fst (pps_turn idle_env q (m, init_world True)) = Block \<and>
      sleep_ok (pm_sleep (fst (snd (pps_turn idle_env q (m, init_world True)))))"
proof -
  let ?m = "ProxyPushSupplierManager \<lparr>pr_name = ''c.x'', pr_parent = ''c''\<rparr>"
  let ?q = "\<lparr>eq_next = 0, eq_size = 2, eq_queue = [None, None], eq_filter = None\<rparr>"
  have s: "sleep_ok (pm_sleep ?m)"
    by (simp add: sleep_ok_def upt_rec sleepTimeNanosec0_def ProxyPushSupplierManager_def)
  have t: "pps_turn idle_env ?q (?m, init_world True) = (Block, ?m, init_world True)"
    by (simp add: pps_turn_def ProxyPushSupplierManager_def)
  from pps_turn_sleep [OF s t] s t show ?thesis by (simp add: Let_def)
qed

end
