(* ===== verification/Proxy_Pull_Supplier.thy ===== *)
theory Proxy_Pull_Supplier
  imports Event_Queue Proxy_Manager
begin

text \<open>
  \<^verbatim>\<open>ProxyPullSupplier.h\<close> and \<^verbatim>\<open>ProxyPullSupplier.cc\<close>: the proxy from which a consumer pulls the
  events of the channel, and its manager, which evicts the proxy that was contacted least
  recently when the channel's maximum number of proxies is reached.
\<close>

record pls =
  pls_reader :: reader
  pls_req :: "request option"
  pls_target :: "objref option"
  pls_connected :: bool
  pls_timestamp :: nat

abbreviation pls_name :: string where
  "pls_name \<equiv> ''ConsumerAdmin/ProxyPullSupplier''"

section \<open>ProxyPullSupplier_i\<close>

definition pls_touch :: "env \<Rightarrow> pls \<times> world \<Rightarrow> pls \<times> world" where
  "pls_touch E pw = (case pw of (p, w) \<Rightarrow>
     (p\<lparr>pls_timestamp := fst (env_time E (w_trace w))\<rparr>, orb_call GetTime w))"

definition ProxyPullSupplier_i :: "env \<Rightarrow> equeue \<Rightarrow> world \<Rightarrow> pls \<times> world" where
  "ProxyPullSupplier_i E q w = pls_touch E
     (\<lparr>pls_reader = Reader q, pls_req = None, pls_target = None, pls_connected = False,
       pls_timestamp = 0\<rparr>, w)"

definition pls_output :: "env \<Rightarrow> poaref \<Rightarrow> addr \<Rightarrow> pls \<Rightarrow> world \<Rightarrow> outres \<times> world" where
  "pls_output E P a p w = basicOutput E P a pls_name (pls_target p) None w"

definition connect_pull_consumer :: "env \<Rightarrow> poaref \<Rightarrow> addr \<Rightarrow> objref option \<Rightarrow> pls \<times> world
    \<Rightarrow> exn option \<times> pls \<times> world" where
  "connect_pull_consumer E P a pullConsumer pw = (case pw of (p, w) \<Rightarrow>
     if pls_connected p \<or> pls_target p \<noteq> None \<or> pls_req p \<noteq> None then (Some AlreadyConnected, p, w)
     else
       (case pls_touch E (p, w) of (p1, w1) \<Rightarrow>
          (let p2 = p1\<lparr>pls_connected := True,
                       pls_target := (case pullConsumer of None \<Rightarrow> pls_target p1 | Some c \<Rightarrow> Some c)\<rparr>
           in case log_write (pls_output E P a p2) w1 of (ex, w2) \<Rightarrow> (ex, p2, w2))))"

definition disconnect_pull_supplier :: "env \<Rightarrow> poaref \<Rightarrow> addr \<Rightarrow> pls \<times> world \<Rightarrow> exn option \<times> pls \<times> world"
where
  "disconnect_pull_supplier E P a pw = (case pls_touch E pw of (p, w) \<Rightarrow>
     (case close_proxy E P a pls_name w of
        (Some e, w1) \<Rightarrow> (Some e, p, w1)
      | (None, w1) \<Rightarrow>
          if \<not> pls_connected p then (Some OBJECT_NOT_EXIST, p, w1)
          else (case pls_target p of
                  None \<Rightarrow> (None, p, w1)
                | Some t \<Rightarrow>
                    (case send_deferred t ''disconnect_pull_consumer'' [] w1 of (r, w2) \<Rightarrow>
                       (None, p\<lparr>pls_target := None\<rparr>, deferredRequest r None w2)))))"

text \<open>\<^verbatim>\<open>*nextEvent()\<close>: the slot is read through its pointer.\<close>

definition read_event :: "equeue \<Rightarrow> pls \<Rightarrow> (exn + any) \<times> pls" where
  "read_event q p = (case nextEvent q (pls_reader p) of
      (Inl e, r) \<Rightarrow> (Inl e, p\<lparr>pls_reader := r\<rparr>)
    | (Inr None, r) \<Rightarrow> (Inl InvalidAccess, p\<lparr>pls_reader := r\<rparr>)
    | (Inr (Some ev), r) \<Rightarrow> (Inr ev, p\<lparr>pls_reader := r\<rparr>))"

definition pull :: "env \<Rightarrow> equeue \<Rightarrow> pls \<times> world \<Rightarrow> (exn + any) \<times> pls \<times> world" where
  "pull E q pw =
     (if \<not> pls_connected (fst pw) then (Inl Disconnected, pw)
      else case pls_touch E pw of (p, w) \<Rightarrow>
        if moreEvents q (pls_reader p)
        then (case read_event q p of (res, p1) \<Rightarrow> (res, p1, w))
        else (Inl TRANSIENT, p, w))"

definition try_pull :: "env \<Rightarrow> equeue \<Rightarrow> pls \<times> world \<Rightarrow> (exn + bool \<times> any) \<times> pls \<times> world" where
  "try_pull E q pw =
     (if \<not> pls_connected (fst pw) then (Inl Disconnected, pw)
      else case pls_touch E pw of (p, w) \<Rightarrow>
        if moreEvents q (pls_reader p)
        then (case read_event q p of (res, p1) \<Rightarrow> (map_sum id (Pair True) res, p1, w))
        else (Inr (False, empty_any), p, w))"

definition pls_reincarnate :: "env \<Rightarrow> poaref \<Rightarrow> addr \<Rightarrow> string \<Rightarrow> pnode \<Rightarrow> pls \<times> world
    \<Rightarrow> exn option \<times> pls \<times> world" where
  "pls_reincarnate E P a oid node pw = (case pw of (p, w) \<Rightarrow>
     (case string_to E (attrString ''IOR'' [] node) of
        Inl e \<Rightarrow> (Some e, p, w)
      | Inr c \<Rightarrow>
          (case activateObjectWithId E (pr_name P) oid a w of
             (Some e, w1) \<Rightarrow> (Some e, p, w1)
           | (None, w1) \<Rightarrow> connect_pull_consumer E P a (Some c) (p, w1))))"

section \<open>ProxyPullSupplierManager\<close>

type_synonym pls_mgr = "pls manager"

text \<open>The loop that finds the oldest servant: the first one in iteration order on a tie.\<close>

fun find_oldest :: "(addr, pls) smap \<Rightarrow> (addr \<times> nat) option \<Rightarrow> (addr \<times> nat) option" where
  "find_oldest [] best = best"
| "find_oldest ((a, p) # ps) best = find_oldest ps
     (case best of
        None \<Rightarrow> Some (a, pls_timestamp p)
      | Some (b, age) \<Rightarrow> if pls_timestamp p < age then Some (a, pls_timestamp p) else Some (b, age))"

definition pls_evict :: "env \<Rightarrow> pls_mgr \<times> world \<Rightarrow> exn option \<times> pls_mgr \<times> world" where
  "pls_evict E mw = (case find_oldest (mg_servants (fst mw)) None of
      None \<Rightarrow> (Some InvalidAccess, mw)
    | Some (a, _) \<Rightarrow>
        (case mg_at a (disconnect_pull_supplier E (mg_poa (fst mw)) a) mw of (ex, mw1) \<Rightarrow>
           (if ex = Some OBJECT_NOT_EXIST then None else ex, mw1)))"

definition pls_incarnate :: "env \<Rightarrow> nat \<Rightarrow> equeue \<Rightarrow> pls_mgr \<times> world \<Rightarrow> (exn + addr) \<times> pls_mgr \<times> world" where
  "pls_incarnate E maxNumProxies q mw =
     (case (if length (mg_servants (fst mw)) \<ge> maxNumProxies then pls_evict E mw else (None, mw)) of
        (Some e, mw1) \<Rightarrow> (Inl e, mw1)
      | (None, m, w) \<Rightarrow>
          (let a = env_alloc E (w_trace w)
           in case ProxyPullSupplier_i E q w of (p, w1) \<Rightarrow> (Inr a, mg_insert a p m, w1)))"

definition ProxyPullSupplierManager :: "poaref \<Rightarrow> pls_mgr" where
  "ProxyPullSupplierManager P = \<lparr>mg_servants = [], mg_poa = P\<rparr>"

definition pls_createObject :: "env \<Rightarrow> pls_mgr \<Rightarrow> world \<Rightarrow> (exn + objref) \<times> world" where
  "pls_createObject E m w = createReference E (pr_name (mg_poa m)) w"

fun pls_disconnect_all :: "env \<Rightarrow> (addr, pls) smap \<Rightarrow> world \<Rightarrow> exn option \<times> world" where
  "pls_disconnect_all E [] w = (None, w)"
| "pls_disconnect_all E ((a, p) # ps) w =
     (let obj = env_this E (w_trace w) a;
          w1 = orb_call (RemoteCall obj ''disconnect_pull_supplier'') w
      in case env_remote E (w_trace w) obj ''disconnect_pull_supplier'' of
           Some e \<Rightarrow> (Some e, w1)
         | None \<Rightarrow> pls_disconnect_all E ps w1)"

definition pls_mgr_reincarnate :: "env \<Rightarrow> nat \<Rightarrow> equeue \<Rightarrow> pnode \<Rightarrow> pls_mgr \<times> world
    \<Rightarrow> exn option \<times> pls_mgr \<times> world" where
  "pls_mgr_reincarnate E maxNumProxies q node =
     mg_reincarnate (pls_incarnate E maxNumProxies q)
       (\<lambda>a oid child mw. mg_at a (pls_reincarnate E (mg_poa (fst mw)) a oid child) mw)
       (mg_etherealize pls_req) (pn_child node)"

section \<open>Pulling\<close>

lemma read_event_at:
  assumes "eq_rep q H" and "rd_at q H (pls_reader p) pos"
    and "skip_to (eq_cap q) H pos < length H"
  shows "\<exists>r. read_event q p = (Inr (H ! skip_to (eq_cap q) H pos), p\<lparr>pls_reader := r\<rparr>) \<and>
    rd_at q H r (Suc (skip_to (eq_cap q) H pos))"
proof -
  let ?k = "skip_to (eq_cap q) H pos"
  have "rd_at q H (pls_reader p) ?k" "length H < ?k + eq_cap q"
    using eqr.skip_laps [OF assms(1,2)] by (simp_all add: skip_to_def)
  from eqr.next_at [OF assms(1) this assms(3)] obtain r
    where "nextEvent q (pls_reader p) = (Inr (Some (H ! ?k)), r)" "rd_at q H r (Suc ?k)"
    by (metis prod.collapse)
  then show ?thesis by (auto simp: read_event_def)
qed

lemma more_at:
  assumes "eq_rep q H" and "rd_at q H r pos"
  shows "moreEvents q r \<longleftrightarrow> skip_to (eq_cap q) H pos < length H"
  using eqr.skip_laps [OF assms] eqr.has_iff [OF assms(1)] by (auto simp: skip_to_def)

text \<open>
  What a connected consumer pulls. With the reader at a position of the channel's
  history, \<^verbatim>\<open>pull()\<close> and \<^verbatim>\<open>try_pull()\<close> both return the event at that position, or at the
  corresponding one after the buffer has lapped the reader, and step behind it; when there is
  none, \<^verbatim>\<open>pull()\<close> throws \<open>TRANSIENT\<close>, \<^verbatim>\<open>try_pull()\<close> reports that there is no event, and the reader
  stays. A proxy that was never connected refuses both and changes nothing.
\<close>

lemma pull_next_event:
  assumes "eq_rep q H" and "rd_at q H (pls_reader p) pos"
  defines "k \<equiv> skip_to (eq_cap q) H pos"
  shows "(\<not> pls_connected p \<longrightarrow>
       pull E q (p, w) = (Inl Disconnected, p, w) \<and> try_pull E q (p, w) = (Inl Disconnected, p, w)) \<and>
    (pls_connected p \<longrightarrow> k < length H \<longrightarrow> (\<exists>p' w'. rd_at q H (pls_reader p') (Suc k) \<and>
       pull E q (p, w) = (Inr (H ! k), p', w') \<and> try_pull E q (p, w) = (Inr (True, H ! k), p', w'))) \<and>
    (pls_connected p \<longrightarrow> \<not> k < length H \<longrightarrow> (\<exists>p' w'. pls_reader p' = pls_reader p \<and>
       pull E q (p, w) = (Inl TRANSIENT, p', w') \<and> try_pull E q (p, w) = (Inr (False, empty_any), p', w')))"
proof -
  let ?p = "p\<lparr>pls_timestamp := fst (env_time E (w_trace w))\<rparr>"
  have rp: "rd_at q H (pls_reader ?p) pos" using assms(2) by simp
  have m: "moreEvents q (pls_reader p) \<longleftrightarrow> k < length H" using more_at [OF assms(1,2)] by (simp add: k_def)
  have r: "k < length H \<Longrightarrow> \<exists>r. read_event q ?p = (Inr (H ! k), ?p\<lparr>pls_reader := r\<rparr>) \<and> rd_at q H r (Suc k)"
    using read_event_at [OF assms(1) rp] by (simp add: k_def)
  show ?thesis using m r by (auto simp: pull_def try_pull_def pls_touch_def)
qed

section \<open>Eviction\<close>

lemma find_oldest_least:
  assumes "find_oldest ps best = Some (a, t)"
  shows "(best = Some (a, t) \<or> (\<exists>p. (a, p) \<in> set ps \<and> pls_timestamp p = t)) \<and>
    (\<forall>bp \<in> set ps. t \<le> pls_timestamp (snd bp)) \<and> (\<forall>b u. best = Some (b, u) \<longrightarrow> t \<le> u)"
  using assms
proof (induction ps best rule: find_oldest.induct)
  case (2 c p ps best)
  show ?case
  proof (cases best)
    case None
    then show ?thesis using 2 by fastforce
  next
    case (Some bu)
    obtain b u where bu: "bu = (b, u)" by force
    then show ?thesis using 2 Some by (cases "pls_timestamp p < u") fastforce+
  qed
qed simp

lemma find_oldest_Some: "find_oldest ps (Some bu) \<noteq> None"
  by (induction ps arbitrary: bu) (auto split: if_splits)

lemma find_oldest_None: "find_oldest ps None = None \<longleftrightarrow> ps = []"
  by (cases ps) (use find_oldest_Some in auto)

lemma disconnect_pull_supplier_ok:
  assumes "poa_knows E P a oid"
  shows "\<exists>ex p' w'. disconnect_pull_supplier E P a (p, w) = (ex, p', w') \<and>
    (if pls_connected p then ex = None \<and> pls_target p' = None else ex = Some OBJECT_NOT_EXIST \<and> pls_target p' = pls_target p) \<and>
    pls_reader p' = pls_reader p \<and> pls_connected p' = pls_connected p \<and>
    map req_op (sent (w_trace w')) = map req_op (sent (w_trace w)) @
      (if pls_connected p \<and> pls_target p \<noteq> None then [''disconnect_pull_consumer''] else [])"
  using close_proxy_returns [OF assms, of pls_name "orb_call GetTime w"]
    close_proxy_simps(3) [of E P a pls_name "orb_call GetTime w"]
  by (cases "close_proxy E P a pls_name (orb_call GetTime w)"; cases "pls_target p")
     (auto simp: disconnect_pull_supplier_def pls_touch_def send_deferred_def Let_def)

text \<open>
  C16. Making room: when the channel's maximum number of pull proxies is reached, a new
  servant is made all the same, and the one that is disconnected for it is a servant that has
  not been contacted for longest: no other timestamp is smaller. Every other servant keeps
  its state, and the new one is not connected and starts at the end of the queue.
\<close>

theorem pls_evicts_oldest:
  assumes "smap_ok (mg_servants m)" and "mg_servants m \<noteq> []" and "maxNumProxies \<le> length (mg_servants m)"
    and "\<forall>a. \<exists>oid. poa_knows E (mg_poa m) a oid"
  shows "\<exists>a p p' new fresh m' w'. (a, p) \<in> set (mg_servants m) \<and>
    (\<forall>bp \<in> set (mg_servants m). pls_timestamp p \<le> pls_timestamp (snd bp)) \<and>
    pls_incarnate E maxNumProxies q (m, w) = (Inr new, m', w') \<and>
    map_of (mg_servants m') = (map_of (mg_servants m))(a \<mapsto> p', new \<mapsto> fresh) \<and>
    (pls_connected p \<longrightarrow> pls_target p' = None) \<and>
    pls_reader fresh = Reader q \<and> \<not> pls_connected fresh"
proof -
  obtain a t where old: "find_oldest (mg_servants m) None = Some (a, t)"
    using assms(2) find_oldest_None by fastforce
  from find_oldest_least [OF this] obtain p where p: "(a, p) \<in> set (mg_servants m)" "pls_timestamp p = t"
    and least: "\<forall>bp \<in> set (mg_servants m). t \<le> pls_timestamp (snd bp)" by auto
  have look: "map_of (mg_servants m) a = Some p" using smap_ok_map_of [OF assms(1) p(1)] .
  obtain oid where "poa_knows E (mg_poa m) a oid" using assms(4) by blast
  from disconnect_pull_supplier_ok [OF this, of p w] obtain ex p' w1
    where d: "disconnect_pull_supplier E (mg_poa m) a (p, w) = (ex, p', w1)"
      and c: "if pls_connected p then ex = None \<and> pls_target p' = None
              else ex = Some OBJECT_NOT_EXIST \<and> pls_target p' = pls_target p" by blast
  let ?m = "m\<lparr>mg_servants := smap_set a p' (mg_servants m)\<rparr>"
  have "pls_evict E (m, w) = (None, ?m, w1)"
    using old look d c by (auto simp: pls_evict_def mg_at_def split: if_splits)
  then have inc: "pls_incarnate E maxNumProxies q (m, w) =
      (Inr (env_alloc E (w_trace w1)),
       mg_insert (env_alloc E (w_trace w1)) (fst (ProxyPullSupplier_i E q w1)) ?m,
       snd (ProxyPullSupplier_i E q w1))"
    using assms(3) by (simp add: pls_incarnate_def Let_def split: prod.splits)
  have "map_of (mg_servants (mg_insert n f ?m)) = (map_of (mg_servants m))(a \<mapsto> p', n \<mapsto> f)" for n f
    by (simp add: mg_insert_def sm.look_put [OF smap_set_ok [OF assms(1)]] sm.look_put [OF assms(1)])
  moreover have "pls_reader (fst (ProxyPullSupplier_i E q w1)) = Reader q"
    and "\<not> pls_connected (fst (ProxyPullSupplier_i E q w1))"
    by (simp_all add: ProxyPullSupplier_i_def pls_touch_def)
  ultimately show ?thesis using p least inc c by metis
qed

theorem pls_evicts_oldest_witness:
  "let p = \<lparr>pls_reader = \<lparr>rd_next = 0\<rparr>, pls_req = None, pls_target = Some 3, pls_connected = True, pls_timestamp = 9\<rparr>;
       m = \<lparr>mg_servants = [(1, p), (2, p\<lparr>pls_timestamp := 5\<rparr>)], mg_poa = \<lparr>pr_name = ''c.x'', pr_parent = ''c''\<rparr>\<rparr>;
       q = \<lparr>eq_next = 0, eq_size = 2, eq_queue = [None, None], eq_filter = None\<rparr>
   in \<exists>p' new fresh m' w'. pls_incarnate idle_env 2 q (m, init_world True) = (Inr new, m', w') \<and>
        map_of (mg_servants m') = (map_of (mg_servants m))(2 \<mapsto> p', new \<mapsto> fresh) \<and> pls_target p' = None"
proof -
  let ?p = "\<lparr>pls_reader = \<lparr>rd_next = 0\<rparr>, pls_req = None, pls_target = Some 3, pls_connected = True, pls_timestamp = 9\<rparr>"
  let ?m = "\<lparr>mg_servants = [(1, ?p), (2, ?p\<lparr>pls_timestamp := 5\<rparr>)], mg_poa = \<lparr>pr_name = ''c.x'', pr_parent = ''c''\<rparr>\<rparr>"
  let ?q = "\<lparr>eq_next = 0, eq_size = 2, eq_queue = [None, None], eq_filter = None\<rparr>"
  have k: "\<forall>a. \<exists>oid. poa_knows idle_env (mg_poa ?m) a oid"
    by (auto simp: poa_knows_def idle_env_def)
  have ok: "smap_ok (mg_servants ?m)" "mg_servants ?m \<noteq> []" "2 \<le> length (mg_servants ?m)" by simp_all
  from pls_evicts_oldest [OF ok k, of ?q "init_world True"]
  obtain a p p' new fresh m' w' where h: "(a, p) \<in> set (mg_servants ?m)"
      "\<forall>bp \<in> set (mg_servants ?m). pls_timestamp p \<le> pls_timestamp (snd bp)"
      "pls_incarnate idle_env 2 ?q (?m, init_world True) = (Inr new, m', w')"
      "map_of (mg_servants m') = (map_of (mg_servants ?m))(a \<mapsto> p', new \<mapsto> fresh)"
      "pls_connected p \<longrightarrow> pls_target p' = None" by blast
  from h(1,2) have "a = 2" "pls_connected p" by auto
  with h show ?thesis unfolding Let_def by auto
qed

lemma pls_incarnate_no_servant:
  "mg_servants m = [] \<Longrightarrow> pls_incarnate E 0 q (m, w) = (Inl InvalidAccess, m, w)"
  by (simp add: pls_incarnate_def pls_evict_def)

section \<open>Restart\<close>

lemma no_IOR_words:
  assumes "proxy_key_ok k"
  shows "lookup_path (split_slash (proxy_key k)) (parse_text (proxy_key k @ '' ;;'' @ nl)) = Some pn_empty"
proof -
  have w1: "word (proxy_key k)" and n: "name_ok (proxy_key k)"
    using proxy_key_facts [OF assms] by (auto simp: name_ok_def)
  have "text_words (proxy_key k @ '' ;;'' @ nl) = concat (map rec_tokens [AddRec (proxy_key k) []])"
    using words_single [OF w1, of "'';;'' @ nl"] words_end [of "[]"] by simp
  moreover have "ends_space (proxy_key k @ '' ;;'' @ nl)" by (simp add: ends_space_def nl_def)
  moreover have "\<forall>r \<in> set [AddRec (proxy_key k) []]. rec_ok r" using n by simp
  ultimately have "parse_text (proxy_key k @ '' ;;'' @ nl) = fold apply_rec [AddRec (proxy_key k) []] pn_empty"
    by (intro parse_text_replay)
  then show ?thesis using apply_AddRec [of "[]" "proxy_key k" pn_empty]
    by (simp add: lookup_graft pn_empty_def [symmetric] del: apply_rec.simps)
qed

text \<open>
  Pull connections over a restart: what a proxy connected to the consumer \<open>c\<close> writes reads
  back as a node from which \<^verbatim>\<open>reincarnate\<close> connects a new servant to \<open>c\<close>. A consumer that
  connected with a nil reference, which is legal, leaves a node without IOR, and its
  connection is refused with \<open>BAD_PARAM\<close> at the restart.
\<close>

lemma pls_restart:
  assumes "poa_knows E P a oid" and "proxy_key_ok (pr_parent P, pls_name, oid)"
    and "\<forall>tr. env_activate E tr (pr_name P) oid b = None" and "string_to E [] = Inl BAD_PARAM"
    and "w_log v = None" and "\<not> pls_connected new" and "pls_target new = None" and "pls_req new = None"
    and "\<forall>c. pls_target p = Some c \<longrightarrow>
      no_space (env_object_to_string E c) \<and> string_to E (env_object_to_string E c) = Inr c"
  shows "\<exists>node p' w'. lookup_path (split_slash (proxy_key (pr_parent P, pls_name, oid)))
      (parse_text (fst (fst (pls_output E P a p w)))) = Some node \<and>
    (if pls_target p = None then pls_reincarnate E P b oid node (new, v) = (Some BAD_PARAM, new, v)
     else pls_reincarnate E P b oid node (new, v) = (None, p', w') \<and> pls_connected p' \<and>
       pls_target p' = pls_target p)"
proof (cases "pls_target p")
  case None
  have "fst (fst (pls_output E P a p w)) = proxy_key (pr_parent P, pls_name, oid) @ '' ;;'' @ nl"
    using keyOutput_ok [OF poa_knowsD(1,2) [OF assms(1)], of pls_name w] None
    by (simp add: pls_output_def basicOutput_def)
  moreover have "pls_reincarnate E P b oid pn_empty (new, v) = (Some BAD_PARAM, new, v)"
    using assms(4) by (simp add: pls_reincarnate_def attrString_def pn_empty_def)
  ultimately show ?thesis using no_IOR_words [OF assms(2)] None by auto
next
  case (Some c)
  let ?v = "(env_object_to_string E c, False)"
  have c: "no_space (env_object_to_string E c)" "string_to E (env_object_to_string E c) = Inr c"
    using assms(9) Some by auto
  have "fst (fst (pls_output E P a p w)) = proxy_enter (pr_parent P, pls_name, oid) ?v"
    using basicOutput_ok [OF poa_knowsD(1,2) [OF assms(1)], of pls_name c w] Some by (simp add: pls_output_def)
  moreover have "lookup_path (split_slash (proxy_key (pr_parent P, pls_name, oid)))
      (parse_text (proxy_enter (pr_parent P, pls_name, oid) ?v)) = Some (PersistNode (proxy_attrs ?v) [])"
    using pj.journal_found [OF assms(2), of ?v "[]"] c(1) by (simp add: proxy_val_ok_def)
  moreover have "attrString ''IOR'' [] (PersistNode (proxy_attrs ?v) []) = env_object_to_string E c"
    by (simp add: attrString_def proxy_attrs_def)
  ultimately show ?thesis using c(2) assms(3,5-8) Some
    by (auto simp: pls_reincarnate_def activateObjectWithId_def connect_pull_consumer_def pls_touch_def
        log_write_def Let_def)
qed

end
