(* ===== verification/Consumer_Admin.thy ===== *)
theory Consumer_Admin
  imports Proxy_Push_Supplier Proxy_Pull_Supplier
begin

text \<open>
  \<^verbatim>\<open>ConsumerAdmin.h\<close>, \<^verbatim>\<open>ConsumerAdmin.cc\<close>, \<^verbatim>\<open>defaults.h\<close> and the property accessors of
  \<^verbatim>\<open>EventChannel.h\<close>: the administrator that owns the event queue of a channel and the managers
  of its push and pull suppliers.
\<close>

section \<open>Properties of a channel\<close>

definition PULL_RETRY_PERIOD_MS :: int where "PULL_RETRY_PERIOD_MS = 1000"
definition MAX_QUEUE_LENGTH :: int where "MAX_QUEUE_LENGTH = 1023"
definition MAX_NUM_PROXIES :: int where "MAX_NUM_PROXIES = 1024"
definition CYCLE_PERIOD_NS :: int where "CYCLE_PERIOD_NS = 100000000"

definition pullRetryPeriod_ms :: "pnode \<Rightarrow> ulong" where
  "pullRetryPeriod_ms props = word_of_int (attrLong ''PullRetryPeriod_ms'' PULL_RETRY_PERIOD_MS props)"

definition maxQueueLength :: "pnode \<Rightarrow> ulong" where
  "maxQueueLength props = word_of_int (attrLong ''MaxQueueLength'' MAX_QUEUE_LENGTH props)"

definition maxNumProxies :: "pnode \<Rightarrow> ulong" where
  "maxNumProxies props = word_of_int (attrLong ''MaxNumProxies'' MAX_NUM_PROXIES props)"

definition cyclePeriod_ns :: "pnode \<Rightarrow> uint64" where
  "cyclePeriod_ns props = word_of_int (attrLong ''CyclePeriod_ns'' CYCLE_PERIOD_NS props)"

section \<open>ConsumerAdmin_i\<close>

record consumer_admin =
  ca_props :: pnode
  ca_poa :: string
  ca_queue :: equeue
  ca_push :: "pps_mgr option"
  ca_pull :: "pls_mgr option"

definition ca_filter :: "env \<Rightarrow> pnode \<Rightarrow> event_filter option" where
  "ca_filter E props =
     (if hasAttr ''FilterId'' props then Some (FilterByRepositoryId (attrString ''FilterId'' [] props))
      else if hasAttr ''FilterKind'' props
      then Some (FilterByTCKind (env_tckind E (attrLong ''FilterKind'' 0 props)))
      else None)"

definition ConsumerAdmin_i :: "env \<Rightarrow> pnode \<Rightarrow> string \<Rightarrow> addr \<Rightarrow> world \<Rightarrow> (exn + consumer_admin) \<times> world" where
  "ConsumerAdmin_i E props poa self w =
     (case EventQueue (uint (maxQueueLength props)) of
        Inl e \<Rightarrow> (Inl e, w)
      | Inr q \<Rightarrow>
          (let q1 = (case ca_filter E props of None \<Rightarrow> q | Some f \<Rightarrow> setFilter f q);
               ca = \<lparr>ca_props = props, ca_poa = poa, ca_queue = q1, ca_push = None, ca_pull = None\<rparr>
           in case activateObjectWithId E poa ''ConsumerAdmin'' self w of
                (Some e, w1) \<Rightarrow> (Inl e, w1)
              | (None, w1) \<Rightarrow> (Inr ca, w1)))"

text \<open>
  The managers are made on demand; their constructors call \<^verbatim>\<open>ProxyManager::activate\<close>, and the
  manager of the push suppliers starts its thread.
\<close>

definition ca_push_manager :: "env \<Rightarrow> consumer_admin \<times> world \<Rightarrow> (exn + pps_mgr) \<times> world" where
  "ca_push_manager E cw = (case cw of (ca, w) \<Rightarrow>
     (case mg_activate E (ca_poa ca) ''ProxyPushSupplier'' (env_alloc E (w_trace w)) w of
        (Inl e, w1) \<Rightarrow> (Inl e, w1)
      | (Inr P, w1) \<Rightarrow> (Inr (ProxyPushSupplierManager P), w1)))"

definition ca_pull_manager :: "env \<Rightarrow> consumer_admin \<times> world \<Rightarrow> (exn + pls_mgr) \<times> world" where
  "ca_pull_manager E cw = (case cw of (ca, w) \<Rightarrow>
     (case mg_activate E (ca_poa ca) ''ProxyPullSupplier'' (env_alloc E (w_trace w)) w of
        (Inl e, w1) \<Rightarrow> (Inl e, w1)
      | (Inr P, w1) \<Rightarrow> (Inr (ProxyPullSupplierManager P), w1)))"

definition obtain_push_supplier :: "env \<Rightarrow> consumer_admin \<times> world \<Rightarrow> (exn + objref) \<times> consumer_admin \<times> world"
where
  "obtain_push_supplier E cw = (case cw of (ca, w) \<Rightarrow>
     (case ca_push ca of
        Some m \<Rightarrow> (case pps_createObject E m w of (r, w1) \<Rightarrow> (r, ca, w1))
      | None \<Rightarrow>
          (case ca_push_manager E (ca, w) of
             (Inl e, w1) \<Rightarrow> (Inl e, ca, w1)
           | (Inr m, w1) \<Rightarrow>
               (case pps_createObject E m w1 of (r, w2) \<Rightarrow> (r, ca\<lparr>ca_push := Some m\<rparr>, w2)))))"

definition obtain_pull_supplier :: "env \<Rightarrow> consumer_admin \<times> world \<Rightarrow> (exn + objref) \<times> consumer_admin \<times> world"
where
  "obtain_pull_supplier E cw = (case cw of (ca, w) \<Rightarrow>
     (case ca_pull ca of
        Some m \<Rightarrow> (case pls_createObject E m w of (r, w1) \<Rightarrow> (r, ca, w1))
      | None \<Rightarrow>
          (case ca_pull_manager E (ca, w) of
             (Inl e, w1) \<Rightarrow> (Inl e, ca, w1)
           | (Inr m, w1) \<Rightarrow>
               (case pls_createObject E m w1 of (r, w2) \<Rightarrow> (r, ca\<lparr>ca_pull := Some m\<rparr>, w2)))))"

definition ca_destroy :: "addr \<Rightarrow> consumer_admin \<times> world \<Rightarrow> consumer_admin \<times> world" where
  "ca_destroy self cw = (case cw of (ca, w) \<Rightarrow>
     (ca\<lparr>ca_push := None, ca_pull := None\<rparr>,
      case ca_push ca of None \<Rightarrow> w | Some m \<Rightarrow> snd (pps_mgr_remove_ref self (m, w))))"

text \<open>The two overloads of \<^verbatim>\<open>send\<close>; the second clears the list it is given.\<close>

definition ca_send_event :: "any \<Rightarrow> consumer_admin \<Rightarrow> exn option \<times> consumer_admin" where
  "ca_send_event event ca = (case eq_append (ca_queue ca) event of
      Inl e \<Rightarrow> (Some e, ca)
    | Inr (_, q) \<Rightarrow> (None, ca\<lparr>ca_queue := q\<rparr>))"

fun ca_send :: "any list \<Rightarrow> consumer_admin \<Rightarrow> exn option \<times> any list \<times> consumer_admin" where
  "ca_send [] ca = (None, [], ca)"
| "ca_send (e # es) ca =
     (case ca_send_event e ca of
        (Some x, ca1) \<Rightarrow> (Some x, e # es, ca1)
      | (None, ca1) \<Rightarrow> (case ca_send es ca1 of (ex, left, ca2) \<Rightarrow> (ex, if ex = None then [] else e # left, ca2)))"

definition ca_disconnect :: "env \<Rightarrow> consumer_admin \<Rightarrow> world \<Rightarrow> exn option \<times> world" where
  "ca_disconnect E ca w =
     then_do (case ca_push ca of None \<Rightarrow> (None, w) | Some m \<Rightarrow> pps_disconnect_all E (mg_servants m) w)
       (\<lambda>w1. case ca_pull ca of None \<Rightarrow> (None, w1) | Some m \<Rightarrow> pls_disconnect_all E (mg_servants m) w1)"

text \<open>\<^verbatim>\<open>child(name)\<close> with at least one child of its own.\<close>

definition child_with :: "string \<Rightarrow> pnode \<Rightarrow> pnode option" where
  "child_with name node = (case child name node of
      None \<Rightarrow> None | Some c \<Rightarrow> if pn_child c = [] then None else Some c)"

definition ca_reincarnate_push :: "env \<Rightarrow> pnode \<Rightarrow> consumer_admin \<times> world \<Rightarrow> exn option \<times> consumer_admin \<times> world"
where
  "ca_reincarnate_push E node cw = (case cw of (ca, w) \<Rightarrow>
     (case child_with ''ProxyPushSupplier'' node of
        None \<Rightarrow> (None, ca, w)
      | Some c \<Rightarrow>
          (case ca_push_manager E (ca, w) of
             (Inl e, w1) \<Rightarrow> (Some e, ca, w1)
           | (Inr m, w1) \<Rightarrow>
               (case pps_mgr_reincarnate E (ca_queue ca) c (m, w1) of (ex, m1, w2) \<Rightarrow>
                  (ex, ca\<lparr>ca_push := Some m1\<rparr>, w2)))))"

definition ca_reincarnate_pull :: "env \<Rightarrow> pnode \<Rightarrow> consumer_admin \<times> world \<Rightarrow> exn option \<times> consumer_admin \<times> world"
where
  "ca_reincarnate_pull E node cw = (case cw of (ca, w) \<Rightarrow>
     (case child_with ''ProxyPullSupplier'' node of
        None \<Rightarrow> (None, ca, w)
      | Some c \<Rightarrow>
          (case ca_pull_manager E (ca, w) of
             (Inl e, w1) \<Rightarrow> (Some e, ca, w1)
           | (Inr m, w1) \<Rightarrow>
               (case pls_mgr_reincarnate E (unat (maxNumProxies (ca_props ca))) (ca_queue ca) c (m, w1) of
                  (ex, m1, w2) \<Rightarrow> (ex, ca\<lparr>ca_pull := Some m1\<rparr>, w2)))))"

definition ca_reincarnate :: "env \<Rightarrow> pnode \<Rightarrow> consumer_admin \<times> world \<Rightarrow> exn option \<times> consumer_admin \<times> world" where
  "ca_reincarnate E node cw = then_do (ca_reincarnate_push E node cw) (ca_reincarnate_pull E node)"

text \<open>
  \<^verbatim>\<open>output\<close>: a CORBA exception of the push suppliers is swallowed, with what they have written
  so far left in the stream; one of the pull suppliers is not.
\<close>

definition out_then :: "outres \<times> world \<Rightarrow> (world \<Rightarrow> outres \<times> world) \<Rightarrow> outres \<times> world" where
  "out_then r f = (case r of
      ((txt, Some e), w) \<Rightarrow> ((txt, Some e), w)
    | ((txt, None), w) \<Rightarrow> (case f w of ((txt', ex), w1) \<Rightarrow> ((txt @ txt', ex), w1)))"

definition out_catch :: "outres \<times> world \<Rightarrow> outres \<times> world" where
  "out_catch r = (case r of ((txt, ex), w) \<Rightarrow>
     ((txt, case ex of Some e \<Rightarrow> if is_corba_exn e then None else Some e | None \<Rightarrow> None), w))"

definition ca_output :: "env \<Rightarrow> consumer_admin \<Rightarrow> world \<Rightarrow> outres \<times> world" where
  "ca_output E ca w =
     out_then (case ca_push ca of None \<Rightarrow> (([], None), w)
               | Some m \<Rightarrow> out_catch (mg_output (pps_output E (mg_poa m)) (mg_servants m) w))
       (\<lambda>w1. case ca_pull ca of None \<Rightarrow> (([], None), w1)
               | Some m \<Rightarrow> mg_output (pls_output E (mg_poa m)) (mg_servants m) w1)"

definition ca_queueLength :: "consumer_admin \<Rightarrow> int" where
  "ca_queueLength ca = eq_size (ca_queue ca)"

section \<open>What is sent reaches the queue\<close>

lemma ca_send_event_total:
  assumes "eq_rep (ca_queue ca) H" and "any_kind e \<noteq> np_tk_indirect"
  shows "\<exists>ca'. ca_send_event e ca = (None, ca') \<and>
    eq_rep (ca_queue ca') (H @ filter (kept_by (eq_filter (ca_queue ca))) [e]) \<and>
    eq_cap (ca_queue ca') = eq_cap (ca_queue ca) \<and>
    eq_filter (ca_queue ca') = eq_filter (ca_queue ca) \<and> ca' = ca\<lparr>ca_queue := ca_queue ca'\<rparr>"
proof -
  from eq_append_total [OF assms] obtain d q where "eq_append (ca_queue ca) e = Inr (d, q)"
    "eq_rep q (if kept_by (eq_filter (ca_queue ca)) e then H @ [e] else H)"
    "eq_cap q = eq_cap (ca_queue ca)" "eq_filter q = eq_filter (ca_queue ca)" by blast
  then show ?thesis by (auto simp: ca_send_event_def split: if_splits)
qed

lemma ca_send_total:
  assumes "eq_rep (ca_queue ca) H" and "\<forall>e \<in> set es. any_kind e \<noteq> np_tk_indirect"
  shows "\<exists>ca'. ca_send es ca = (None, [], ca') \<and>
    eq_rep (ca_queue ca') (H @ filter (kept_by (eq_filter (ca_queue ca))) es) \<and>
    eq_cap (ca_queue ca') = eq_cap (ca_queue ca) \<and>
    eq_filter (ca_queue ca') = eq_filter (ca_queue ca) \<and> ca' = ca\<lparr>ca_queue := ca_queue ca'\<rparr>"
  using assms
proof (induction es arbitrary: ca H)
  case (Cons e es)
  from ca_send_event_total [OF Cons.prems(1), of e] Cons.prems(2) obtain ca1
    where a: "ca_send_event e ca = (None, ca1)"
      "eq_rep (ca_queue ca1) (H @ filter (kept_by (eq_filter (ca_queue ca))) [e])"
      "eq_cap (ca_queue ca1) = eq_cap (ca_queue ca)" "eq_filter (ca_queue ca1) = eq_filter (ca_queue ca)"
      "ca1 = ca\<lparr>ca_queue := ca_queue ca1\<rparr>" by auto
  from Cons.IH [OF a(2)] Cons.prems(2) obtain ca2 where b: "ca_send es ca1 = (None, [], ca2)"
      "eq_rep (ca_queue ca2) ((H @ filter (kept_by (eq_filter (ca_queue ca))) [e]) @
         filter (kept_by (eq_filter (ca_queue ca1))) es)"
      "eq_cap (ca_queue ca2) = eq_cap (ca_queue ca1)" "eq_filter (ca_queue ca2) = eq_filter (ca_queue ca1)"
      "ca2 = ca1\<lparr>ca_queue := ca_queue ca2\<rparr>" by auto
  have "ca2 = ca\<lparr>ca_queue := ca_queue ca2\<rparr>" using a(5) b(5) by (metis consumer_admin.update_convs(3) consumer_admin.surjective)
  moreover have "ca_send (e # es) ca = (None, [], ca2)" using a(1) b(1) by simp
  ultimately show ?case using a b by (intro exI [of _ ca2]) (auto split: if_splits)
qed simp

end
