(* ===== verification/Proxy_Push_Consumer.thy ===== *)
theory Proxy_Push_Consumer
  imports Consumer_Admin
begin

text \<open>
  \<^verbatim>\<open>ProxyPushConsumer.h\<close> and \<^verbatim>\<open>ProxyPushConsumer.cc\<close>: the default servant that accepts events
  from push suppliers, with its table of connections. The model is that of the default
  build, with \<^verbatim>\<open>HAVE_OMNIORB4\<close> and \<^verbatim>\<open>OMNIEVENTS_REAL_TIME_PUSH\<close> defined.
\<close>

record connection =
  cn_addr :: addr
  cn_channelName :: string
  cn_oidstr :: string
  cn_target :: objref
  cn_sior :: string
  cn_isProxy :: bool

record ppc =
  pp_connections :: "(string, connection) smap"
  pp_channelName :: string
  pp_useLocalQueue :: bool

abbreviation ppc_name :: string where
  "ppc_name \<equiv> ''SupplierAdmin/ProxyPushConsumer''"

definition id_ProxyPushSupplier :: string where
  "id_ProxyPushSupplier = ''IDL:omg.org/CosEventChannelAdmin/ProxyPushSupplier:1.0''"

section \<open>ProxyPushConsumer_i::Connection\<close>

definition Connection :: "env \<Rightarrow> addr \<Rightarrow> string \<Rightarrow> string \<Rightarrow> objref \<Rightarrow> bool \<Rightarrow> connection" where
  "Connection E a channelName oidstr pushSupplier isProxy =
     \<lparr>cn_addr = a, cn_channelName = channelName, cn_oidstr = oidstr, cn_target = pushSupplier,
      cn_sior = env_object_to_string E pushSupplier, cn_isProxy = isProxy\<rparr>"

definition cn_output :: "connection \<Rightarrow> string" where
  "cn_output c = ''ecf/'' @ cn_channelName c @ ''/SupplierAdmin/ProxyPushConsumer/'' @ cn_oidstr c @
     '' IOR='' @ cn_sior c @ (if cn_isProxy c then '' proxy=1'' else []) @ '' ;;'' @ nl"

definition cn_callback :: "any \<Rightarrow> connection \<times> world \<Rightarrow> exn option \<times> connection \<times> world" where
  "cn_callback retval cw = (case cw of (c, w) \<Rightarrow>
     (case any_boolean retval of
        None \<Rightarrow> (None, c, w)
      | Some b \<Rightarrow>
          (let c1 = c\<lparr>cn_isProxy := b\<rparr>
           in if b then (case log_write (\<lambda>v. ((cn_output c1, None), v)) w of (ex, w1) \<Rightarrow> (ex, c1, w1))
              else (None, c1, w))))"

section \<open>ProxyPushConsumer_i\<close>

definition ppc_policies :: "policy list" where
  "ppc_policies = [PERSISTENT, USER_ID, MULTIPLE_ID, NO_IMPLICIT_ACTIVATION, USE_DEFAULT_SERVANT,
     NON_RETAIN, SINGLE_THREAD_MODEL]"

text \<open>
  The constructor: a failed \<^verbatim>\<open>create_POA\<close> is logged, and the call of \<^verbatim>\<open>set_servant\<close> is then made
  on a nil reference.
\<close>

definition ProxyPushConsumer_i :: "env \<Rightarrow> string \<Rightarrow> addr \<Rightarrow> world \<Rightarrow> (exn + ppc) \<times> world" where
  "ProxyPushConsumer_i E parent self w =
     (let poaName = parent @ ''.ProxyPushConsumer'';
          w1 = orb_call (PoaCreate parent poaName ppc_policies) w
      in case env_create_poa E (w_trace w) parent poaName of
           Some e \<Rightarrow> if is_poa_clash e
                     then (Inl (SystemOther ''INV_OBJREF''), w1) else (Inl e, w1)
         | None \<Rightarrow> (Inr \<lparr>pp_connections = [], pp_channelName = parent, pp_useLocalQueue = False\<rparr>,
                    orb_call (PoaSetServant poaName self) w1))"

text \<open>\<^verbatim>\<open>currentObjectId\<close>: without a request context the id is the text ERROR.\<close>

definition currentObjectId :: "env \<Rightarrow> world \<Rightarrow> exn + string" where
  "currentObjectId E w = (case env_current_oid E (w_trace w) of
      Inr oid \<Rightarrow> if env_bad_oid E oid then Inl AssertFail else Inr oid
    | Inl e \<Rightarrow> if e = UserOther ''NoContext'' then Inr ''ERROR''
               else if e = BAD_PARAM then Inl AssertFail else Inl e)"

definition connect_push_supplier :: "env \<Rightarrow> objref option \<Rightarrow> ppc \<times> world \<Rightarrow> exn option \<times> ppc \<times> world" where
  "connect_push_supplier E pushSupplier pw = (case pw of (p, w) \<Rightarrow>
     (case pushSupplier of
        None \<Rightarrow> (None, p, w)
      | Some s \<Rightarrow>
          (case currentObjectId E w of
             Inl e \<Rightarrow> (Some e, p, w)
           | Inr oidstr \<Rightarrow>
               if map_of (pp_connections p) oidstr \<noteq> None then (Some AlreadyConnected, p, w)
               else
                 (let a = env_alloc E (w_trace w);
                      c = Connection E a (pp_channelName p) oidstr s False;
                      p1 = p\<lparr>pp_connections := smap_set oidstr c (pp_connections p)\<rparr>
                  in case send_deferred s ''_is_a'' [any_of_string id_ProxyPushSupplier] (add_ref a w) of
                       (r, w1) \<Rightarrow>
                         (case log_write (\<lambda>v. ((cn_output c, None), v)) (deferredRequest r (Some a) w1) of
                            (ex, w2) \<Rightarrow> (ex, p1, w2))))))"

definition disconnect_push_consumer :: "env \<Rightarrow> ppc \<times> world \<Rightarrow> exn option \<times> ppc \<times> world" where
  "disconnect_push_consumer E pw = (case pw of (p, w) \<Rightarrow>
     (case currentObjectId E w of
        Inl e \<Rightarrow> (Some e, p, w)
      | Inr oidstr \<Rightarrow>
          (case map_of (pp_connections p) oidstr of
             None \<Rightarrow> (None, p, w)
           | Some c \<Rightarrow>
               (case send_deferred (cn_target c) ''disconnect_push_supplier'' [] (remove_ref (cn_addr c) w) of
                  (r, w1) \<Rightarrow>
                    (case log_write (\<lambda>v. ((''-ecf/'' @ pp_channelName p @
                            ''/SupplierAdmin/ProxyPushConsumer/'' @ oidstr @ nl, None), v))
                          (deferredRequest r None w1) of (ex, w2) \<Rightarrow>
                       (ex, p\<lparr>pp_connections := smap_erase oidstr (pp_connections p)\<rparr>, w2))))))"

text \<open>
  \<^verbatim>\<open>push\<close>: the first event after a \<^verbatim>\<open>trigger()\<close> goes straight to the consumers' queue, the others
  to the incoming queue of the channel.
\<close>

definition ppc_push :: "any \<Rightarrow> ppc \<times> any list \<times> consumer_admin \<Rightarrow> exn option \<times> ppc \<times> any list \<times> consumer_admin"
where
  "ppc_push event s = (case s of (p, lq, ca) \<Rightarrow>
     if \<not> pp_useLocalQueue p
     then (case ca_send_event event ca of
             (Some e, ca1) \<Rightarrow> (Some e, p, lq, ca1)
           | (None, ca1) \<Rightarrow> (None, p\<lparr>pp_useLocalQueue := True\<rparr>, lq, ca1))
     else (None, p, lq @ [event], ca))"

definition ppc_trigger :: "ppc \<Rightarrow> ppc" where
  "ppc_trigger p = p\<lparr>pp_useLocalQueue := False\<rparr>"

definition ppc_createObject :: "env \<Rightarrow> ppc \<Rightarrow> world \<Rightarrow> (exn + objref) \<times> world" where
  "ppc_createObject E p w = createReference E (pp_channelName p @ ''.ProxyPushConsumer'') w"

fun ppc_disconnect_all :: "(string, connection) smap \<Rightarrow> world \<Rightarrow> world" where
  "ppc_disconnect_all [] w = w"
| "ppc_disconnect_all ((oid, c) # cs) w =
     (case send_deferred (cn_target c) ''disconnect_push_supplier'' [] (remove_ref (cn_addr c) w) of (r, w1) \<Rightarrow>
        ppc_disconnect_all cs (deferredRequest r None w1))"

definition ppc_disconnect :: "ppc \<times> world \<Rightarrow> ppc \<times> world" where
  "ppc_disconnect pw = (case pw of (p, w) \<Rightarrow>
     (p\<lparr>pp_connections := []\<rparr>, ppc_disconnect_all (pp_connections p) w))"

definition ppc_destroy :: "ppc \<Rightarrow> world \<Rightarrow> world" where
  "ppc_destroy p w = fold remove_ref (map (cn_addr \<circ> snd) (pp_connections p)) w"

text \<open>
  \<^verbatim>\<open>reincarnate\<close>, one child at a time. Six exceptions are swallowed inside the loop, and a
  connection that was inserted before the exception stays.
\<close>

definition ppc_swallows :: "exn \<Rightarrow> bool" where
  "ppc_swallows e \<longleftrightarrow>
     e \<in> {BAD_PARAM, AlreadyConnected, TypeError, OBJECT_NOT_EXIST, TRANSIENT, COMM_FAILURE}"

definition ppc_reincarnate_one :: "env \<Rightarrow> string \<times> pnode \<Rightarrow> ppc \<times> world \<Rightarrow> exn option \<times> ppc \<times> world" where
  "ppc_reincarnate_one E oc pw = (case (oc, pw) of ((oidstr, node), (p, w)) \<Rightarrow>
     (let ior = attrString ''IOR'' [] node; isProxy = (attrLong ''proxy'' 0 node \<noteq> 0)
      in if map_of (pp_connections p) oidstr \<noteq> None then (Some AssertFail, p, w)
         else case string_to E ior of
           Inl e \<Rightarrow> (Some e, p, w)
         | Inr s \<Rightarrow>
             (let a = env_alloc E (w_trace w);
                  p1 = p\<lparr>pp_connections :=
                        smap_set oidstr (Connection E a (pp_channelName p) oidstr s isProxy) (pp_connections p)\<rparr>;
                  w1 = add_ref a w
              in if \<not> isProxy then (None, p1, w1)
                 else (case string_to E ior of
                         Inl e \<Rightarrow> (Some e, p1, w1)
                       | Inr px \<Rightarrow>
                           (let w2 = orb_call (CreateReference (pp_channelName p @ ''.ProxyPushConsumer'') oidstr) w1
                            in (env_remote E (w_trace w2) px ''connect_push_consumer'', p1,
                                orb_call (RemoteCall px ''connect_push_consumer'') w2))))))"

fun ppc_reincarnate :: "env \<Rightarrow> (string \<times> pnode) list \<Rightarrow> ppc \<times> world \<Rightarrow> exn option \<times> ppc \<times> world" where
  "ppc_reincarnate E [] pw = (None, pw)"
| "ppc_reincarnate E (oc # ocs) pw = (case ppc_reincarnate_one E oc pw of
      (None, pw1) \<Rightarrow> ppc_reincarnate E ocs pw1
    | (Some e, pw1) \<Rightarrow> if ppc_swallows e then ppc_reincarnate E ocs pw1 else (Some e, pw1))"

definition ppc_output :: "ppc \<Rightarrow> string" where
  "ppc_output p = concat (map (cn_output \<circ> snd) (pp_connections p))"

section \<open>The connection table and the logfile\<close>

text \<open>
  Invariant of the table: it is an ordered map, each entry carries its own key and the name of
  the channel, and its IOR string is that of its target.
\<close>

definition ppc_ok :: "env \<Rightarrow> ppc \<Rightarrow> bool" where
  "ppc_ok E p \<longleftrightarrow> smap_ok (pp_connections p) \<and>
     (\<forall>oc \<in> set (pp_connections p). cn_oidstr (snd oc) = fst oc \<and>
        cn_channelName (snd oc) = pp_channelName p \<and>
        cn_sior (snd oc) = env_object_to_string E (cn_target (snd oc)))"

lemma cn_output_enter: "cn_output c =
    proxy_enter (cn_channelName c, ppc_name, cn_oidstr c) (cn_sior c, cn_isProxy c)"
  by (simp add: cn_output_def proxy_enter_def proxy_key_def ior_text_def)

lemma smap_set_mem: "oc \<in> set (smap_set k v m) \<Longrightarrow> oc = (k, v) \<or> oc \<in> set m"
  by (induction k v m rule: smap_set.induct) (auto split: if_splits)

lemma ppc_ok_insert:
  "ppc_ok E p \<Longrightarrow>
   ppc_ok E (p\<lparr>pp_connections := smap_set oid (Connection E a (pp_channelName p) oid s f) (pp_connections p)\<rparr>)"
  unfolding ppc_ok_def by (auto simp: smap_set_ok Connection_def dest!: smap_set_mem)

lemma ppc_ok_erase: "ppc_ok E p \<Longrightarrow> ppc_ok E (p\<lparr>pp_connections := smap_erase oid (pp_connections p)\<rparr>)"
  unfolding ppc_ok_def using smap_erase_subset [of oid "pp_connections p"] by (auto simp: smap_erase_ok)

lemma connect_push_supplier_ok: "ppc_ok E p \<Longrightarrow> ppc_ok E (fst (snd (connect_push_supplier E s (p, w))))"
  by (auto simp: connect_push_supplier_def Let_def ppc_ok_insert split: option.splits sum.splits prod.splits)

lemma disconnect_push_consumer_ok: "ppc_ok E p \<Longrightarrow> ppc_ok E (fst (snd (disconnect_push_consumer E (p, w))))"
  by (auto simp: disconnect_push_consumer_def Let_def ppc_ok_erase split: option.splits sum.splits prod.splits)

lemma ppc_reincarnate_one_ok: "ppc_ok E p \<Longrightarrow> ppc_ok E (fst (snd (ppc_reincarnate_one E oc (p, w))))"
  by (cases oc) (auto simp: ppc_reincarnate_one_def Let_def ppc_ok_insert split: sum.splits)

lemma ppc_reincarnate_ok: "ppc_ok E (fst pw) \<Longrightarrow> ppc_ok E (fst (snd (ppc_reincarnate E ocs pw)))"
proof (induction ocs arbitrary: pw)
  case (Cons oc ocs)
  obtain p w where pw: "pw = (p, w)" by force
  obtain ex pw1 where r: "ppc_reincarnate_one E oc pw = (ex, pw1)"
    by (cases "ppc_reincarnate_one E oc pw") blast
  have "ppc_ok E (fst pw1)" using ppc_reincarnate_one_ok [of E p oc w] Cons.prems pw r by simp
  then show ?case using Cons.IH [of pw1] r by (auto split: option.splits)
qed simp

section \<open>Restart\<close>

definition ppc_path :: "ppc \<Rightarrow> string list" where
  "ppc_path p = [''ecf'', pp_channelName p, ''SupplierAdmin'', ''ProxyPushConsumer'']"

definition conn_node :: "connection \<Rightarrow> pnode" where
  "conn_node c = PersistNode (proxy_attrs (cn_sior c, cn_isProxy c)) []"

definition plain_name :: "string \<Rightarrow> bool" where
  "plain_name s \<longleftrightarrow> no_space s \<and> CHR ''/'' \<notin> set s"

lemma conn_split:
  assumes "plain_name chan" and "plain_name oid"
  shows "split_slash (proxy_key (chan, ppc_name, oid)) =
    [''ecf'', chan, ''SupplierAdmin'', ''ProxyPushConsumer''] @ [oid]"
proof -
  have c: "CHR ''/'' \<notin> set chan" and o: "CHR ''/'' \<notin> set oid" using assms by (auto simp: plain_name_def)
  have "proxy_key (chan, ppc_name, oid) =
      (((''ecf'' @ ''/'' @ chan) @ ''/'' @ ''SupplierAdmin'') @ ''/'' @ ''ProxyPushConsumer'') @ ''/'' @ oid"
    by (simp add: proxy_key_def)
  moreover have "split_slash (''ecf'' @ ''/'' @ chan) = [''ecf'', chan]"
    by (subst split_slash_join [OF c]) simp
  then have "split_slash ((''ecf'' @ ''/'' @ chan) @ ''/'' @ ''SupplierAdmin'') = [''ecf'', chan, ''SupplierAdmin'']"
    by (subst split_slash_join) simp_all
  then have "split_slash (((''ecf'' @ ''/'' @ chan) @ ''/'' @ ''SupplierAdmin'') @ ''/'' @ ''ProxyPushConsumer'')
      = [''ecf'', chan, ''SupplierAdmin'', ''ProxyPushConsumer'']"
    by (subst split_slash_join) simp_all
  ultimately show ?thesis using split_slash_join [OF o] by (simp only:)
qed

lemma fold_graft_entries:
  assumes "smap_ok (ch @ kns)"
  shows "fold (\<lambda>kn. graft (p @ [fst kn]) (snd kn)) kns (graft p (PersistNode at ch) T) =
    graft p (PersistNode at (ch @ kns)) T"
  using assms
proof (induction kns arbitrary: ch)
  case (Cons kn kns)
  obtain k n where kn: "kn = (k, n)" by force
  have "k' < k" if "k' \<in> fst ` set ch" for k'
    using Cons.prems that kn by (auto simp: smap_ok_def sorted_wrt_append)
  then have "smap_set k n ch = ch @ [(k, n)]" by (rule smap_set_append)
  with Cons.IH [of "ch @ [kn]"] Cons.prems kn show ?case by (simp add: graft_child)
qed simp

text \<open>The connections, without the addresses of the connection objects.\<close>

definition conn_view :: "ppc \<Rightarrow> (string \<times> string \<times> string \<times> objref \<times> string \<times> bool) list" where
  "conn_view p = map (\<lambda>(k, c). (k, cn_channelName c, cn_oidstr c, cn_target c, cn_sior c, cn_isProxy c))
     (pp_connections p)"

lemma ends_space_concat:
  assumes "\<forall>x \<in> set xs. x \<noteq> [] \<and> c_space (last x)"
  shows "ends_space (concat xs)"
proof (cases xs rule: rev_cases)
  case (snoc ys y)
  then show ?thesis using assms by (simp add: ends_space_def)
qed (simp add: ends_space_def)

text \<open>What the parser finds for a table of connections.\<close>

lemma parse_ppc_output:
  assumes "ppc_ok E p" and "pp_connections p \<noteq> []" and "plain_name (pp_channelName p)"
    and "\<forall>oc \<in> set (pp_connections p). plain_name (fst oc) \<and> no_space (cn_sior (snd oc))"
  shows "lookup_path (ppc_path p) (parse_text (ppc_output p)) =
    Some (PersistNode [] (map (\<lambda>oc. (fst oc, conn_node (snd oc))) (pp_connections p)))"
proof -
  let ?cs = "pp_connections p"
  let ?rec = "\<lambda>oc. AddRec (proxy_key (pp_channelName p, ppc_name, fst oc))
      (proxy_attrs (cn_sior (snd oc), cn_isProxy (snd oc)))"
  let ?kns = "map (\<lambda>oc. (fst oc, conn_node (snd oc))) ?cs"
  have same: "cn_channelName (snd oc) = pp_channelName p" "cn_oidstr (snd oc) = fst oc" if "oc \<in> set ?cs" for oc
    using assms(1) that by (auto simp: ppc_ok_def)
  have key: "proxy_key_ok (pp_channelName p, ppc_name, fst oc)"
    "proxy_val_ok (cn_sior (snd oc), cn_isProxy (snd oc))" if "oc \<in> set ?cs" for oc
    using assms(3,4) that by (auto simp: proxy_key_ok_def plain_name_def proxy_val_ok_def c_space_def)
  have words: "text_words (concat (map (cn_output \<circ> snd) cs)) = concat (map rec_tokens (map ?rec cs))"
    if "set cs \<subseteq> set ?cs" for cs
    using that
  proof (induction cs)
    case (Cons oc cs)
    then have oc: "oc \<in> set ?cs" by simp
    have "cn_output (snd oc) = proxy_enter (pp_channelName p, ppc_name, fst oc) (cn_sior (snd oc), cn_isProxy (snd oc))"
      by (simp only: cn_output_enter same [OF oc])
    then show ?case using pj.enter_words [OF key [OF oc], of "concat (map (cn_output \<circ> snd) cs)"] Cons
      by (simp add: comp_def del: rec_tokens.simps)
  qed simp
  have ends: "ends_space (ppc_output p)"
    unfolding ppc_output_def by (rule ends_space_concat) (auto simp: cn_output_def nl_def)
  have rok: "\<forall>r \<in> set (map ?rec ?cs). rec_ok r" using pj.enter_ok [OF key] by auto
  have app: "apply_rec (?rec oc) T = graft (ppc_path p @ [fst oc]) (conn_node (snd oc)) T" if "oc \<in> set ?cs" for oc T
    using conn_split [OF assms(3), of "fst oc"] assms(4) that pj.attrs_ok [OF key(2) [OF that]]
    by (simp add: apply_AddRec ppc_path_def conn_node_def del: apply_rec.simps)
  have "fold apply_rec (map ?rec ?cs) T = fold (\<lambda>kn. graft (ppc_path p @ [fst kn]) (snd kn)) ?kns T" for T
    unfolding fold_map comp_def fst_conv snd_conv
    by (rule fold_cong) (auto simp: app fun_eq_iff simp del: apply_rec.simps)
  moreover obtain oc cs where ne: "?cs = oc # cs" using assms(2) by (cases ?cs) auto
  have "graft (ppc_path p @ [k]) n pn_empty = graft (ppc_path p) (PersistNode [] [(k, n)]) pn_empty" for k n
    by (simp add: ppc_path_def pn_empty_def)
  moreover have "smap_ok ?kns" using assms(1) by (simp add: ppc_ok_def smap_ok_def comp_def)
  ultimately have "fold apply_rec (map ?rec ?cs) pn_empty = graft (ppc_path p) (PersistNode [] ?kns) pn_empty"
    using fold_graft_entries [of "[(fst oc, conn_node (snd oc))]" "map (\<lambda>oc. (fst oc, conn_node (snd oc))) cs"
       "ppc_path p" "[]" pn_empty] ne by (simp del: apply_rec.simps)
  moreover have "parse_text (ppc_output p) = fold apply_rec (map ?rec ?cs) pn_empty"
    using words [of ?cs] ends rok by (intro parse_text_replay) (simp_all add: ppc_output_def)
  ultimately show ?thesis by (simp add: lookup_graft)
qed

lemma ppc_reincarnate_entries:
  assumes "\<forall>oc \<in> set cs. string_to E (cn_sior (snd oc)) = Inr (cn_target (snd oc)) \<and>
      cn_sior (snd oc) = env_object_to_string E (cn_target (snd oc)) \<and>
      cn_channelName (snd oc) = pp_channelName p \<and> cn_oidstr (snd oc) = fst oc"
    and "smap_ok (pp_connections p @ cs)"
    and "\<forall>tr t. case env_remote E tr t ''connect_push_consumer'' of None \<Rightarrow> True | Some e \<Rightarrow> ppc_swallows e"
  shows "\<exists>p' w'. ppc_reincarnate E (map (\<lambda>oc. (fst oc, conn_node (snd oc))) cs) (p, w) = (None, p', w') \<and>
    pp_channelName p' = pp_channelName p \<and>
    conn_view p' = conn_view p @ conn_view (p\<lparr>pp_connections := cs\<rparr>)"
  using assms(1,2)
proof (induction cs arbitrary: p w)
  case Nil
  then show ?case by (simp add: conn_view_def)
next
  case (Cons oc cs)
  obtain oid c where oc: "oc = (oid, c)" by force
  let ?c = "\<lambda>a. Connection E a (pp_channelName p) oid (cn_target c) (cn_isProxy c)"
  have io: "attrString ''IOR'' [] (conn_node c) = cn_sior c"
    by (simp add: conn_node_def attrString_def proxy_attrs_def)
  have "c_atol ''1'' = 1" by code_simp
  then have pr: "(attrLong ''proxy'' 0 (conn_node c) \<noteq> 0) = cn_isProxy c"
    by (simp add: conn_node_def attrLong_def proxy_attrs_def)
  have st: "string_to E (cn_sior c) = Inr (cn_target c)" using Cons.prems(1) oc by auto
  have less: "k' < oid" if "k' \<in> fst ` set (pp_connections p)" for k'
    using Cons.prems(2) that oc by (auto simp: smap_ok_def sorted_wrt_append)
  then have new: "map_of (pp_connections p) oid = None" by (metis less_irrefl map_of_notin)
  have set: "smap_set oid v (pp_connections p) = pp_connections p @ [(oid, v)]" for v
    using less by (rule smap_set_append)
  define a where "a = env_alloc E (w_trace w)"
  let ?p = "p\<lparr>pp_connections := pp_connections p @ [(oid, ?c a)]\<rparr>"
  have "\<exists>ex w1. ppc_reincarnate_one E (oid, conn_node c) (p, w) = (ex, ?p, w1) \<and>
      (case ex of None \<Rightarrow> True | Some e \<Rightarrow> ppc_swallows e)"
    using st new set assms(3)
    by (cases "cn_isProxy c") (simp_all add: ppc_reincarnate_one_def io pr Let_def a_def)
  then obtain ex w1 where one: "ppc_reincarnate_one E (oid, conn_node c) (p, w) = (ex, ?p, w1)"
    and ex: "case ex of None \<Rightarrow> True | Some e \<Rightarrow> ppc_swallows e" by blast
  have ih: "\<exists>p' w'. ppc_reincarnate E (map (\<lambda>oc. (fst oc, conn_node (snd oc))) cs) (?p, w1) = (None, p', w') \<and>
      pp_channelName p' = pp_channelName ?p \<and>
      conn_view p' = conn_view ?p @ conn_view (?p\<lparr>pp_connections := cs\<rparr>)"
    using Cons.prems oc by (intro Cons.IH) (auto simp: smap_ok_def)
  have v: "conn_view ?p = conn_view p @ conn_view (p\<lparr>pp_connections := [oc]\<rparr>)"
    using Cons.prems(1) oc by (simp add: conn_view_def Connection_def)
  have step: "ppc_reincarnate E (map (\<lambda>oc. (fst oc, conn_node (snd oc))) (oc # cs)) (p, w) =
      ppc_reincarnate E (map (\<lambda>oc. (fst oc, conn_node (snd oc))) cs) (?p, w1)"
    using one ex oc by (auto split: option.splits)
  from ih obtain p' w' where "ppc_reincarnate E (map (\<lambda>oc. (fst oc, conn_node (snd oc))) cs) (?p, w1) = (None, p', w')"
    "pp_channelName p' = pp_channelName p" "conn_view p' = conn_view ?p @ conn_view (?p\<lparr>pp_connections := cs\<rparr>)" by auto
  then show ?case unfolding step v by (intro exI [of _ p'] exI [of _ w']) (simp add: conn_view_def)
qed

text \<open>
  C15. Push connections over a restart: a table of connections written by \<^verbatim>\<open>output\<close> is found by
  the parser under the channel's key, and \<^verbatim>\<open>reincarnate\<close> on it rebuilds the table in a new
  servant: the same object ids, targets, IOR strings and federation flags, whatever the
  remote proxies answer to the attempts to reconnect.
\<close>

theorem ppc_restart:
  assumes "ppc_ok E p" and "pp_connections p \<noteq> []" and "plain_name (pp_channelName p)"
    and "\<forall>oc \<in> set (pp_connections p). plain_name (fst oc) \<and> no_space (cn_sior (snd oc)) \<and>
      string_to E (cn_sior (snd oc)) = Inr (cn_target (snd oc))"
    and "\<forall>tr t. case env_remote E tr t ''connect_push_consumer'' of None \<Rightarrow> True | Some e \<Rightarrow> ppc_swallows e"
  shows "\<exists>node p' w'. lookup_path (ppc_path p) (parse_text (ppc_output p)) = Some node \<and>
    ppc_reincarnate E (pn_child node)
      (\<lparr>pp_connections = [], pp_channelName = pp_channelName p, pp_useLocalQueue = False\<rparr>, w) = (None, p', w') \<and>
    conn_view p' = conn_view p"
proof -
  let ?new = "\<lparr>pp_connections = [], pp_channelName = pp_channelName p, pp_useLocalQueue = False\<rparr> :: ppc"
  have "\<exists>p' w'. ppc_reincarnate E (map (\<lambda>oc. (fst oc, conn_node (snd oc))) (pp_connections p)) (?new, w) = (None, p', w') \<and>
    pp_channelName p' = pp_channelName ?new \<and>
    conn_view p' = conn_view ?new @ conn_view (?new\<lparr>pp_connections := pp_connections p\<rparr>)"
    using assms(1,4,5) by (intro ppc_reincarnate_entries) (auto simp: ppc_ok_def)
  then obtain p' w' where "ppc_reincarnate E (map (\<lambda>oc. (fst oc, conn_node (snd oc))) (pp_connections p)) (?new, w)
      = (None, p', w')" and "conn_view p' = conn_view p" by (auto simp: conn_view_def)
  with parse_ppc_output [OF assms(1-3)] assms(4) show ?thesis by auto
qed

theorem ppc_restart_witness:
  "let E = idle_env\<lparr>env_string_to_object := \<lambda>s. Inr (Some (length s))\<rparr>;
       p = \<lparr>pp_connections = [(''o'', Connection E 5 ''c'' ''o'' 3 True)], pp_channelName = ''c'',
            pp_useLocalQueue = True\<rparr>
   in \<exists>node p' w'. lookup_path (ppc_path p) (parse_text (ppc_output p)) = Some node \<and>
        ppc_reincarnate E (pn_child node)
          (\<lparr>pp_connections = [], pp_channelName = pp_channelName p, pp_useLocalQueue = False\<rparr>, init_world True)
          = (None, p', w') \<and>
        conn_view p' = conn_view p"
proof -
  let ?E = "idle_env\<lparr>env_string_to_object := \<lambda>s. Inr (Some (length s))\<rparr>"
  let ?p = "\<lparr>pp_connections = [(''o'', Connection ?E 5 ''c'' ''o'' 3 True)], pp_channelName = ''c'',
            pp_useLocalQueue = True\<rparr>"
  have ns: "no_space (replicate n (CHR ''x''))" for n by (induction n) (simp_all add: c_space_def)
  have ok: "ppc_ok ?E ?p" "pp_connections ?p \<noteq> []" "plain_name (pp_channelName ?p)"
    by (simp_all add: ppc_ok_def Connection_def plain_name_def c_space_def)
  have io: "\<forall>oc \<in> set (pp_connections ?p). plain_name (fst oc) \<and> no_space (cn_sior (snd oc)) \<and>
      string_to ?E (cn_sior (snd oc)) = Inr (cn_target (snd oc))"
    using ns by (simp add: Connection_def plain_name_def idle_env_def string_to_def c_space_def)
  have rm: "\<forall>tr t. case env_remote ?E tr t ''connect_push_consumer'' of None \<Rightarrow> True | Some e \<Rightarrow> ppc_swallows e"
    by (simp add: idle_env_def)
  from ppc_restart [OF ok io rm, of "init_world True"] show ?thesis unfolding Let_def by blast
qed

section \<open>Connecting and disconnecting\<close>

lemma own_refs_simps [simp]:
  "own_refs (orb_call c w) = own_refs w"
  "own_refs (snd (send_deferred t op args w)) = own_refs w"
  "own_refs (add_ref a w) = (own_refs w)(a := own_refs w a + 1)"
  "own_refs (remove_ref a w) = (own_refs w)(a := own_refs w a - 1)"
  "own_refs (w\<lparr>w_log := l\<rparr>) = own_refs w"
  "own_refs (w\<lparr>w_checkpoint := b\<rparr>) = own_refs w"
  by (auto simp: own_refs_def fun_eq_iff)

definition current_oid :: "env \<Rightarrow> string \<Rightarrow> bool" where
  "current_oid E oid \<longleftrightarrow> \<not> env_bad_oid E oid \<and> (\<forall>tr. env_current_oid E tr = Inr oid)"

lemma currentObjectId_ok: "current_oid E oid \<Longrightarrow> currentObjectId E w = Inr oid"
  by (simp add: current_oid_def currentObjectId_def)

lemma connect_push_supplier_new:
  fixes s :: objref
  assumes "current_oid E oid" and "map_of (pp_connections p) oid = None" and "w_log w = Some t"
  defines "a \<equiv> env_alloc E (w_trace w)"
  defines "c \<equiv> Connection E a (pp_channelName p) oid s False"
  shows "\<exists>w1. connect_push_supplier E (Some s) (p, w) =
      (None, p\<lparr>pp_connections := smap_set oid c (pp_connections p)\<rparr>, w1) \<and>
    w_log w1 = Some (t @ cn_output c) \<and> own_refs w1 = (own_refs w)(a := own_refs w a + 1)"
  using assms(2,3) unfolding c_def a_def
  by (auto simp: connect_push_supplier_def currentObjectId_ok [OF assms(1)] send_deferred_def Let_def
      log_write_def log_output_def deferredRequest_own_refs)

lemma disconnect_push_consumer_old:
  assumes "current_oid E oid" and "map_of (pp_connections p) oid = Some c" and "w_log w = Some t"
  shows "\<exists>w1. disconnect_push_consumer E (p, w) =
      (None, p\<lparr>pp_connections := smap_erase oid (pp_connections p)\<rparr>, w1) \<and>
    w_log w1 = Some (t @ proxy_leave (pp_channelName p, ppc_name, oid)) \<and>
    own_refs w1 = (own_refs w)(cn_addr c := own_refs w (cn_addr c) - 1)"
  using assms(2,3)
  by (auto simp: disconnect_push_consumer_def currentObjectId_ok [OF assms(1)] send_deferred_def Let_def
      log_write_def log_output_def deferredRequest_own_refs proxy_leave_def proxy_key_def)

text \<open>
  A push supplier connects and disconnects: the connection is entered in the table and in
  the logfile, where it reads back as the IOR of the supplier; connecting again under the
  same object id is refused and changes nothing; disconnecting restores the table exactly,
  takes the connection out of the logfile and gives back the reference on the connection
  object, up to what the deferred requests still hold.
\<close>

lemma ppc_connect_disconnect:
  assumes "current_oid E oid" and "oid \<notin> fst ` set (pp_connections p)"
    and "w_log w = Some (concat (map rec_text rs))" and "\<forall>r \<in> set rs. rec_ok r"
    and "proxy_key_ok (pp_channelName p, ppc_name, oid)" and "no_space (env_object_to_string E s)"
  shows "\<exists>p1 w1 txt1 w2 txt2. connect_push_supplier E (Some s) (p, w) = (None, p1, w1) \<and>
    w_log w1 = Some txt1 \<and>
    lookup_path (split_slash (proxy_key (pp_channelName p, ppc_name, oid))) (parse_text txt1) =
      Some (PersistNode [(''IOR'', env_object_to_string E s)] []) \<and>
    connect_push_supplier E (Some s') (p1, w1) = (Some AlreadyConnected, p1, w1) \<and>
    disconnect_push_consumer E (p1, w1) = (None, p, w2) \<and> w_log w2 = Some txt2 \<and>
    lookup_path (split_slash (proxy_key (pp_channelName p, ppc_name, oid))) (parse_text txt2) = None \<and>
    own_refs w2 = own_refs w"
proof -
  let ?k = "(pp_channelName p, ppc_name, oid)" and ?v = "(env_object_to_string E s, False)"
  let ?a = "env_alloc E (w_trace w)"
  let ?c = "Connection E ?a (pp_channelName p) oid s False"
  let ?p1 = "p\<lparr>pp_connections := smap_set oid ?c (pp_connections p)\<rparr>"
  have out: "cn_output ?c = proxy_enter ?k ?v" by (simp add: cn_output_enter Connection_def)
  from connect_push_supplier_new [OF assms(1) map_of_notin [OF assms(2)] assms(3), of s] out obtain w1
    where c1: "connect_push_supplier E (Some s) (p, w) = (None, ?p1, w1)"
      and l1: "w_log w1 = Some (concat (map rec_text rs) @ proxy_enter ?k ?v)"
      and r1: "own_refs w1 = (own_refs w)(?a := own_refs w ?a + 1)" by auto
  have m1: "map_of (pp_connections ?p1) oid = Some ?c" by (simp add: map_of_smap_set)
  from disconnect_push_consumer_old [OF assms(1) m1 l1] obtain w2
    where d: "disconnect_push_consumer E (?p1, w1) =
        (None, ?p1\<lparr>pp_connections := smap_erase oid (pp_connections ?p1)\<rparr>, w2)"
      and l2: "w_log w2 = Some ((concat (map rec_text rs) @ proxy_enter ?k ?v) @ proxy_leave ?k)"
      and r2: "own_refs w2 = (own_refs w1)(cn_addr ?c := own_refs w1 (cn_addr ?c) - 1)" by auto
  have p: "?p1\<lparr>pp_connections := smap_erase oid (pp_connections ?p1)\<rparr> = p"
    by (simp add: smap_erase_set_new [OF assms(2)])
  have v: "proxy_val_ok ?v" using assms(6) by (simp add: proxy_val_ok_def)
  have "connect_push_supplier E (Some s') (?p1, w1) = (Some AlreadyConnected, ?p1, w1)"
    using m1 by (simp add: connect_push_supplier_def currentObjectId_ok [OF assms(1)])
  moreover have "own_refs w2 = own_refs w" using r1 r2 by (auto simp: Connection_def)
  ultimately show ?thesis
    using c1 l1 d [unfolded p] l2 pj.journal_found [OF assms(5) v assms(4)]
      pj.journal_enter_leave [OF assms(5) v assms(4)]
    by (auto simp: proxy_attrs_def)
qed

end
