(* ===== verification/Proxy_Pull_Consumer.thy ===== *)
theory Proxy_Pull_Consumer
  imports Proxy_Manager
begin

text \<open>
  \<^verbatim>\<open>ProxyPullConsumer.h\<close> and \<^verbatim>\<open>ProxyPullConsumer.cc\<close>: the proxy that pulls events from a connected
  \<^verbatim>\<open>PullSupplier\<close>, alternating between \<^verbatim>\<open>pull()\<close> and \<^verbatim>\<open>try_pull()\<close> when it gets exceptions, and its
  manager. \<^verbatim>\<open>env_throws\<close> tells the two behaviours of \<^verbatim>\<open>Request::env()\<close> apart: omniORB 4.2 throws
  the exception of the request, earlier versions return it.
\<close>

datatype mode = Pull | TryPull

record pcs =
  pc_req :: "request option"
  pc_target :: "objref option"
  pc_mode :: mode
  pc_exceptionCount :: int

abbreviation pcs_name :: string where
  "pcs_name \<equiv> ''SupplierAdmin/ProxyPullConsumer''"

section \<open>ProxyPullConsumer_i\<close>

definition ProxyPullConsumer_i :: pcs where
  "ProxyPullConsumer_i = \<lparr>pc_req = None, pc_target = None, pc_mode = Pull, pc_exceptionCount = 0\<rparr>"

definition pcs_output :: "env \<Rightarrow> poaref \<Rightarrow> addr \<Rightarrow> pcs \<Rightarrow> world \<Rightarrow> outres \<times> world" where
  "pcs_output E P a p w = basicOutput E P a pcs_name (pc_target p) None w"

definition connect_pull_supplier :: "env \<Rightarrow> poaref \<Rightarrow> addr \<Rightarrow> objref option \<Rightarrow> pcs \<times> world
    \<Rightarrow> exn option \<times> pcs \<times> world" where
  "connect_pull_supplier E P a pullSupplier pw = (case pw of (p, w) \<Rightarrow>
     (case pullSupplier of
        None \<Rightarrow> (Some BAD_PARAM, p, w)
      | Some s \<Rightarrow>
          if pc_target p \<noteq> None \<or> pc_req p \<noteq> None then (Some AlreadyConnected, p, w)
          else (case log_write (pcs_output E P a (p\<lparr>pc_target := Some s\<rparr>)) w of (ex, w1) \<Rightarrow>
                  (ex, p\<lparr>pc_target := Some s\<rparr>, w1))))"

definition disconnect_pull_consumer :: "env \<Rightarrow> poaref \<Rightarrow> addr \<Rightarrow> pcs \<times> world \<Rightarrow> exn option \<times> pcs \<times> world"
where
  "disconnect_pull_consumer E P a pw = (case pw of (p, w) \<Rightarrow>
     (case close_proxy E P a pcs_name w of
        (Some e, w1) \<Rightarrow> (Some e, p, w1)
      | (None, w1) \<Rightarrow>
          (case pc_target p of
             None \<Rightarrow> (Some OBJECT_NOT_EXIST, p, w1)
           | Some t \<Rightarrow>
               (case send_deferred t ''disconnect_pull_supplier'' [] w1 of (r, w2) \<Rightarrow>
                  (None, p\<lparr>pc_target := None\<rparr>, deferredRequest r None w2)))))"

definition other_mode :: "mode \<Rightarrow> mode" where
  "other_mode m = (if m = Pull then TryPull else Pull)"

text \<open>
  The branch of \<^verbatim>\<open>collect\<close> for a request that ended with an exception. With the fourth
  exception in a row the connection is closed; \<^verbatim>\<open>_target\<close> may be nil then, when the consumer was
  disconnected while the request was outstanding, and is used all the same.
\<close>

definition pcs_exception :: "env \<Rightarrow> poaref \<Rightarrow> addr \<Rightarrow> string \<Rightarrow> pcs \<Rightarrow> world \<Rightarrow> exn option \<times> pcs \<times> world" where
  "pcs_exception E P a opname p w =
     (let p1 = (if opname = ''pull'' \<or> opname = ''try_pull''
                then p\<lparr>pc_exceptionCount := pc_exceptionCount p + 1, pc_mode := other_mode (pc_mode p)\<rparr>
                else p)
      in if pc_exceptionCount p1 \<ge> 4
         then (case pc_target p1 of
                 None \<Rightarrow> (Some (SystemOther ''INV_OBJREF''), p1, orb_call (ReportFailure []) w)
               | Some t \<Rightarrow>
                   (case send_deferred t ''disconnect_pull_supplier'' []
                           (orb_call (ReportFailure (env_object_to_string E t)) w) of (r, w1) \<Rightarrow>
                    case close_proxy E P a pcs_name (deferredRequest r None w1) of
                      (Some e, w2) \<Rightarrow> (Some e, p1\<lparr>pc_target := None\<rparr>, w2)
                    | (None, w2) \<Rightarrow> (None, p1\<lparr>pc_target := None, pc_req := None\<rparr>, w2)))
         else (None, p1\<lparr>pc_req := None\<rparr>, w))"

definition has_event :: "string \<Rightarrow> (string \<times> any) list \<Rightarrow> bool" where
  "has_event opname args =
     (if opname = ''pull'' then True
      else if opname = ''try_pull''
      then (case args of
              [(name, v)] \<Rightarrow> name = ''has_event'' \<and> any_boolean v = Some True
            | _ \<Rightarrow> False)
      else False)"

text \<open>\<^verbatim>\<open>return_value() >>= (*event)\<close> leaves the new event empty when the result is no any.\<close>

definition event_of :: "any \<Rightarrow> any" where
  "event_of v = (case any_any v of Some e \<Rightarrow> e | None \<Rightarrow> empty_any)"

definition pcs_collect :: "env \<Rightarrow> poaref \<Rightarrow> addr \<Rightarrow> pcs \<times> any list \<times> world
    \<Rightarrow> exn option \<times> pcs \<times> any list \<times> world" where
  "pcs_collect E P a s = (case s of (p, lq, w) \<Rightarrow>
     (case pc_req p of
        None \<Rightarrow> (None, p, lq, w)
      | Some r \<Rightarrow>
          (case poll_response E r w of (rsp, w1) \<Rightarrow>
             (case rsp of
                Pending \<Rightarrow> (None, p, lq, w1)
              | Raised e \<Rightarrow>
                  if env_throws E then (Some e, p, lq, w1)
                  else (case pcs_exception E P a (req_op r) p w1 of (ex, p1, w2) \<Rightarrow> (ex, p1, lq, w2))
              | Reply v args \<Rightarrow>
                  (None, p\<lparr>pc_exceptionCount := 0, pc_req := None\<rparr>,
                   if has_event (req_op r) args then lq @ [event_of v] else lq, w1)))))"

definition pcs_triggerRequest :: "pcs \<times> world \<Rightarrow> pcs \<times> world" where
  "pcs_triggerRequest pw = (case pw of (p, w) \<Rightarrow>
     (case (pc_req p, pc_target p) of
        (None, Some t) \<Rightarrow>
          (case (case pc_mode p of
                   Pull \<Rightarrow> send_deferred t ''pull'' [] w
                 | TryPull \<Rightarrow> send_deferred t ''try_pull'' [Any tk_boolean [] (VBool True)] w) of (r, w1) \<Rightarrow>
             (p\<lparr>pc_req := Some r\<rparr>, w1))
      | _ \<Rightarrow> (p, w)))"

definition pcs_reincarnate :: "env \<Rightarrow> poaref \<Rightarrow> addr \<Rightarrow> string \<Rightarrow> pnode \<Rightarrow> pcs \<times> world
    \<Rightarrow> exn option \<times> pcs \<times> world" where
  "pcs_reincarnate E P a oid node pw = (case pw of (p, w) \<Rightarrow>
     (case string_to E (attrString ''IOR'' [] node) of
        Inl e \<Rightarrow> (Some e, p, w)
      | Inr s \<Rightarrow>
          (case activateObjectWithId E (pr_name P) oid a w of
             (Some e, w1) \<Rightarrow> (Some e, p, w1)
           | (None, w1) \<Rightarrow> connect_pull_supplier E P a (Some s) (p, w1))))"

section \<open>ProxyPullConsumerManager\<close>

type_synonym pcs_mgr = "pcs manager"

definition ProxyPullConsumerManager :: "poaref \<Rightarrow> pcs_mgr" where
  "ProxyPullConsumerManager P = \<lparr>mg_servants = [], mg_poa = P\<rparr>"

definition pcs_incarnate :: "env \<Rightarrow> pcs_mgr \<times> world \<Rightarrow> (exn + addr) \<times> pcs_mgr \<times> world" where
  "pcs_incarnate E mw = (case mw of (m, w) \<Rightarrow>
     (let a = env_alloc E (w_trace w) in (Inr a, mg_insert a ProxyPullConsumer_i m, w)))"

definition pcs_mgr_reincarnate :: "env \<Rightarrow> pnode \<Rightarrow> pcs_mgr \<times> world \<Rightarrow> exn option \<times> pcs_mgr \<times> world" where
  "pcs_mgr_reincarnate E node =
     mg_reincarnate (pcs_incarnate E)
       (\<lambda>a oid child mw. mg_at a (pcs_reincarnate E (mg_poa (fst mw)) a oid child) mw)
       (mg_etherealize pc_req) (pn_child node)"

definition pcs_createObject :: "env \<Rightarrow> pcs_mgr \<Rightarrow> world \<Rightarrow> (exn + objref) \<times> world" where
  "pcs_createObject E m w = createReference E (pr_name (mg_poa m)) w"

fun pcs_collect_all :: "env \<Rightarrow> poaref \<Rightarrow> (addr, pcs) smap \<Rightarrow> any list \<times> world
    \<Rightarrow> exn option \<times> (addr, pcs) smap \<times> any list \<times> world" where
  "pcs_collect_all E P [] lw = (None, [], lw)"
| "pcs_collect_all E P ((a, p) # ps) lw =
     (case pcs_collect E P a (p, lw) of
        (Some e, p1, lw1) \<Rightarrow> (Some e, (a, p1) # ps, lw1)
      | (None, p1, lw1) \<Rightarrow>
          (case pcs_collect_all E P ps lw1 of (ex, ps1, lw2) \<Rightarrow> (ex, (a, p1) # ps1, lw2)))"

fun pcs_trigger_all :: "(addr, pcs) smap \<Rightarrow> world \<Rightarrow> (addr, pcs) smap \<times> world" where
  "pcs_trigger_all [] w = ([], w)"
| "pcs_trigger_all ((a, p) # ps) w =
     (case pcs_triggerRequest (p, w) of (p1, w1) \<Rightarrow>
      case pcs_trigger_all ps w1 of (ps1, w2) \<Rightarrow> ((a, p1) # ps1, w2))"

fun pcs_disconnect_all :: "env \<Rightarrow> (addr, pcs) smap \<Rightarrow> world \<Rightarrow> exn option \<times> world" where
  "pcs_disconnect_all E [] w = (None, w)"
| "pcs_disconnect_all E ((a, p) # ps) w =
     (let obj = env_this E (w_trace w) a;
          w1 = orb_call (RemoteCall obj ''disconnect_pull_consumer'') w
      in case env_remote E (w_trace w) obj ''disconnect_pull_consumer'' of
           Some e \<Rightarrow> (Some e, w1)
         | None \<Rightarrow> pcs_disconnect_all E ps w1)"

section \<open>A supplier that fails\<close>

text \<open>One round of the channel for one proxy: a request is sent and its response collected.\<close>

definition pcs_round :: "env \<Rightarrow> poaref \<Rightarrow> addr \<Rightarrow> pcs \<times> any list \<times> world \<Rightarrow> exn option \<times> pcs \<times> any list \<times> world"
where
  "pcs_round E P a s = (case s of (p, lq, w) \<Rightarrow>
     (case pcs_triggerRequest (p, w) of (p1, w1) \<Rightarrow> pcs_collect E P a (p1, lq, w1)))"

fun pcs_rounds :: "env \<Rightarrow> poaref \<Rightarrow> addr \<Rightarrow> nat \<Rightarrow> pcs \<times> any list \<times> world \<Rightarrow> pcs \<times> any list \<times> world" where
  "pcs_rounds E P a 0 s = s"
| "pcs_rounds E P a (Suc n) s = pcs_rounds E P a n (snd (pcs_round E P a s))"

definition failing :: "env \<Rightarrow> bool" where
  "failing E \<longleftrightarrow> \<not> env_throws E \<and> (\<forall>tr r. \<exists>e. env_poll E tr r = Raised e)"

definition mode_op :: "mode \<Rightarrow> string" where
  "mode_op m = (case m of Pull \<Rightarrow> ''pull'' | TryPull \<Rightarrow> ''try_pull'')"

lemma failing_round:
  assumes "failing E" and "pc_target p = Some t" and "pc_req p = None" and "pc_exceptionCount p + 1 < 4"
  shows "\<exists>w'. pcs_round E P a (p, lq, w) =
      (None, p\<lparr>pc_exceptionCount := pc_exceptionCount p + 1, pc_mode := other_mode (pc_mode p)\<rparr>, lq, w') \<and>
    map req_op (sent (w_trace w')) = map req_op (sent (w_trace w)) @ [mode_op (pc_mode p)] \<and> w_log w' = w_log w"
proof -
  obtain f where f: "env_poll E tr r = Raised (f tr r)" for tr r using assms(1) unfolding failing_def by metis
  have "\<not> env_throws E" using assms(1) by (simp add: failing_def)
  then show ?thesis using assms(2-4)
    by (cases "pc_mode p") (auto simp: pcs_round_def pcs_triggerRequest_def pcs_collect_def poll_response_def f
        pcs_exception_def send_deferred_def Let_def mode_op_def other_mode_def)
qed

lemma failing_last_round:
  assumes "failing E" and "pc_target p = Some t" and "pc_req p = None" and "pc_exceptionCount p = 3"
    and "poa_knows E P a oid" and "w_log w = Some txt"
  shows "\<exists>p' w'. pcs_round E P a (p, lq, w) = (None, p', lq, w') \<and> pc_target p' = None \<and> pc_req p' = None \<and>
    map req_op (sent (w_trace w')) = map req_op (sent (w_trace w)) @ [mode_op (pc_mode p), ''disconnect_pull_supplier''] \<and>
    w_log w' = Some (txt @ proxy_leave (pr_parent P, pcs_name, oid))"
proof -
  obtain f where f: "env_poll E tr r = Raised (f tr r)" for tr r using assms(1) unfolding failing_def by metis
  have nt: "\<not> env_throws E" using assms(1) by (simp add: failing_def)
  define r where "r = fst (send_deferred t (mode_op (pc_mode p))
      (if pc_mode p = Pull then [] else [Any tk_boolean [] (VBool True)]) w)"
  define w1 where "w1 = orb_call (ReportFailure (env_object_to_string E t)) (orb_call (PollResponse r) (orb_call (SendDeferred r) w))"
  define d where "d = Request (length (w_trace w1)) t ''disconnect_pull_supplier'' []"
  let ?c = "close_proxy E P a pcs_name (deferredRequest d None (orb_call (SendDeferred d) w1))"
  have l: "w_log (deferredRequest d None (orb_call (SendDeferred d) w1)) = Some txt"
    using assms(6) by (simp add: w1_def)
  note c = close_proxy_ok [OF assms(5) l, of pcs_name]
  have "pcs_round E P a (p, lq, w) = (None, p\<lparr>pc_exceptionCount := 4, pc_mode := other_mode (pc_mode p),
      pc_target := None, pc_req := None\<rparr>, lq, snd ?c)"
    using assms(2-4) nt c
    by (cases "pc_mode p"; cases ?c) (auto simp: pcs_round_def pcs_triggerRequest_def pcs_collect_def poll_response_def f
        pcs_exception_def send_deferred_def Let_def mode_op_def other_mode_def r_def w1_def d_def)
  moreover have "map req_op (sent (w_trace (snd ?c))) =
      map req_op (sent (w_trace w)) @ [mode_op (pc_mode p), ''disconnect_pull_supplier'']"
    by (simp add: w1_def d_def r_def)
  ultimately show ?thesis using c by auto
qed



end
