(* ===== verification/Supplier_Admin.thy ===== *)
theory Supplier_Admin
  imports Proxy_Push_Consumer Proxy_Pull_Consumer
begin

text \<open>
  \<^verbatim>\<open>SupplierAdmin.h\<close> and \<^verbatim>\<open>SupplierAdmin.cc\<close>: the administrator that owns the incoming queue of a
  channel, the push consumer and the manager of the pull consumers, and decides when the pull
  consumers ask their suppliers again. The loop that computes the next time of a pull ends
  only if the retry period is positive, so it is a partial function: \<open>None\<close> is a loop that
  does not end.
\<close>

definition MILLION :: nat where "MILLION = 1000000"
definition BILLION :: nat where "BILLION = 1000000000"

type_synonym timeval = "nat \<times> nat"

definition tv_le :: "timeval \<Rightarrow> timeval \<Rightarrow> bool" where
  "tv_le a b \<longleftrightarrow> fst a < fst b \<or> fst a = fst b \<and> snd a \<le> snd b"

section \<open>The schedule of the pulls\<close>

definition pull_step :: "nat \<Rightarrow> timeval \<Rightarrow> timeval" where
  "pull_step p np =
     (let nsec = snd np + (p mod 1000) * MILLION
      in (fst np + (p div 1000 + nsec div BILLION), nsec mod BILLION))"

partial_function (option) next_pull :: "nat \<Rightarrow> timeval \<Rightarrow> timeval \<Rightarrow> timeval option" where
  "next_pull p now np =
     (let np1 = pull_step p np in if tv_le np1 now then next_pull p now np1 else Some np1)"

text \<open>Time in nanoseconds.\<close>

definition tv_ns :: "timeval \<Rightarrow> nat" where
  "tv_ns t = fst t * BILLION + snd t"

definition tv_norm :: "timeval \<Rightarrow> bool" where
  "tv_norm t \<longleftrightarrow> snd t < BILLION"

lemma tv_ns_less: "tv_norm a \<Longrightarrow> fst a < fst b \<Longrightarrow> tv_ns a < tv_ns b"
proof -
  assume n: "tv_norm a" and l: "fst a < fst b"
  have "tv_ns a < Suc (fst a) * BILLION" using n by (simp add: tv_ns_def tv_norm_def)
  also have "\<dots> \<le> fst b * BILLION" using l by (simp add: mult_le_mono1 del: mult_Suc)
  also have "\<dots> \<le> tv_ns b" by (simp add: tv_ns_def)
  finally show ?thesis .
qed

lemma tv_le_ns: "tv_norm a \<Longrightarrow> tv_norm b \<Longrightarrow> tv_le a b \<longleftrightarrow> tv_ns a \<le> tv_ns b"
  using tv_ns_less [of a b] tv_ns_less [of b a]
  by (cases "fst a" "fst b" rule: linorder_cases) (auto simp: tv_le_def tv_ns_def)

lemma pull_step_ns: "tv_ns (pull_step p np) = tv_ns np + p * MILLION"
proof -
  let ?n = "snd np + (p mod 1000) * MILLION"
  have "?n div BILLION * BILLION + ?n mod BILLION = ?n" by simp
  moreover have "p div 1000 * BILLION + (p mod 1000) * MILLION = p * MILLION"
  proof -
    have "p div 1000 * BILLION = p div 1000 * 1000 * MILLION" by (simp add: BILLION_def MILLION_def)
    then show ?thesis by (metis add_mult_distrib div_mult_mod_eq)
  qed
  moreover have "tv_ns (pull_step p np) =
      fst np * BILLION + p div 1000 * BILLION + (?n div BILLION * BILLION + ?n mod BILLION)"
    by (simp only: tv_ns_def pull_step_def Let_def fst_conv snd_conv add_mult_distrib add.assoc)
  ultimately show ?thesis unfolding tv_ns_def by linarith
qed

lemma pull_step_norm: "tv_norm (pull_step p np)"
  by (simp add: tv_norm_def pull_step_def Let_def BILLION_def)

lemma next_pull_zero:
  assumes "tv_norm np" and "tv_le np t"
  shows "next_pull 0 t np = None"
proof -
  have stay: "pull_step 0 np = np" using assms(1)
    by (cases np) (simp add: pull_step_def tv_norm_def Let_def)
  have "p' = 0 \<longrightarrow> a = t \<longrightarrow> b = np \<longrightarrow> False" if "next_pull p' a b = Some y" for p' a b y
    using that
  proof (rule next_pull.raw_induct [where P = "\<lambda>p' a b y. p' = 0 \<longrightarrow> a = t \<longrightarrow> b = np \<longrightarrow> False", rotated])
    fix f p' a b y
    assume ih: "\<And>p' a b y. f p' a b = Some y \<Longrightarrow> p' = 0 \<longrightarrow> a = t \<longrightarrow> b = np \<longrightarrow> False"
      and eq: "(let np1 = pull_step p' b in if tv_le np1 a then f p' a np1 else Some np1) = Some y"
    show "p' = 0 \<longrightarrow> a = t \<longrightarrow> b = np \<longrightarrow> False"
    proof (intro impI)
      assume "p' = 0" "a = t" "b = np"
      then have "f 0 t np = Some y" using eq stay assms(2) by (simp add: Let_def)
      then show False using ih by blast
    qed
  qed
  then have "next_pull 0 t np \<noteq> Some y" for y by blast
  then show ?thesis by (rule not_Some_eq [THEN iffD1, OF allI])
qed

lemma next_pull_lands:
  assumes p: "0 < p" and "tv_norm np" and "tv_norm t" and "tv_le np t"
  shows "\<exists>np' k. next_pull p t np = Some np' \<and> tv_norm np' \<and> tv_ns np' = tv_ns np + k * (p * MILLION) \<and>
      tv_ns t < tv_ns np' \<and> tv_ns np' \<le> tv_ns t + p * MILLION"
  using assms(2-)
proof (induction "tv_ns t - tv_ns np" arbitrary: np rule: less_induct)
  case less
  let ?np = "pull_step p np"
  have pos: "0 < p * MILLION" using p by (simp add: MILLION_def)
  have le: "tv_ns np \<le> tv_ns t" using less.prems tv_le_ns by blast
  show ?case
  proof (cases "tv_le ?np t")
    case True
    then have "tv_ns ?np \<le> tv_ns t" using tv_le_ns [OF pull_step_norm less.prems(2)] by blast
    then have "tv_ns t - tv_ns ?np < tv_ns t - tv_ns np" using pos pull_step_ns [of p np] by linarith
    from less.hyps [OF this pull_step_norm less.prems(2) True] obtain np' k
      where h: "next_pull p t ?np = Some np'" "tv_norm np'" "tv_ns np' = tv_ns ?np + k * (p * MILLION)"
        "tv_ns t < tv_ns np'" "tv_ns np' \<le> tv_ns t + p * MILLION" by blast
    have "next_pull p t np = Some np'" using True h(1) by (subst next_pull.simps) simp
    moreover have "tv_ns np' = tv_ns np + Suc k * (p * MILLION)" using h(3) pull_step_ns [of p np] by simp
    ultimately show ?thesis using h by blast
  next
    case False
    then have "tv_ns t < tv_ns ?np" using tv_le_ns [OF pull_step_norm less.prems(2)] by simp
    moreover have "next_pull p t np = Some ?np" using False by (subst next_pull.simps) simp
    moreover have "tv_ns ?np \<le> tv_ns t + p * MILLION" "tv_ns ?np = tv_ns np + 1 * (p * MILLION)"
      using le pull_step_ns [of p np] by simp_all
    ultimately show ?thesis using pull_step_norm by blast
  qed
qed

text \<open>
  The next pull. If the retry period is positive the loop of \<^verbatim>\<open>collect()\<close> ends, and the new
  time of the next pull is the first one of the schedule, in steps of the period from the old
  time, that lies after the present moment. With a period of zero it does not end.
\<close>

lemma next_pull_first_slot:
  assumes "tv_norm np" and "tv_norm t" and "tv_le np t"
  shows "if p = 0 then next_pull p t np = None
    else \<exists>np' k. next_pull p t np = Some np' \<and> tv_ns np' = tv_ns np + k * (p * MILLION) \<and>
      tv_ns t < tv_ns np' \<and> tv_ns np' \<le> tv_ns t + p * MILLION"
proof (cases "p = 0")
  case True
  then show ?thesis using next_pull_zero [OF assms(1,3)] by simp
next
  case False
  then show ?thesis using next_pull_lands [of p np t] assms by auto
qed

section \<open>SupplierAdmin_i\<close>

record supplier_admin =
  sa_props :: pnode
  sa_poa :: string
  sa_push :: ppc
  sa_pull :: "pcs_mgr option"
  sa_queue :: "any list"
  sa_nextPull :: timeval

text \<open>The constructor. The next pull is left at (0,0) when every cycle is to pull.\<close>

definition SupplierAdmin_i :: "env \<Rightarrow> pnode \<Rightarrow> string \<Rightarrow> addr \<Rightarrow> world \<Rightarrow> (exn + supplier_admin) \<times> world" where
  "SupplierAdmin_i E props poa self w =
     (let timed = unat (pullRetryPeriod_ms props) > unat (cyclePeriod_ns props) div MILLION;
          np = (if timed then env_time E (w_trace w) else (0, 0));
          w1 = (if timed then orb_call GetTime w else w)
      in case ProxyPushConsumer_i E poa (env_alloc E (w_trace w1)) w1 of
           (Inl e, w2) \<Rightarrow> (Inl e, w2)
         | (Inr pp, w2) \<Rightarrow>
             (case activateObjectWithId E poa ''SupplierAdmin'' self w2 of
                (Some e, w3) \<Rightarrow> (Inl e, w3)
              | (None, w3) \<Rightarrow>
                  (Inr \<lparr>sa_props = props, sa_poa = poa, sa_push = pp, sa_pull = None, sa_queue = [],
                        sa_nextPull = np\<rparr>, w3)))"

definition sa_pull_manager :: "env \<Rightarrow> supplier_admin \<times> world \<Rightarrow> (exn + pcs_mgr) \<times> world" where
  "sa_pull_manager E sw = (case sw of (sa, w) \<Rightarrow>
     (case mg_activate E (sa_poa sa) ''ProxyPullConsumer'' (env_alloc E (w_trace w)) w of
        (Inl e, w1) \<Rightarrow> (Inl e, w1)
      | (Inr P, w1) \<Rightarrow> (Inr (ProxyPullConsumerManager P), w1)))"

definition obtain_push_consumer :: "env \<Rightarrow> supplier_admin \<times> world \<Rightarrow> (exn + objref) \<times> supplier_admin \<times> world"
where
  "obtain_push_consumer E sw = (case sw of (sa, w) \<Rightarrow>
     (case ppc_createObject E (sa_push sa) w of (r, w1) \<Rightarrow> (r, sa, w1)))"

definition obtain_pull_consumer :: "env \<Rightarrow> supplier_admin \<times> world \<Rightarrow> (exn + objref) \<times> supplier_admin \<times> world"
where
  "obtain_pull_consumer E sw = (case sw of (sa, w) \<Rightarrow>
     (case sa_pull sa of
        Some m \<Rightarrow> (case pcs_createObject E m w of (r, w1) \<Rightarrow> (r, sa, w1))
      | None \<Rightarrow>
          (case sa_pull_manager E (sa, w) of
             (Inl e, w1) \<Rightarrow> (Inl e, sa, w1)
           | (Inr m, w1) \<Rightarrow>
               (case pcs_createObject E m w1 of (r, w2) \<Rightarrow> (r, sa\<lparr>sa_pull := Some m\<rparr>, w2)))))"

definition sa_destroy :: "supplier_admin \<times> world \<Rightarrow> any list \<times> supplier_admin \<times> world" where
  "sa_destroy sw = (case sw of (sa, w) \<Rightarrow>
     (sa_queue sa, sa\<lparr>sa_pull := None, sa_queue := []\<rparr>, ppc_destroy (sa_push sa) w))"

text \<open>
  The part of \<^verbatim>\<open>collect\<close> about the pull consumers: collect their responses, and send new
  requests when the time has come. \<open>None\<close>: the loop over the schedule does not end.
\<close>

definition sa_collect_pull :: "env \<Rightarrow> pcs_mgr \<Rightarrow> supplier_admin \<times> world
    \<Rightarrow> (exn option \<times> supplier_admin \<times> world) option" where
  "sa_collect_pull E m sw = (case sw of (sa, w) \<Rightarrow>
     (case pcs_collect_all E (mg_poa m) (mg_servants m) (sa_queue sa, w) of (ex, ps, lq, w1) \<Rightarrow>
        (let sa1 = sa\<lparr>sa_pull := Some (m\<lparr>mg_servants := ps\<rparr>), sa_queue := lq\<rparr>
         in if ex \<noteq> None then Some (ex, sa1, w1)
            else if fst (sa_nextPull sa) = 0
            then (case pcs_trigger_all ps w1 of (ps2, w2) \<Rightarrow>
                    Some (None, sa1\<lparr>sa_pull := Some (m\<lparr>mg_servants := ps2\<rparr>)\<rparr>, w2))
            else
              (let t = env_time E (w_trace w1); w2 = orb_call GetTime w1
               in if tv_le (sa_nextPull sa) t
                  then (case pcs_trigger_all ps w2 of (ps2, w3) \<Rightarrow>
                          map_option (\<lambda>np. (None, sa1\<lparr>sa_pull := Some (m\<lparr>mg_servants := ps2\<rparr>), sa_nextPull := np\<rparr>, w3))
                            (next_pull (unat (pullRetryPeriod_ms (sa_props sa))) t (sa_nextPull sa)))
                  else Some (None, sa1, w2)))))"

definition sa_collect :: "env \<Rightarrow> supplier_admin \<times> world \<Rightarrow> (exn option \<times> any list \<times> supplier_admin \<times> world) option"
where
  "sa_collect E sw =
     (case (case sa_pull (fst sw) of None \<Rightarrow> Some (None, sw) | Some m \<Rightarrow> sa_collect_pull E m sw) of
        None \<Rightarrow> None
      | Some (Some e, sa, w) \<Rightarrow> Some (Some e, [], sa, w)
      | Some (None, sa, w) \<Rightarrow>
          Some (None, sa_queue sa, sa\<lparr>sa_push := ppc_trigger (sa_push sa), sa_queue := []\<rparr>, w))"

definition sa_disconnect :: "env \<Rightarrow> supplier_admin \<times> world \<Rightarrow> exn option \<times> supplier_admin \<times> world" where
  "sa_disconnect E sw = (case sw of (sa, w) \<Rightarrow>
     (case ppc_disconnect (sa_push sa, w) of (pp, w1) \<Rightarrow>
      case (case sa_pull sa of None \<Rightarrow> (None, w1) | Some m \<Rightarrow> pcs_disconnect_all E (mg_servants m) w1) of (ex, w2) \<Rightarrow>
        (ex, sa\<lparr>sa_push := pp\<rparr>, w2)))"

definition sa_reincarnate_push :: "env \<Rightarrow> pnode \<Rightarrow> supplier_admin \<times> world \<Rightarrow> exn option \<times> supplier_admin \<times> world"
where
  "sa_reincarnate_push E node sw = (case sw of (sa, w) \<Rightarrow>
     (case child_with ''ProxyPushConsumer'' node of
        None \<Rightarrow> (None, sa, w)
      | Some c \<Rightarrow> (case ppc_reincarnate E (pn_child c) (sa_push sa, w) of (ex, pp, w1) \<Rightarrow>
                    (ex, sa\<lparr>sa_push := pp\<rparr>, w1))))"

definition sa_reincarnate_pull :: "env \<Rightarrow> pnode \<Rightarrow> supplier_admin \<times> world \<Rightarrow> exn option \<times> supplier_admin \<times> world"
where
  "sa_reincarnate_pull E node sw = (case sw of (sa, w) \<Rightarrow>
     (case child_with ''ProxyPullConsumer'' node of
        None \<Rightarrow> (None, sa, w)
      | Some c \<Rightarrow>
          (case (case sa_pull sa of Some m \<Rightarrow> (Inr m, w) | None \<Rightarrow> sa_pull_manager E (sa, w)) of
             (Inl e, w1) \<Rightarrow> (Some e, sa, w1)
           | (Inr m, w1) \<Rightarrow>
               (case pcs_mgr_reincarnate E c (m, w1) of (ex, m1, w2) \<Rightarrow> (ex, sa\<lparr>sa_pull := Some m1\<rparr>, w2)))))"

definition sa_reincarnate :: "env \<Rightarrow> pnode \<Rightarrow> supplier_admin \<times> world \<Rightarrow> exn option \<times> supplier_admin \<times> world" where
  "sa_reincarnate E node sw = then_do (sa_reincarnate_push E node sw) (sa_reincarnate_pull E node)"

definition sa_output :: "env \<Rightarrow> supplier_admin \<Rightarrow> world \<Rightarrow> outres \<times> world" where
  "sa_output E sa w =
     out_then ((ppc_output (sa_push sa), None), w)
       (\<lambda>w1. case sa_pull sa of None \<Rightarrow> (([], None), w1)
               | Some m \<Rightarrow> mg_output (pcs_output E (mg_poa m)) (mg_servants m) w1)"

definition sa_queueLength :: "supplier_admin \<Rightarrow> nat" where
  "sa_queueLength sa = length (sa_queue sa)"

section \<open>The administrator never hangs\<close>

text \<open>
  The loop over the schedule is entered only with a positive retry period: the constructor
  starts a schedule only if the retry period exceeds the period of the cycle.
\<close>

definition sa_sched :: "supplier_admin \<Rightarrow> bool" where
  "sa_sched sa \<longleftrightarrow> fst (sa_nextPull sa) = 0 \<or>
     0 < unat (pullRetryPeriod_ms (sa_props sa)) \<and> tv_norm (sa_nextPull sa)"

definition clock_ok :: "env \<Rightarrow> bool" where
  "clock_ok E \<longleftrightarrow> (\<forall>tr. tv_norm (env_time E tr))"

lemma SupplierAdmin_i_sched:
  assumes "clock_ok E" and "SupplierAdmin_i E props poa self w = (Inr sa, w1)"
  shows "sa_sched sa"
  using assms
  by (auto simp: SupplierAdmin_i_def Let_def sa_sched_def clock_ok_def split: prod.splits sum.splits option.splits if_splits)

lemma sa_collect_pull_sched:
  assumes "clock_ok E" and "sa_sched sa"
  shows "\<exists>ex sa' w'. sa_collect_pull E m (sa, w) = Some (ex, sa', w') \<and> sa_sched sa'"
proof -
  obtain ex ps lq w1 where c: "pcs_collect_all E (mg_poa m) (mg_servants m) (sa_queue sa, w) = (ex, ps, lq, w1)"
    by (metis prod_cases4)
  let ?t = "env_time E (w_trace w1)"
  obtain ps2 w3 where t: "pcs_trigger_all ps (orb_call GetTime w1) = (ps2, w3)" by (metis surj_pair)
  obtain ps4 w4 where u: "pcs_trigger_all ps w1 = (ps4, w4)" by (metis surj_pair)
  note eval = sa_collect_pull_def Let_def c t u
  show ?thesis
  proof (cases "ex = None \<and> fst (sa_nextPull sa) \<noteq> 0 \<and> tv_le (sa_nextPull sa) ?t")
    case True
    then have p: "0 < unat (pullRetryPeriod_ms (sa_props sa))" and n: "tv_norm (sa_nextPull sa)"
      using assms(2) by (auto simp: sa_sched_def)
    have "tv_norm ?t" using assms(1) by (simp add: clock_ok_def)
    from next_pull_lands [OF p n this] True obtain np' where
      "next_pull (unat (pullRetryPeriod_ms (sa_props sa))) ?t (sa_nextPull sa) = Some np'" "tv_norm np'" by blast
    then show ?thesis using True p by (simp add: eval sa_sched_def)
  next
    case False
    then consider "ex \<noteq> None" | "ex = None" "fst (sa_nextPull sa) = 0"
      | "ex = None" "fst (sa_nextPull sa) \<noteq> 0" "\<not> tv_le (sa_nextPull sa) ?t" by metis
    then show ?thesis using assms(2) by cases (simp_all add: eval sa_sched_def)
  qed
qed

lemma sa_collect_sched:
  assumes "clock_ok E" and "sa_sched sa"
  shows "\<exists>ex evs sa' w'. sa_collect E (sa, w) = Some (ex, evs, sa', w') \<and> sa_sched sa'"
proof -
  obtain ex sa1 w1 where h:
    "(case sa_pull sa of None \<Rightarrow> Some (None, (sa, w)) | Some m \<Rightarrow> sa_collect_pull E m (sa, w)) = Some (ex, sa1, w1)"
    "sa_sched sa1"
  proof (cases "sa_pull sa")
    case None
    then show ?thesis using that assms(2) by simp
  next
    case (Some m)
    then show ?thesis using that sa_collect_pull_sched [OF assms, of m w] by auto
  qed
  then show ?thesis by (cases ex) (simp_all add: sa_collect_def sa_sched_def)
qed

datatype sa_op = Collect | Enqueue any | ObtainPush | ObtainPull | Disconnect | Reincarnate pnode

fun sa_run :: "env \<Rightarrow> sa_op list \<Rightarrow> supplier_admin \<times> world \<Rightarrow> (supplier_admin \<times> world) option" where
  "sa_run E [] sw = Some sw"
| "sa_run E (Collect # ops) sw = (case sa_collect E sw of
      None \<Rightarrow> None | Some (_, _, sw1) \<Rightarrow> sa_run E ops sw1)"
| "sa_run E (Enqueue v # ops) sw = sa_run E ops ((fst sw)\<lparr>sa_queue := sa_queue (fst sw) @ [v]\<rparr>, snd sw)"
| "sa_run E (ObtainPush # ops) sw = sa_run E ops (snd (obtain_push_consumer E sw))"
| "sa_run E (ObtainPull # ops) sw = sa_run E ops (snd (obtain_pull_consumer E sw))"
| "sa_run E (Disconnect # ops) sw = sa_run E ops (snd (sa_disconnect E sw))"
| "sa_run E (Reincarnate n # ops) sw = sa_run E ops (snd (sa_reincarnate E n sw))"

lemma sa_same_schedule:
  "sa_sched (fst (snd (obtain_push_consumer E (sa, w)))) = sa_sched sa"
  "sa_sched (fst (snd (obtain_pull_consumer E (sa, w)))) = sa_sched sa"
  "sa_sched (fst (snd (sa_disconnect E (sa, w)))) = sa_sched sa"
  "sa_sched (fst (snd (sa_reincarnate_push E n (sa, w)))) = sa_sched sa"
  "sa_sched (fst (snd (sa_reincarnate_pull E n (sa, w)))) = sa_sched sa"
  by (simp_all add: obtain_push_consumer_def obtain_pull_consumer_def sa_disconnect_def
      sa_reincarnate_push_def sa_reincarnate_pull_def sa_sched_def split: prod.splits sum.splits option.splits)

lemma sa_reincarnate_schedule: "sa_sched (fst (snd (sa_reincarnate E n (sa, w)))) = sa_sched sa"
proof -
  obtain ex sa1 w1 where h: "sa_reincarnate_push E n (sa, w) = (ex, sa1, w1)" by (metis prod_cases3)
  then show ?thesis using sa_same_schedule(4) [of E n sa w]
    by (cases ex) (simp_all add: sa_reincarnate_def then_do_def sa_same_schedule)
qed

lemma sa_keep_schedule:
  "sa_sched (fst (snd (obtain_push_consumer E sw))) = sa_sched (fst sw)"
  "sa_sched (fst (snd (obtain_pull_consumer E sw))) = sa_sched (fst sw)"
  "sa_sched (fst (snd (sa_disconnect E sw))) = sa_sched (fst sw)"
  "sa_sched (fst (snd (sa_reincarnate E n sw))) = sa_sched (fst sw)"
  by (cases sw; simp add: sa_same_schedule sa_reincarnate_schedule)+

lemma sa_run_returns:
  assumes "clock_ok E" and "sa_sched (fst sw)"
  shows "sa_run E ops sw \<noteq> None"
  using assms
proof (induction E ops sw rule: sa_run.induct)
  case (2 E ops sw)
  then obtain ex evs sa' w' where "sa_collect E sw = Some (ex, evs, sa', w')" "sa_sched sa'"
    using sa_collect_sched [of E "fst sw" "snd sw"] by auto
  then show ?case using 2 by simp
next
  case (3 E v ops sw)
  then show ?case by (simp add: sa_sched_def)
qed (simp_all add: sa_keep_schedule)



end
