(* ===== verification/Event_Channel.thy ===== *)
theory Event_Channel
  imports Supplier_Admin
begin

text \<open>
  \<^verbatim>\<open>EventChannel.h\<close>, \<^verbatim>\<open>EventChannel.cc\<close> and \<^verbatim>\<open>Mapper.h\<close>: a channel with its administrators, the
  transfer of events from the suppliers' side to the consumers' side, the life of its thread,
  and the store of channels. The steps of the thread and the calls of clients are atomic here,
  as they are in the program, whose POAs are single threaded and held during a transfer.
\<close>

section \<open>Mapper\<close>

text \<open>A servant in the INSPOA that forwards every call to the channel.\<close>

record mapper =
  mp_addr :: addr
  mp_id :: string
  mp_obj :: objref

abbreviation INSPOA :: string where "INSPOA \<equiv> ''omniINSPOA''"

definition Mapper :: "env \<Rightarrow> string \<Rightarrow> objref \<Rightarrow> world \<Rightarrow> (exn + mapper) \<times> world" where
  "Mapper E oid obj w =
     (let a = env_alloc E (w_trace w)
      in case activateObjectWithId E INSPOA oid a w of
           (Some e, w1) \<Rightarrow> (Inl e, w1)
         | (None, w1) \<Rightarrow> (Inr \<lparr>mp_addr = a, mp_id = oid, mp_obj = obj\<rparr>, w1))"

definition mapper_destroy :: "env \<Rightarrow> mapper \<Rightarrow> world \<Rightarrow> exn option \<times> world" where
  "mapper_destroy E m w = deactivateObject E INSPOA (mp_addr m) w"

datatype redirect = LOCATION_FORWARD objref

definition do_redir :: "mapper \<Rightarrow> redirect" where
  "do_redir m = LOCATION_FORWARD (mp_obj m)"

section \<open>EventChannel\<close>

record channel =
  ch_supplier :: "supplier_admin option"
  ch_consumer :: "consumer_admin option"
  ch_held :: bool
  ch_shutdown :: bool
  ch_props :: pnode
  ch_mapper :: "mapper option"
  ch_refCount :: int
  ch_name :: string
  ch_poa :: "string option"

definition EventChannel_i :: channel where
  "EventChannel_i = \<lparr>ch_supplier = None, ch_consumer = None, ch_held = False, ch_shutdown = False,
     ch_props = pn_empty, ch_mapper = None, ch_refCount = 1, ch_name = [], ch_poa = None\<rparr>"

definition channel_policies :: "policy list" where
  "channel_policies = [PERSISTENT, USER_ID, SINGLE_THREAD_MODEL]"

abbreviation RootPOA :: string where "RootPOA \<equiv> ''RootPOA''"

text \<open>A new POA manager starts in the holding state.\<close>

definition createPoa :: "env \<Rightarrow> string \<Rightarrow> channel \<times> world \<Rightarrow> exn option \<times> channel \<times> world" where
  "createPoa E name cw = (case cw of (c, w) \<Rightarrow>
     (let w1 = orb_call (PoaCreate RootPOA name channel_policies) w
      in case env_create_poa E (w_trace w) RootPOA name of
           Some e \<Rightarrow> (Some e, c, w1)
         | None \<Rightarrow> (None, c\<lparr>ch_poa := Some name, ch_held := True\<rparr>, w1)))"

definition setInsName :: "env \<Rightarrow> addr \<Rightarrow> string \<Rightarrow> channel \<times> world \<Rightarrow> exn option \<times> channel \<times> world" where
  "setInsName E self v cw = (case cw of (c, w) \<Rightarrow>
     (case (if v = [] then (Inr None, w)
            else case Mapper E v (env_this E (w_trace w) self) w of
                   (Inl e, w1) \<Rightarrow> (Inl e, w1) | (Inr m, w1) \<Rightarrow> (Inr (Some m), w1)) of
        (Inl e, w1) \<Rightarrow> (Some e, c, w1)
      | (Inr new, w1) \<Rightarrow>
          (case (case ch_mapper c of None \<Rightarrow> (None, w1) | Some old \<Rightarrow> mapper_destroy E old w1) of
             (Some e, w2) \<Rightarrow> (Some e, c, w2)
           | (None, w2) \<Rightarrow> (None, c\<lparr>ch_mapper := new\<rparr>, w2))))"

definition ch_add_ref :: "channel \<Rightarrow> channel" where
  "ch_add_ref c = c\<lparr>ch_refCount := ch_refCount c + 1\<rparr>"

definition ch_remove_ref :: "addr \<Rightarrow> channel \<times> world \<Rightarrow> channel \<times> world" where
  "ch_remove_ref self cw = (case cw of (c, w) \<Rightarrow>
     (let c1 = c\<lparr>ch_refCount := ch_refCount c - 1\<rparr>
      in (c1, if ch_refCount c1 = 0 then orb_call (Join self) w else w)))"

text \<open>
  \<^verbatim>\<open>activate\<close>, in the order of the source: the POA, the attributes of the node, the two
  administrators, their proxies from the node, the channel object itself (the POA takes a
  reference to it, the constructor's is dropped), the mapper. Then the thread is started.
\<close>

definition poa_name :: "channel \<Rightarrow> string" where
  "poa_name c = (case ch_poa c of None \<Rightarrow> [] | Some n \<Rightarrow> n)"

definition ch_make_admins :: "env \<Rightarrow> channel \<times> world \<Rightarrow> exn option \<times> channel \<times> world" where
  "ch_make_admins E cw = (case cw of (c, w) \<Rightarrow>
     (let poa = poa_name c
      in case ConsumerAdmin_i E (ch_props c) poa (env_alloc E (w_trace w)) w of
           (Inl e, w1) \<Rightarrow> (Some e, c, w1)
         | (Inr ca, w1) \<Rightarrow>
             (case SupplierAdmin_i E (ch_props c) poa (env_alloc E (w_trace w1)) w1 of
                (Inl e, w2) \<Rightarrow> (Some e, c\<lparr>ch_consumer := Some ca\<rparr>, w2)
              | (Inr sa, w2) \<Rightarrow> (None, c\<lparr>ch_consumer := Some ca, ch_supplier := Some sa\<rparr>, w2))))"

definition ch_reincarnate_supplier :: "env \<Rightarrow> pnode \<Rightarrow> channel \<times> world \<Rightarrow> exn option \<times> channel \<times> world" where
  "ch_reincarnate_supplier E node cw = (case cw of (c, w) \<Rightarrow>
     (case (child ''SupplierAdmin'' node, ch_supplier c) of
        (Some n, Some sa) \<Rightarrow>
          (case sa_reincarnate E n (sa, w) of (ex, sa1, w1) \<Rightarrow> (ex, c\<lparr>ch_supplier := Some sa1\<rparr>, w1))
      | _ \<Rightarrow> (None, c, w)))"

definition ch_reincarnate_consumer :: "env \<Rightarrow> pnode \<Rightarrow> channel \<times> world \<Rightarrow> exn option \<times> channel \<times> world" where
  "ch_reincarnate_consumer E node cw = (case cw of (c, w) \<Rightarrow>
     (case (child ''ConsumerAdmin'' node, ch_consumer c) of
        (Some n, Some ca) \<Rightarrow>
          (case ca_reincarnate E n (ca, w) of (ex, ca1, w1) \<Rightarrow> (ex, c\<lparr>ch_consumer := Some ca1\<rparr>, w1))
      | _ \<Rightarrow> (None, c, w)))"

definition ch_register :: "env \<Rightarrow> addr \<Rightarrow> channel \<times> world \<Rightarrow> exn option \<times> channel \<times> world" where
  "ch_register E self cw = (case cw of (c, w) \<Rightarrow>
     (case activateObjectWithId E (poa_name c) ''EventChannel'' self w of
        (Some e, w1) \<Rightarrow> (Some e, c, w1)
      | (None, w1) \<Rightarrow> (None, ch_remove_ref self (ch_add_ref c, w1))))"

definition ch_activate :: "env \<Rightarrow> addr \<Rightarrow> string \<Rightarrow> pnode option \<Rightarrow> channel \<times> world
    \<Rightarrow> exn option \<times> channel \<times> world" where
  "ch_activate E self channelName node cw =
     then_do (then_do (then_do (then_do (then_do
       (createPoa E channelName ((fst cw)\<lparr>ch_name := channelName\<rparr>, snd cw))
       (\<lambda>(c, w). ch_make_admins E
          (case node of None \<Rightarrow> c | Some n \<Rightarrow> c\<lparr>ch_props := PersistNode (pn_attr n) (pn_child (ch_props c))\<rparr>, w)))
       (\<lambda>cw. case node of None \<Rightarrow> (None, cw) | Some n \<Rightarrow> ch_reincarnate_supplier E n cw))
       (\<lambda>cw. case node of None \<Rightarrow> (None, cw) | Some n \<Rightarrow> ch_reincarnate_consumer E n cw))
       (ch_register E self))
       (\<lambda>(c, w). setInsName E self (attrString ''InsName'' [] (ch_props c)) (c, w))"

text \<open>The destructor.\<close>

definition ch_destructor :: "env \<Rightarrow> addr \<Rightarrow> channel \<times> world \<Rightarrow> exn option \<times> channel \<times> world" where
  "ch_destructor E self cw = (case cw of (c, w) \<Rightarrow>
     (case (case ch_mapper c of None \<Rightarrow> (None, w) | Some m \<Rightarrow> mapper_destroy E m w) of
        (Some e, w1) \<Rightarrow> (Some e, c, w1)
      | (None, w1) \<Rightarrow>
          (let w2 = (case ch_consumer c of None \<Rightarrow> w1 | Some ca \<Rightarrow> snd (ca_destroy self (ca, w1)));
               w3 = (case ch_supplier c of None \<Rightarrow> w2 | Some sa \<Rightarrow> snd (snd (sa_destroy (sa, w2))))
           in (None, c\<lparr>ch_mapper := None, ch_consumer := None, ch_supplier := None\<rparr>, w3))))"

subsection \<open>Operations of clients\<close>

definition for_consumers :: "env \<Rightarrow> addr \<Rightarrow> channel \<Rightarrow> world \<Rightarrow> exn + objref" where
  "for_consumers E a c w =
     (if ch_consumer c = None \<or> ch_shutdown c then Inl OBJECT_NOT_EXIST else Inr (env_this E (w_trace w) a))"

definition for_suppliers :: "env \<Rightarrow> addr \<Rightarrow> channel \<Rightarrow> world \<Rightarrow> exn + objref" where
  "for_suppliers E a c w =
     (if ch_supplier c = None \<or> ch_shutdown c then Inl OBJECT_NOT_EXIST else Inr (env_this E (w_trace w) a))"

definition ch_pm_activate :: "env \<Rightarrow> channel \<times> world \<Rightarrow> exn option \<times> channel \<times> world" where
  "ch_pm_activate E cw = (case cw of (c, w) \<Rightarrow>
     (case env_hold E (w_trace w) of
        Some e \<Rightarrow> (Some e, c, orb_call (PoaManagerActivate (poa_name c)) w)
      | None \<Rightarrow> (None, c\<lparr>ch_held := False\<rparr>, orb_call (PoaManagerActivate (poa_name c)) w)))"

definition ch_disconnect :: "env \<Rightarrow> channel \<times> world \<Rightarrow> exn option \<times> channel \<times> world" where
  "ch_disconnect E cw = (case cw of (c, w) \<Rightarrow>
     (case (case ch_consumer c of None \<Rightarrow> (None, w) | Some ca \<Rightarrow> ca_disconnect E ca w) of
        (Some e, w1) \<Rightarrow> (Some e, c, w1)
      | (None, w1) \<Rightarrow>
          (case ch_supplier c of
             None \<Rightarrow> (None, c, w1)
           | Some sa \<Rightarrow> (case sa_disconnect E (sa, w1) of (ex, sa1, w2) \<Rightarrow> (ex, c\<lparr>ch_supplier := Some sa1\<rparr>, w2)))))"

definition ch_destroy :: "env \<Rightarrow> channel \<times> world \<Rightarrow> exn option \<times> channel \<times> world" where
  "ch_destroy E cw = (case cw of (c, w) \<Rightarrow>
     if ch_shutdown c then (Some OBJECT_NOT_EXIST, c, w)
     else (let c1 = c\<lparr>ch_shutdown := True\<rparr>
           in then_do (if ch_held c then ch_pm_activate E (c1, w) else (None, c1, w)) (ch_disconnect E)))"

definition ch_push :: "any \<Rightarrow> channel \<Rightarrow> exn option \<times> channel" where
  "ch_push event c = (case (ch_supplier c, ch_consumer c) of
      (Some sa, Some ca) \<Rightarrow>
        (case ppc_push event (sa_push sa, sa_queue sa, ca) of (ex, pp, lq, ca1) \<Rightarrow>
           (ex, c\<lparr>ch_supplier := Some (sa\<lparr>sa_push := pp, sa_queue := lq\<rparr>), ch_consumer := Some ca1\<rparr>))
    | _ \<Rightarrow> (Some InvalidAccess, c))"

definition ch_getname :: "channel \<Rightarrow> string" where
  "ch_getname c = (case ch_poa c of Some n \<Rightarrow> n | None \<Rightarrow> ch_name c)"

definition hasMapper :: "channel \<Rightarrow> bool" where
  "hasMapper c \<longleftrightarrow> ch_mapper c \<noteq> None"

definition ch_output :: "env \<Rightarrow> channel \<Rightarrow> world \<Rightarrow> outres \<times> world" where
  "ch_output E c w =
     out_then (out_then ((pn_output (''ecf/'' @ poa_name c) (ch_props c), None), w)
       (\<lambda>w1. case ch_supplier c of None \<Rightarrow> (([], None), w1) | Some sa \<Rightarrow> sa_output E sa w1))
       (\<lambda>w1. case ch_consumer c of None \<Rightarrow> (([], None), w1) | Some ca \<Rightarrow> ca_output E ca w1)"

section \<open>The channel's thread\<close>

text \<open>
  The phases of \<^verbatim>\<open>run_undetached\<close>: started, in the communication phase of the main loop, in the
  transfer phase with all calls held, behind the loop, and finished; or ended by an exception,
  or caught in a loop that does not end.
\<close>

datatype phase = Started | Running | Holding | Leaving | Done | Dead exn | Hung

datatype cycle_end = Continue | Throws exn | Hangs

definition ch_transfer :: "env \<Rightarrow> channel \<times> world \<Rightarrow> cycle_end \<times> channel \<times> world" where
  "ch_transfer E cw = (case cw of (c, w) \<Rightarrow>
     (case (ch_supplier c, ch_consumer c) of
        (Some sa, Some ca) \<Rightarrow>
          (case sa_collect E (sa, w) of
             None \<Rightarrow> (Hangs, c, w)
           | Some (Some e, events, sa1, w1) \<Rightarrow> (Throws e, c\<lparr>ch_supplier := Some sa1\<rparr>, w1)
           | Some (None, events, sa1, w1) \<Rightarrow>
               (case ca_send events ca of (ex, left, ca1) \<Rightarrow>
                  (let c1 = c\<lparr>ch_supplier := Some sa1, ch_consumer := Some ca1\<rparr>
                   in case ex of
                        Some e \<Rightarrow> (Throws e, c1, w1)
                      | None \<Rightarrow>
                          if left \<noteq> [] then (Throws AssertFail, c1, w1)
                          else (case ch_pm_activate E (c1, w1) of
                                  (Some e, c2, w2) \<Rightarrow> (Throws e, c2, w2)
                                | (None, c2, w2) \<Rightarrow> (Continue, c2, w2)))))
      | _ \<Rightarrow> (Throws InvalidAccess, c, w)))"

type_synonym store = "(addr, unit) smap"

definition store_insert :: "addr \<Rightarrow> store \<Rightarrow> store" where
  "store_insert a st = smap_set a () st"

definition store_erase :: "addr \<Rightarrow> store \<Rightarrow> store" where
  "store_erase a st = smap_erase a st"

record run_state =
  rs_phase :: phase
  rs_chan :: channel
  rs_store :: store
  rs_world :: world

text \<open>Up to the main loop: store, logfile, and the activation of the POA manager.\<close>

definition run_begin :: "env \<Rightarrow> addr \<Rightarrow> run_state \<Rightarrow> run_state" where
  "run_begin E self s =
     (let s1 = s\<lparr>rs_store := store_insert self (rs_store s)\<rparr>
      in case log_write (ch_output E (rs_chan s)) (rs_world s) of
           (Some e, w1) \<Rightarrow> s1\<lparr>rs_phase := Dead e, rs_world := w1\<rparr>
         | (None, w1) \<Rightarrow>
             (case ch_pm_activate E (rs_chan s, w1) of
                (Some e, c, w2) \<Rightarrow> s1\<lparr>rs_phase := Dead e, rs_chan := c, rs_world := w2\<rparr>
              | (None, c, w2) \<Rightarrow> s1\<lparr>rs_phase := Running, rs_chan := c, rs_world := w2\<rparr>))"

definition run_hold :: "env \<Rightarrow> run_state \<Rightarrow> run_state" where
  "run_hold E s =
     (let c = rs_chan s; w1 = orb_call (PoaHold (poa_name c)) (rs_world s)
      in if \<not> (ch_refCount c > 0 \<and> \<not> ch_shutdown c) then s\<lparr>rs_phase := Leaving\<rparr>
         else case env_hold E (w_trace (rs_world s)) of
                Some e \<Rightarrow> s\<lparr>rs_phase := Dead e, rs_world := w1\<rparr>
              | None \<Rightarrow> s\<lparr>rs_phase := Holding, rs_chan := c\<lparr>ch_held := True\<rparr>, rs_world := w1\<rparr>)"

definition run_transfer :: "env \<Rightarrow> run_state \<Rightarrow> run_state" where
  "run_transfer E s =
     (if ch_shutdown (rs_chan s) then s\<lparr>rs_phase := Leaving\<rparr>
      else case ch_transfer E (rs_chan s, rs_world s) of (r, c, w) \<Rightarrow>
        s\<lparr>rs_phase := (case r of Continue \<Rightarrow> Running | Throws e \<Rightarrow> Dead e | Hangs \<Rightarrow> Hung),
          rs_chan := c, rs_world := w\<rparr>)"

text \<open>Behind the loop: store, logfile, POA.\<close>

definition channel_erase :: "channel \<Rightarrow> string" where
  "channel_erase c = ''-ecf/'' @ poa_name c @ nl"

definition run_end :: "addr \<Rightarrow> run_state \<Rightarrow> run_state" where
  "run_end self s =
     (let c = rs_chan s; s1 = s\<lparr>rs_phase := Done, rs_store := store_erase self (rs_store s)\<rparr>
      in if \<not> ch_shutdown c then s1
         else (case log_write (\<lambda>v. ((channel_erase c, None), v)) (rs_world s) of (_, w1) \<Rightarrow>
                 s1\<lparr>rs_chan := c\<lparr>ch_poa := None\<rparr>, rs_world := orb_call (PoaDestroy (poa_name c)) w1\<rparr>))"

definition thread_step :: "env \<Rightarrow> addr \<Rightarrow> run_state \<Rightarrow> run_state" where
  "thread_step E self s = (case rs_phase s of
      Started \<Rightarrow> run_begin E self s
    | Running \<Rightarrow> run_hold E s
    | Holding \<Rightarrow> run_transfer E s
    | Leaving \<Rightarrow> run_end self s
    | _ \<Rightarrow> s)"

section \<open>Lifecycle\<close>

text \<open>
  The steps of one channel: its thread, a call of \<^verbatim>\<open>destroy()\<close>, and anything else that clients
  and the other threads do to the administrators and to the rest of the program.
\<close>

inductive ch_step :: "env \<Rightarrow> addr \<Rightarrow> run_state \<Rightarrow> run_state \<Rightarrow> bool" for E self where
  thread: "ch_step E self s (thread_step E self s)"
| destroy: "rs_phase s \<noteq> Done \<Longrightarrow> ch_destroy E (rs_chan s, rs_world s) = (ex, c, w) \<Longrightarrow>
    ch_step E self s (s\<lparr>rs_chan := c, rs_world := w\<rparr>)"
| client: "rs_phase s \<noteq> Done \<Longrightarrow>
    ch_step E self s (s\<lparr>rs_chan := (rs_chan s)\<lparr>ch_supplier := sa, ch_consumer := ca\<rparr>, rs_world := w\<rparr>)"

inductive ch_reach :: "env \<Rightarrow> addr \<Rightarrow> run_state \<Rightarrow> run_state \<Rightarrow> bool" for E self s0 where
  init: "ch_reach E self s0 s0"
| step: "ch_reach E self s0 s \<Longrightarrow> ch_step E self s s' \<Longrightarrow> ch_reach E self s0 s'"

inductive_cases ch_stepE: "ch_step E self s s'"

definition ch_inv :: "addr \<Rightarrow> run_state \<Rightarrow> bool" where
  "ch_inv self s \<longleftrightarrow> smap_ok (rs_store s) \<and>
     (self \<in> fst ` set (rs_store s) \<longleftrightarrow> rs_phase s \<notin> {Started, Done}) \<and>
     (rs_phase s \<noteq> Done \<longrightarrow> ch_poa (rs_chan s) \<noteq> None) \<and>
     (rs_phase s = Done \<longrightarrow> ch_shutdown (rs_chan s) \<longrightarrow> ch_poa (rs_chan s) = None) \<and>
     (rs_phase s = Running \<longrightarrow> \<not> ch_held (rs_chan s)) \<and>
     (rs_phase s = Holding \<longrightarrow> ch_held (rs_chan s) \<or> ch_shutdown (rs_chan s)) \<and>
     (rs_phase s \<in> {Leaving, Done} \<longrightarrow> ch_shutdown (rs_chan s) \<or> ch_refCount (rs_chan s) \<le> 0)"

lemma ch_pm_activate_cases:
  assumes "ch_pm_activate E (c, w) = (ex, c', w')"
  shows "c' = (if ex = None then c\<lparr>ch_held := False\<rparr> else c)"
  using assms by (auto simp: ch_pm_activate_def split: option.splits)

lemma ch_disconnect_chan:
  assumes "ch_disconnect E (c, w) = (ex, c', w')"
  shows "ch_poa c' = ch_poa c \<and> ch_held c' = ch_held c \<and> ch_shutdown c' = ch_shutdown c \<and>
    ch_refCount c' = ch_refCount c"
  using assms by (auto simp: ch_disconnect_def split: option.splits prod.splits)

lemma ch_destroy_chan:
  assumes "ch_destroy E (c, w) = (ex, c', w')"
  shows "ch_poa c' = ch_poa c \<and> ch_shutdown c' \<and> (\<not> ch_held c \<longrightarrow> \<not> ch_held c') \<and> ch_refCount c' = ch_refCount c"
proof (cases "ch_shutdown c")
  case True
  then show ?thesis using assms by (simp add: ch_destroy_def)
next
  case False
  obtain e1 c1 w1 where a: "(if ch_held c then ch_pm_activate E (c\<lparr>ch_shutdown := True\<rparr>, w)
      else (None, c\<lparr>ch_shutdown := True\<rparr>, w)) = (e1, c1, w1)" by (metis prod_cases3)
  then have c1: "ch_poa c1 = ch_poa c" "ch_shutdown c1" "\<not> ch_held c \<longrightarrow> \<not> ch_held c1" "ch_refCount c1 = ch_refCount c"
    by (auto dest!: ch_pm_activate_cases split: if_splits)
  have "then_do (e1, c1, w1) (ch_disconnect E) = (ex, c', w')"
    using assms False a by (simp add: ch_destroy_def Let_def)
  then show ?thesis using c1 ch_disconnect_chan [of E c1 w1 ex c' w'] by (cases e1) auto
qed

lemma ch_transfer_chan:
  assumes "ch_transfer E (c, w) = (r, c', w')"
  shows "ch_poa c' = ch_poa c \<and> ch_shutdown c' = ch_shutdown c \<and> ch_refCount c' = ch_refCount c \<and>
    (r = Continue \<longrightarrow> \<not> ch_held c') \<and> (r \<noteq> Continue \<longrightarrow> ch_held c' = ch_held c)"
  using assms
  by (auto simp: ch_transfer_def Let_def split: option.splits prod.splits if_splits dest!: ch_pm_activate_cases)

lemma thread_step_inv:
  assumes "ch_inv self s"
  shows "ch_inv self (thread_step E self s)"
proof (cases "rs_phase s")
  case Started
  obtain ex w1 where l: "log_write (ch_output E (rs_chan s)) (rs_world s) = (ex, w1)" by force
  obtain ex2 c w2 where a: "ch_pm_activate E (rs_chan s, w1) = (ex2, c, w2)" by (metis prod_cases3)
  show ?thesis using assms Started l a ch_pm_activate_cases [OF a]
    by (cases ex; cases ex2)
       (auto simp: thread_step_def run_begin_def ch_inv_def store_insert_def smap_set_ok Let_def)
next
  case Running
  then show ?thesis using assms
    by (auto simp: thread_step_def run_hold_def ch_inv_def Let_def split: option.splits)
next
  case Holding
  obtain r c w where t: "ch_transfer E (rs_chan s, rs_world s) = (r, c, w)" by (metis prod_cases3)
  show ?thesis using assms Holding t ch_transfer_chan [OF t]
    by (cases r) (auto simp: thread_step_def run_transfer_def ch_inv_def)
next
  case Leaving
  then show ?thesis using assms
    by (auto simp: thread_step_def run_end_def ch_inv_def Let_def store_erase_def smap_erase_ok smap_erase_keys
        split: prod.splits)
qed (use assms in \<open>simp_all add: thread_step_def\<close>)

lemma ch_step_inv: "ch_step E self s s' \<Longrightarrow> ch_inv self s \<Longrightarrow> ch_inv self s'"
proof (erule ch_stepE)
  assume "ch_inv self s" and "s' = thread_step E self s"
  then show ?thesis using thread_step_inv by blast
next
  fix ex c w
  assume i: "ch_inv self s" and s': "s' = s\<lparr>rs_chan := c, rs_world := w\<rparr>" and p: "rs_phase s \<noteq> Done"
    and d: "ch_destroy E (rs_chan s, rs_world s) = (ex, c, w)"
  show ?thesis using i p ch_destroy_chan [OF d] by (auto simp: ch_inv_def s')
next
  fix sa ca w
  assume "ch_inv self s" and "rs_phase s \<noteq> Done"
    and "s' = s\<lparr>rs_chan := (rs_chan s)\<lparr>ch_supplier := sa, ch_consumer := ca\<rparr>, rs_world := w\<rparr>"
  then show ?thesis by (auto simp: ch_inv_def)
qed

definition started :: "addr \<Rightarrow> run_state \<Rightarrow> bool" where
  "started self s \<longleftrightarrow> rs_phase s = Started \<and> ch_poa (rs_chan s) \<noteq> None \<and> smap_ok (rs_store s) \<and>
     self \<notin> fst ` set (rs_store s)"

text \<open>
  C12. The life of a channel, for every interleaving of its thread with \<^verbatim>\<open>destroy()\<close> and with
  whatever clients do: the channel is in the store exactly from the start of its thread until
  the thread has left the main loop; while it is in the communication phase its POAs are not
  held; the loop is only left when the channel was destroyed or is no longer referenced; and
  a channel that was destroyed has no POA any more once its thread is done, never before.
\<close>

theorem channel_lifecycle:
  assumes "ch_reach E self s0 s" and "started self s0"
  shows "(self \<in> fst ` set (rs_store s) \<longleftrightarrow> rs_phase s \<notin> {Started, Done}) \<and>
    (rs_phase s = Running \<longrightarrow> \<not> ch_held (rs_chan s)) \<and>
    (rs_phase s \<in> {Leaving, Done} \<longrightarrow> ch_shutdown (rs_chan s) \<or> ch_refCount (rs_chan s) \<le> 0) \<and>
    (ch_shutdown (rs_chan s) \<longrightarrow> (ch_poa (rs_chan s) = None \<longleftrightarrow> rs_phase s = Done))"
proof -
  have "ch_inv self s0" using assms(2) by (auto simp: started_def ch_inv_def)
  with assms(1) have "ch_inv self s" by (induction rule: ch_reach.induct) (auto intro: ch_step_inv)
  then show ?thesis by (auto simp: ch_inv_def)
qed

theorem channel_lifecycle_witness:
  "let s = \<lparr>rs_phase = Started, rs_chan = EventChannel_i\<lparr>ch_poa := Some ''c'', ch_held := True\<rparr>, rs_store = [],
            rs_world = init_world False\<rparr>
   in ch_reach idle_env 7 s (thread_step idle_env 7 s) \<and>
      (7 \<in> fst ` set (rs_store (thread_step idle_env 7 s)) \<longleftrightarrow>
       rs_phase (thread_step idle_env 7 s) \<notin> {Started, Done})"
proof -
  let ?s = "\<lparr>rs_phase = Started, rs_chan = EventChannel_i\<lparr>ch_poa := Some ''c'', ch_held := True\<rparr>, rs_store = [],
            rs_world = init_world False\<rparr>"
  have r: "ch_reach idle_env 7 ?s (thread_step idle_env 7 ?s)"
    by (rule ch_reach.step [OF ch_reach.init ch_step.thread])
  have s: "started 7 ?s" by (simp add: started_def)
  from r channel_lifecycle [OF r s] show ?thesis unfolding Let_def by blast
qed

section \<open>Shutdown\<close>

lemma run_end_shutdown:
  assumes "ch_shutdown (rs_chan s)" and "smap_ok (rs_store s)" and "w_log (rs_world s) = Some t"
  shows "rs_phase (run_end self s) = Done \<and> self \<notin> fst ` set (rs_store (run_end self s)) \<and>
    ch_poa (rs_chan (run_end self s)) = None \<and> ch_shutdown (rs_chan (run_end self s)) \<and>
    w_log (rs_world (run_end self s)) = Some (t @ channel_erase (rs_chan s)) \<and>
    PoaDestroy (poa_name (rs_chan s)) \<in> set (w_trace (rs_world (run_end self s)))"
  using assms by (auto simp: run_end_def Let_def log_write_def log_output_def store_erase_def smap_erase_keys)

text \<open>
  C13. Shutdown of a channel: once \<^verbatim>\<open>destroy()\<close> has been called on a running channel, two steps
  of its thread are enough to finish it, from either phase of the main loop: it is out of the
  store, its POA is destroyed, its record is deleted from the logfile, with everything that
  was recorded below it, and further calls of \<^verbatim>\<open>destroy()\<close> are refused.
\<close>

theorem channel_shutdown:
  fixes E :: env and self :: addr
  assumes "rs_phase s \<in> {Running, Holding}" and "ch_shutdown (rs_chan s)" and "smap_ok (rs_store s)"
    and "w_log (rs_world s) = Some (concat (map rec_text rs))" and "\<forall>r \<in> set rs. rec_ok r"
    and "ch_poa (rs_chan s) = Some name" and "no_space name"
  defines "s' \<equiv> (thread_step E self ^^ 2) s"
  shows "rs_phase s' = Done \<and> self \<notin> fst ` set (rs_store s') \<and> ch_poa (rs_chan s') = None \<and>
    PoaDestroy name \<in> set (w_trace (rs_world s')) \<and>
    lookup_path (split_slash (''ecf/'' @ name)) (parse_text (the (w_log (rs_world s')))) = None \<and>
    ch_destroy E (rs_chan s', rs_world s') = (Some OBJECT_NOT_EXIST, rs_chan s', rs_world s')"
proof -
  let ?l = "s\<lparr>rs_phase := Leaving\<rparr>"
  have 1: "thread_step E self s = ?l"
    using assms(1,2) by (auto simp: thread_step_def run_hold_def run_transfer_def Let_def)
  have 2: "thread_step E self ?l = run_end self ?l" by (simp add: thread_step_def)
  have e: "rs_phase (run_end self ?l) = Done" "self \<notin> fst ` set (rs_store (run_end self ?l))"
    "ch_poa (rs_chan (run_end self ?l)) = None" "ch_shutdown (rs_chan (run_end self ?l))"
    "w_log (rs_world (run_end self ?l)) = Some (concat (map rec_text rs) @ channel_erase (rs_chan s))"
    "PoaDestroy name \<in> set (w_trace (rs_world (run_end self ?l)))"
    using run_end_shutdown [of ?l _ self] assms(2-4,6) by (auto simp: poa_name_def)
  have s': "s' = run_end self ?l" unfolding s'_def by (simp add: numeral_2_eq_2 1 2)
  have "channel_erase (rs_chan s) = rec_text (DelRec (''ecf/'' @ name))"
    using assms(6) by (simp add: channel_erase_def poa_name_def)
  then have tx: "concat (map rec_text rs) @ channel_erase (rs_chan s) =
      concat (map rec_text (rs @ [DelRec (''ecf/'' @ name)]))" by simp
  have ok: "\<forall>r \<in> set (rs @ [DelRec (''ecf/'' @ name)]). rec_ok r"
    using assms(5,7) by (auto simp: no_space_def)
  have "lookup_path (split_slash (''ecf/'' @ name)) (parse_text (the (w_log (rs_world (run_end self ?l))))) = None"
    unfolding e(5) option.sel tx parse_text_replay [OF journal_ends ok journal_words [OF ok]]
    using lookup_delnode_path [OF fold_apply_rec_ok [OF pn_empty_ok], of "split_slash (''ecf/'' @ name)" rs]
    by (simp add: delnode_def)
  moreover have "ch_destroy E (rs_chan s', rs_world s') = (Some OBJECT_NOT_EXIST, rs_chan s', rs_world s')"
    using e(4) by (simp add: ch_destroy_def s')
  ultimately show ?thesis using e(1-3,6) unfolding s' by blast
qed

theorem channel_shutdown_witness:
  "let s = \<lparr>rs_phase = Holding, rs_chan = EventChannel_i\<lparr>ch_poa := Some ''c'', ch_shutdown := True\<rparr>,
            rs_store = [(7, ())], rs_world = init_world True\<rparr>
   in rs_phase ((thread_step idle_env 7 ^^ 2) s) = Done \<and>
      PoaDestroy ''c'' \<in> set (w_trace (rs_world ((thread_step idle_env 7 ^^ 2) s)))"
proof -
  let ?s = "\<lparr>rs_phase = Holding, rs_chan = EventChannel_i\<lparr>ch_poa := Some ''c'', ch_shutdown := True\<rparr>,
            rs_store = [(7, ())], rs_world = init_world True\<rparr>"
  have h: "rs_phase ?s \<in> {Running, Holding}" "ch_shutdown (rs_chan ?s)" "smap_ok (rs_store ?s)"
    "w_log (rs_world ?s) = Some (concat (map rec_text []))" "\<forall>r \<in> set []. rec_ok r"
    "ch_poa (rs_chan ?s) = Some ''c''" "no_space ''c''"
    by (simp_all add: init_world_def c_space_def)
  from channel_shutdown [OF h, of idle_env 7] show ?thesis unfolding Let_def by blast
qed

section \<open>The order of the events\<close>

text \<open>Suppliers push, and the thread goes through transfers, in any order.\<close>

datatype chop = Push any | Cycle

fun run_chops :: "env \<Rightarrow> chop list \<Rightarrow> channel \<times> world \<Rightarrow> channel \<times> world" where
  "run_chops E [] cw = cw"
| "run_chops E (Push e # ops) (c, w) = run_chops E ops (snd (ch_push e c), w)"
| "run_chops E (Cycle # ops) cw = run_chops E ops (snd (ch_transfer E cw))"

fun pushed :: "chop list \<Rightarrow> any list" where
  "pushed [] = []"
| "pushed (Push e # ops) = e # pushed ops"
| "pushed (Cycle # ops) = pushed ops"

text \<open>
  The invariant: the consumers' queue has the history \<open>H\<close>, and events wait in the incoming queue
  only while the real-time path is closed.
\<close>

definition ch_flow :: "channel \<Rightarrow> any list \<Rightarrow> any list \<Rightarrow> bool" where
  "ch_flow c H q \<longleftrightarrow> (\<exists>sa ca. ch_supplier c = Some sa \<and> ch_consumer c = Some ca \<and> sa_pull sa = None \<and>
     eq_rep (ca_queue ca) H \<and> sa_queue sa = q \<and> (pp_useLocalQueue (sa_push sa) \<or> q = []))"

definition ch_keeps :: "channel \<Rightarrow> any \<Rightarrow> bool" where
  "ch_keeps c = (case ch_consumer c of None \<Rightarrow> (\<lambda>_. False) | Some ca \<Rightarrow> kept_by (eq_filter (ca_queue ca)))"

lemma ch_push_flow:
  assumes "ch_flow c H q" and "any_kind e \<noteq> np_tk_indirect"
  shows "\<exists>c' H' q'. ch_push e c = (None, c') \<and> ch_flow c' H' q' \<and> ch_keeps c' = ch_keeps c \<and>
    H' @ filter (ch_keeps c) q' = H @ filter (ch_keeps c) (q @ [e]) \<and> set q' \<subseteq> insert e (set q)"
proof -
  obtain sa ca where f: "ch_supplier c = Some sa" "ch_consumer c = Some ca" "sa_pull sa = None"
    "eq_rep (ca_queue ca) H" "sa_queue sa = q" "pp_useLocalQueue (sa_push sa) \<or> q = []"
    using assms(1) by (auto simp: ch_flow_def)
  have k: "ch_keeps c = kept_by (eq_filter (ca_queue ca))" using f by (simp add: ch_keeps_def)
  show ?thesis
  proof (cases "pp_useLocalQueue (sa_push sa)")
    case True
    then show ?thesis using f k
      by (intro exI [of _ "c\<lparr>ch_supplier := Some (sa\<lparr>sa_queue := q @ [e]\<rparr>)\<rparr>"] exI [of _ H] exI [of _ "q @ [e]"])
         (auto simp: ch_push_def ppc_push_def ch_flow_def ch_keeps_def)
  next
    case False
    from ca_send_event_total [OF f(4) assms(2)] obtain ca' where ca': "ca_send_event e ca = (None, ca')"
      "eq_rep (ca_queue ca') (H @ filter (kept_by (eq_filter (ca_queue ca))) [e])"
      "eq_filter (ca_queue ca') = eq_filter (ca_queue ca)" by blast
    let ?sa = "sa\<lparr>sa_push := (sa_push sa)\<lparr>pp_useLocalQueue := True\<rparr>, sa_queue := q\<rparr>"
    have "ch_push e c = (None, c\<lparr>ch_supplier := Some ?sa, ch_consumer := Some ca'\<rparr>)"
      using f(1,2,5) False ca'(1) by (simp add: ch_push_def ppc_push_def)
    then show ?thesis using f False ca' k
      by (intro exI [of _ "c\<lparr>ch_supplier := Some ?sa, ch_consumer := Some ca'\<rparr>"]
          exI [of _ "H @ filter (kept_by (eq_filter (ca_queue ca))) [e]"] exI [of _ q])
         (auto simp: ch_flow_def ch_keeps_def)
  qed
qed

lemma ch_cycle_flow:
  assumes "ch_flow c H q" and "\<forall>e \<in> set q. any_kind e \<noteq> np_tk_indirect" and "\<forall>tr. env_hold E tr = None"
  shows "\<exists>c' w'. ch_transfer E (c, w) = (Continue, c', w') \<and> ch_flow c' (H @ filter (ch_keeps c) q) [] \<and>
    ch_keeps c' = ch_keeps c"
proof -
  obtain sa ca where f: "ch_supplier c = Some sa" "ch_consumer c = Some ca" "sa_pull sa = None"
    "eq_rep (ca_queue ca) H" "sa_queue sa = q" using assms(1) by (auto simp: ch_flow_def)
  from ca_send_total [OF f(4) assms(2)] obtain ca' where ca': "ca_send q ca = (None, [], ca')"
    "eq_rep (ca_queue ca') (H @ filter (kept_by (eq_filter (ca_queue ca))) q)"
    "eq_filter (ca_queue ca') = eq_filter (ca_queue ca)" by blast
  have k: "ch_keeps c = kept_by (eq_filter (ca_queue ca))" using f by (simp add: ch_keeps_def)
  show ?thesis using f ca' k assms(3)
    by (auto simp: ch_transfer_def sa_collect_def ch_pm_activate_def ch_flow_def ch_keeps_def Let_def)
qed

text \<open>
  C11. No event is lost, duplicated or overtaken on its way through a channel fed by push
  suppliers: for every interleaving of pushes and transfers, with the first push of each
  cycle going straight to the consumers' queue, the history of that queue followed by what
  still waits in the incoming queue is the old one followed by all events pushed, in order,
  less those the channel's filter drops; and a last transfer leaves nothing waiting.
\<close>

theorem channel_preserves_order:
  assumes "ch_flow c H q" and "\<forall>e \<in> set q \<union> set (pushed ops). any_kind e \<noteq> np_tk_indirect"
    and "\<forall>tr. env_hold E tr = None"
  shows "\<exists>H'. ch_flow (fst (run_chops E (ops @ [Cycle]) (c, w))) H' [] \<and>
    H' = H @ filter (ch_keeps c) (q @ pushed ops)"
  using assms(1,2)
proof (induction ops arbitrary: c H q w)
  case Nil
  then obtain c' w' where "ch_transfer E (c, w) = (Continue, c', w')" "ch_flow c' (H @ filter (ch_keeps c) q) []"
    using ch_cycle_flow [OF Nil(1) _ assms(3)] by (metis UnCI)
  then show ?case by simp
next
  case (Cons op ops)
  show ?case
  proof (cases op)
    case (Push e)
    then have "any_kind e \<noteq> np_tk_indirect" using Cons.prems by simp
    from ch_push_flow [OF Cons.prems(1) this] obtain c' H' q' where
      p: "ch_push e c = (None, c')" "ch_flow c' H' q'" "ch_keeps c' = ch_keeps c"
        "H' @ filter (ch_keeps c) q' = H @ filter (ch_keeps c) (q @ [e])" "set q' \<subseteq> insert e (set q)" by blast
    have "\<forall>e \<in> set q' \<union> set (pushed ops). any_kind e \<noteq> np_tk_indirect"
      using Cons.prems(2) p(5) Push by auto
    note ih = Cons.IH [OF p(2) this, of w]
    have "H' @ filter (ch_keeps c) (q' @ pushed ops) = (H' @ filter (ch_keeps c) q') @ filter (ch_keeps c) (pushed ops)"
      by simp
    also have "\<dots> = H @ filter (ch_keeps c) (q @ pushed (op # ops))" unfolding p(4) by (simp add: Push)
    finally show ?thesis using ih p(1,3) Push by simp
  next
    case Cycle
    from ch_cycle_flow [OF Cons.prems(1) _ assms(3)] Cons.prems(2) obtain c' w' where
      t: "ch_transfer E (c, w) = (Continue, c', w')" "ch_flow c' (H @ filter (ch_keeps c) q) []"
        "ch_keeps c' = ch_keeps c" by (metis UnCI)
    from Cons.IH [OF t(2), of w'] Cons.prems(2) t Cycle show ?thesis by simp
  qed
qed

theorem channel_preserves_order_witness:
  "let props = pn_empty;
       sa = \<lparr>sa_props = props, sa_poa = ''c'', sa_push = \<lparr>pp_connections = [], pp_channelName = ''c'',
              pp_useLocalQueue = False\<rparr>, sa_pull = None, sa_queue = [], sa_nextPull = (0, 0)\<rparr>;
       ca = \<lparr>ca_props = props, ca_poa = ''c'', ca_queue = \<lparr>eq_next = 0, eq_size = 2, eq_queue = [None, None],
              eq_filter = None\<rparr>, ca_push = None, ca_pull = None\<rparr>;
       c = EventChannel_i\<lparr>ch_supplier := Some sa, ch_consumer := Some ca\<rparr>;
       e1 = Any tk_long [] (VOther 1); e2 = Any tk_long [] (VOther 2); e3 = Any tk_long [] (VOther 3)
   in ch_flow (fst (run_chops idle_env ([Push e1, Push e2, Cycle, Push e3] @ [Cycle]) (c, init_world True)))
        [e1, e2, e3] []"
proof -
  let ?sa = "\<lparr>sa_props = pn_empty, sa_poa = ''c'', sa_push = \<lparr>pp_connections = [], pp_channelName = ''c'',
              pp_useLocalQueue = False\<rparr>, sa_pull = None, sa_queue = [], sa_nextPull = (0, 0)\<rparr>"
  let ?ca = "\<lparr>ca_props = pn_empty, ca_poa = ''c'', ca_queue = \<lparr>eq_next = 0, eq_size = 2, eq_queue = [None, None],
              eq_filter = None\<rparr>, ca_push = None, ca_pull = None\<rparr>"
  let ?c = "EventChannel_i\<lparr>ch_supplier := Some ?sa, ch_consumer := Some ?ca\<rparr>"
  let ?e = "\<lambda>n. Any tk_long [] (VOther n)"
  let ?ops = "[Push (?e 1), Push (?e 2), Cycle, Push (?e 3)]"
  have rep: "eq_rep (ca_queue ?ca) []" by (auto simp: eq_rep_def eq_cap_def less_2_cases_iff)
  have f: "ch_flow ?c [] []" using rep by (simp add: ch_flow_def)
  have k: "\<forall>e \<in> set [] \<union> set (pushed ?ops). any_kind e \<noteq> np_tk_indirect" by simp
  have h: "\<forall>tr. env_hold idle_env tr = None" by (simp add: idle_env_def)
  have keeps: "ch_keeps ?c = (\<lambda>_. True)" by (simp add: ch_keeps_def kept_by_def fun_eq_iff)
  from channel_preserves_order [OF f k h, of "init_world True"]
  have "ch_flow (fst (run_chops idle_env (?ops @ [Cycle]) (?c, init_world True))) [?e 1, ?e 2, ?e 3] []"
    unfolding keeps by simp
  then show ?thesis unfolding Let_def .
qed

section \<open>A pull supplier that ends the channel\<close>

lemma thread_dead: "rs_phase s = Dead e \<Longrightarrow> (thread_step E self ^^ n) s = s"
  by (induction n) (simp_all add: thread_step_def)

text \<open>
  With an ORB whose \<^verbatim>\<open>Request::env()\<close> throws, one exception of a pull supplier ends the
  thread of the channel: \<^verbatim>\<open>collect()\<close> does not catch it, the POA manager stays in the holding
  state, so that no call of any client of the channel is served any more, and the channel
  stays in the store for ever.
\<close>

lemma pull_exception_kills_channel:
  assumes "env_throws E" and "env_poll E (w_trace (rs_world s)) r = Raised e"
    and "rs_phase s = Holding" and "ch_held (rs_chan s)" and "\<not> ch_shutdown (rs_chan s)"
    and "ch_supplier (rs_chan s) = Some sa" and "ch_consumer (rs_chan s) = Some ca"
    and "sa_pull sa = Some m" and "mg_servants m = (a, p) # ps" and "pc_req p = Some r"
  shows "\<exists>s'. rs_phase s' = Dead e \<and> ch_held (rs_chan s') \<and> rs_store s' = rs_store s \<and>
    (thread_step E self ^^ Suc n) s = s'"
proof -
  let ?s = "thread_step E self s"
  have "sa_collect E (sa, rs_world s) = Some (Some e, [], sa\<lparr>sa_pull := Some m, sa_queue := sa_queue sa\<rparr>,
      orb_call (PollResponse r) (rs_world s))"
    using assms(1,2,8-10)
    by (simp add: sa_collect_def sa_collect_pull_def pcs_collect_def poll_response_def Let_def)
  then have "rs_phase ?s = Dead e \<and> ch_held (rs_chan ?s) \<and> rs_store ?s = rs_store s"
    using assms(3-7) by (simp add: thread_step_def run_transfer_def ch_transfer_def)
  moreover have "(thread_step E self ^^ Suc n) s = ?s"
    using calculation thread_dead [where s = ?s and e = e and n = n] by (simp add: funpow_swap1)
  ultimately show ?thesis by blast
qed

end
