(* ===== verification/Iterator_GC.thy ===== *)
theory Iterator_GC
  imports Corba_Orb
begin

text \<open>
  \<^verbatim>\<open>Iterator.h\<close>, \<^verbatim>\<open>IteratorSupport.h\<close> and \<^verbatim>\<open>IteratorSupport.cc\<close>: the iterators that hand out a
  list in pieces, and the servant locator that keeps them alive until they are destroyed or
  have not been used for their time to live. The theorems say that the pieces add up to the
  list and that the references on the servants balance.
\<close>

section \<open>Iterator\<close>

record 'a iter =
  it_list :: "'a list"
  it_offset :: nat

definition Iterator :: "'a list \<Rightarrow> 'a iter" where
  "Iterator xs = \<lparr>it_list = xs, it_offset = 0\<rparr>"

text \<open>\<^verbatim>\<open>next_one\<close> returns a default item at the end.\<close>

definition next_one :: "'a \<Rightarrow> 'a iter \<Rightarrow> (bool \<times> 'a) \<times> 'a iter" where
  "next_one dflt it =
     (if it_offset it \<ge> length (it_list it) then ((False, dflt), it)
      else ((True, it_list it ! it_offset it), it\<lparr>it_offset := it_offset it + 1\<rparr>))"

definition next_n :: "ulong \<Rightarrow> 'a iter \<Rightarrow> (bool \<times> 'a list) \<times> 'a iter" where
  "next_n how_many it =
     (if it_offset it \<ge> length (it_list it) then ((False, []), it)
      else (let n = min (unat how_many) (length (it_list it) - it_offset it)
            in ((True, take n (drop (it_offset it) (it_list it))), it\<lparr>it_offset := it_offset it + n\<rparr>)))"

text \<open>
  \<^verbatim>\<open>list\<close>: everything at once when it fits, otherwise the first piece and an iterator for the
  rest, which the caller registers with the locator.
\<close>

definition list_items :: "ulong \<Rightarrow> 'a list \<Rightarrow> 'a list \<times> 'a iter option" where
  "list_items count items =
     (if unat count \<ge> length items then (items, None)
      else case next_n count (Iterator items) of ((_, chunk), it) \<Rightarrow> (chunk, Some it))"

text \<open>A client that calls \<^verbatim>\<open>next_one\<close> and \<^verbatim>\<open>next_n\<close> in any order.\<close>

datatype icall = NextOne | NextN ulong

fun run_iter :: "'a \<Rightarrow> icall list \<Rightarrow> 'a iter \<Rightarrow> 'a list \<times> 'a iter" where
  "run_iter d [] it = ([], it)"
| "run_iter d (NextOne # cs) it = (case next_one d it of ((b, x), it1) \<Rightarrow>
     (case run_iter d cs it1 of (xs, it2) \<Rightarrow> ((if b then [x] else []) @ xs, it2)))"
| "run_iter d (NextN n # cs) it = (case next_n n it of ((b, ys), it1) \<Rightarrow>
     (case run_iter d cs it1 of (xs, it2) \<Rightarrow> (ys @ xs, it2)))"

fun asked :: "icall list \<Rightarrow> nat" where
  "asked [] = 0"
| "asked (NextOne # cs) = Suc (asked cs)"
| "asked (NextN n # cs) = unat n + asked cs"

lemma run_iter_take:
  "it_offset it \<le> length (it_list it) \<Longrightarrow>
   run_iter d cs it = (take (asked cs) (drop (it_offset it) (it_list it)),
     it\<lparr>it_offset := min (length (it_list it)) (it_offset it + asked cs)\<rparr>)"
proof (induction cs arbitrary: it)
  case Nil
  then show ?case by (simp add: min_def)
next
  case (Cons c cs)
  let ?xs = "it_list it" and ?k = "it_offset it"
  show ?case
  proof (cases c)
    case NextOne
    show ?thesis
    proof (cases "?k < length ?xs")
      case True
      then have "take (Suc (asked cs)) (drop ?k ?xs) = ?xs ! ?k # take (asked cs) (drop (Suc ?k) ?xs)"
        by (simp add: Cons_nth_drop_Suc [symmetric])
      then show ?thesis using Cons.IH [of "it\<lparr>it_offset := ?k + 1\<rparr>"] True NextOne
        by (simp add: next_one_def)
    next
      case False
      then show ?thesis using Cons NextOne by (simp add: next_one_def)
    qed
  next
    case (NextN n)
    show ?thesis
    proof (cases "?k < length ?xs")
      case True
      let ?n = "min (unat n) (length ?xs - ?k)"
      have "take ?n (drop ?k ?xs) @ take (asked cs) (drop (?k + ?n) ?xs) = take (unat n + asked cs) (drop ?k ?xs)"
        using take_add [of "unat n" "asked cs" "drop ?k ?xs"]
        by (cases "unat n \<le> length ?xs - ?k") (simp_all add: min_def add.commute)
      moreover have "min (length ?xs) (?k + ?n + asked cs) = min (length ?xs) (?k + (unat n + asked cs))"
        using True by linarith
      moreover have "run_iter d (c # cs) it = (case run_iter d cs (it\<lparr>it_offset := ?k + ?n\<rparr>) of
          (xs, it2) \<Rightarrow> (take ?n (drop ?k ?xs) @ xs, it2))"
        using True NextN by (simp add: next_n_def Let_def)
      ultimately show ?thesis using Cons.IH [of "it\<lparr>it_offset := ?k + ?n\<rparr>"] True NextN
        by simp
    next
      case False
      then show ?thesis using Cons NextN by (simp add: next_n_def)
    qed
  qed
qed

text \<open>
  Paging: the first piece of \<^verbatim>\<open>list\<close> together with what any sequence of \<^verbatim>\<open>next_one\<close> and
  \<^verbatim>\<open>next_n\<close> calls returns is the beginning of the list, in order and without gaps, as long as
  the number of items asked for; so it is the whole list when enough was asked for.
\<close>

lemma iterator_pages_list:
  "(case list_items count items of
      (chunk, None) \<Rightarrow> chunk = items
    | (chunk, Some it) \<Rightarrow> chunk @ fst (run_iter d cs it) = take (unat count + asked cs) items)"
proof (cases "unat count \<ge> length items")
  case True
  then show ?thesis by (simp add: list_items_def)
next
  case False
  then have l: "list_items count items =
      (take (unat count) items, Some \<lparr>it_list = items, it_offset = unat count\<rparr>)"
    by (auto simp: list_items_def next_n_def Iterator_def Let_def min_def)
  have "take (unat count) items @ take (asked cs) (drop (unat count) items) = take (unat count + asked cs) items"
    by (simp add: take_add)
  then show ?thesis using l False run_iter_take [of "\<lparr>it_list = items, it_offset = unat count\<rparr>" d cs] by simp
qed

section \<open>GCServantLocator\<close>

record gc_entry =
  ge_servant :: addr
  ge_ttl :: int
  ge_destroy :: string
  ge_last_access :: int

type_synonym gc_map = "(string, gc_entry) smap"

text \<open>Times are those of \<^verbatim>\<open>boost::get_system_time\<close>, a parameter of the operations.\<close>

definition preinvoke :: "int \<Rightarrow> string \<Rightarrow> string \<Rightarrow> gc_map \<times> world \<Rightarrow> (exn + addr) \<times> gc_map \<times> world" where
  "preinvoke t oid operation gw = (case gw of (g, w) \<Rightarrow>
     (case map_of g oid of
        None \<Rightarrow> (Inl OBJECT_NOT_EXIST, g, w)
      | Some e \<Rightarrow>
          if ge_destroy e = operation then (Inr (ge_servant e), smap_erase oid g, w)
          else (Inr (ge_servant e), smap_set oid (e\<lparr>ge_last_access := t\<rparr>) g, add_ref (ge_servant e) w)))"

definition postinvoke :: "addr \<Rightarrow> world \<Rightarrow> world" where
  "postinvoke servant w = remove_ref servant w"

definition register_servant :: "int \<Rightarrow> string \<Rightarrow> addr \<Rightarrow> int \<Rightarrow> string \<Rightarrow> gc_map \<times> world
    \<Rightarrow> exn option \<times> gc_map \<times> world" where
  "register_servant t oid servant ttl destroy gw = (case gw of (g, w) \<Rightarrow>
     (if map_of g oid \<noteq> None then (Some ObjectAlreadyActive, g, w)
      else (None, smap_set oid \<lparr>ge_servant = servant, ge_ttl = ttl, ge_destroy = destroy, ge_last_access = t\<rparr> g,
            add_ref servant w)))"

fun gc_sweep :: "int \<Rightarrow> gc_map \<times> world \<Rightarrow> gc_map \<times> world" where
  "gc_sweep t ([], w) = ([], w)"
| "gc_sweep t ((oid, e) # g, w) =
     (if t - ge_last_access e > ge_ttl e then gc_sweep t (g, remove_ref (ge_servant e) w)
      else (case gc_sweep t (g, w) of (g1, w1) \<Rightarrow> ((oid, e) # g1, w1)))"

definition gc_destroy :: "gc_map \<Rightarrow> world \<Rightarrow> world" where
  "gc_destroy g w = fold remove_ref (map (ge_servant \<circ> snd) g) w"

definition gc_policies :: "policy list" where
  "gc_policies = [NON_RETAIN, USE_SERVANT_MANAGER]"

definition createGCPOA :: "env \<Rightarrow> string \<Rightarrow> string \<Rightarrow> addr \<Rightarrow> world \<Rightarrow> exn option \<times> world" where
  "createGCPOA E parent name manager w =
     (case env_create_poa E (w_trace w) parent name of
        Some e \<Rightarrow> (Some e, orb_call (PoaCreate parent name gc_policies) w)
      | None \<Rightarrow> (None, orb_call (PoaSetServant name manager) (orb_call (PoaCreate parent name gc_policies) w)))"

text \<open>\<^verbatim>\<open>activateGCObject\<close>, with the object id that \<^verbatim>\<open>create_reference\<close> made up.\<close>

definition activateGCObject :: "int \<Rightarrow> string \<Rightarrow> string \<Rightarrow> addr \<Rightarrow> int \<Rightarrow> string \<Rightarrow> gc_map \<times> world
    \<Rightarrow> exn option \<times> gc_map \<times> world" where
  "activateGCObject t poa oid servant ttl destroy gw =
     register_servant t oid servant ttl destroy (fst gw, orb_call (CreateReference poa oid) (snd gw))"

subsection \<open>The references balance\<close>

datatype gop = GRegister string addr int string | GInvoke string string | GReturn | GSweep

text \<open>
  The state: the map, the servants of the calls in progress, and the world. \<^verbatim>\<open>postinvoke\<close> is
  called for the call that was started last among those still in progress here; which one
  it is does not matter for the counts.
\<close>

fun gc_step :: "int \<times> gop \<Rightarrow> gc_map \<times> addr list \<times> world \<Rightarrow> gc_map \<times> addr list \<times> world" where
  "gc_step (t, GRegister oid s ttl d) (g, busy, w) =
     (case register_servant t oid s ttl d (g, w) of (_, g1, w1) \<Rightarrow> (g1, busy, w1))"
| "gc_step (t, GInvoke oid op) (g, busy, w) =
     (case preinvoke t oid op (g, w) of (Inl _, g1, w1) \<Rightarrow> (g1, busy, w1) | (Inr s, g1, w1) \<Rightarrow> (g1, s # busy, w1))"
| "gc_step (t, GReturn) (g, [], w) = (g, [], w)"
| "gc_step (t, GReturn) (g, s # busy, w) = (g, busy, postinvoke s w)"
| "gc_step (t, GSweep) (g, busy, w) = (case gc_sweep t (g, w) of (g1, w1) \<Rightarrow> (g1, busy, w1))"

definition gc_held :: "gc_map \<Rightarrow> addr \<Rightarrow> int" where
  "gc_held g s = int (length (filter (\<lambda>e. ge_servant (snd e) = s) g))"

definition free_refs :: "gc_map \<times> addr list \<times> world \<Rightarrow> addr \<Rightarrow> int" where
  "free_refs st s = (case st of (g, busy, w) \<Rightarrow> w_refs w s - gc_held g s - int (count_list busy s))"

lemma gc_held_simps [simp]:
  "gc_held [] s = 0"
  "gc_held ((oid, e) # g) s = (if ge_servant e = s then 1 else 0) + gc_held g s"
  by (auto simp: gc_held_def)

lemma gc_held_set:
  "smap_ok g \<Longrightarrow> gc_held (smap_set oid e g) s =
     gc_held g s - (case map_of g oid of None \<Rightarrow> 0 | Some e' \<Rightarrow> if ge_servant e' = s then 1 else 0) +
     (if ge_servant e = s then 1 else 0)"
proof (induction oid e g rule: smap_set.induct)
  case (2 k v k' v' m)
  show ?case
  proof (cases "k < k'")
    case True
    then have "map_of m k = None" using 2(2) by (intro map_of_notin) force
    then show ?thesis using True less_imp_neq [OF True] by simp
  qed (use 2 in auto)
qed simp

lemma gc_held_erase:
  "gc_held (smap_erase oid g) s =
     gc_held g s - (case map_of g oid of None \<Rightarrow> 0 | Some e' \<Rightarrow> if ge_servant e' = s then 1 else 0)"
  by (induction oid g rule: smap_erase.induct) (auto split: option.splits)

lemma gc_sweep_refs:
  "w_refs (snd (gc_sweep t (g, w))) s - gc_held (fst (gc_sweep t (g, w))) s = w_refs w s - gc_held g s"
  by (induction t "(g, w)" arbitrary: g w rule: gc_sweep.induct) (auto split: prod.splits)

lemma gc_sweep_filter: "fst (gc_sweep t (g, w)) = filter (\<lambda>e. t - ge_last_access (snd e) \<le> ge_ttl (snd e)) g"
  by (induction t "(g, w)" arbitrary: g w rule: gc_sweep.induct) (auto split: prod.splits)

lemma smap_ok_filter: "smap_ok g \<Longrightarrow> smap_ok (filter P g)"
  by (induction g) auto

lemma gc_step_balance:
  assumes "smap_ok (fst st)"
  shows "smap_ok (fst (gc_step x st)) \<and> free_refs (gc_step x st) s = free_refs st s"
proof -
  obtain g busy w where st: "st = (g, busy, w)" by (metis prod_cases3)
  obtain t op where x: "x = (t, op)" by force
  have ok: "smap_ok g" using assms st by simp
  show ?thesis
  proof (cases op)
    case (GRegister oid s' ttl d)
    then show ?thesis using ok
      by (auto simp: st x free_refs_def register_servant_def smap_set_ok gc_held_set)
  next
    case (GInvoke oid operation)
    then show ?thesis using ok
      by (auto simp: st x free_refs_def preinvoke_def smap_set_ok smap_erase_ok gc_held_set gc_held_erase
          split: option.splits)
  next
    case GReturn
    then show ?thesis using ok by (cases busy) (auto simp: st x free_refs_def postinvoke_def)
  next
    case GSweep
    then show ?thesis using ok gc_sweep_refs [of t g w s] gc_sweep_filter [of t g w]
      by (auto simp: st x free_refs_def smap_ok_filter split: prod.splits)
  qed
qed

text \<open>
  The locator never frees a servant that is in use and never leaks one: over any sequence
  of registrations, calls, returns and sweeps, the reference count of every servant less the
  entries that name it and the calls in progress on it does not change.
\<close>

lemma gc_references_balance:
  assumes "smap_ok g"
  shows "free_refs (fold gc_step xs (g, busy, w)) s = free_refs (g, busy, w) s"
proof -
  have "smap_ok (fst st) \<Longrightarrow> free_refs (fold gc_step xs st) s = free_refs st s" for st
  proof (induction xs arbitrary: st)
    case (Cons x xs)
    then show ?case using gc_step_balance [of st x s] by simp
  qed simp
  then show ?thesis using assms by simp
qed

end
