(* ===== verification/Event_Channel_Factory.thy ===== *)
theory Event_Channel_Factory
  imports Event_Channel Iterator_GC
begin

text \<open>
  \<^verbatim>\<open>EventChannelFactory.h\<close>, \<^verbatim>\<open>EventChannelFactory.cc\<close> and the class \<^verbatim>\<open>EventChannelStore\<close> of
  \<^verbatim>\<open>EventChannel.cc\<close>: the criteria a channel is made from, the creation of channels with its
  error paths, and the operations on all channels.
\<close>

section \<open>Criteria\<close>

type_synonym life_key = "(string \<times> string) list"

definition supports :: "life_key \<Rightarrow> bool" where
  "supports k = (case k of [(i, kind)] \<Rightarrow> i = ''EventChannel'' \<and> kind = ''object interface'' | _ \<Rightarrow> False)"

fun extract_criteria :: "string \<Rightarrow> criteria \<Rightarrow> criteria" where
  "extract_criteria name [] = []"
| "extract_criteria name ((n, v) # from) = (if n = name then [(n, v)] else extract_criteria name from)"

text \<open>
  One criterion. The numeric ones are stored as \<^verbatim>\<open>addattr(key,long)\<close> does; the deprecated
  \<^verbatim>\<open>PullRetryPeriod\<close> is multiplied in 32 bits.
\<close>

definition parse_ulong :: "string \<Rightarrow> criteria \<Rightarrow> any \<Rightarrow> exn + ulong" where
  "parse_ulong name whole v = (case any_ulong v of
      None \<Rightarrow> Inl (InvalidCriteria (extract_criteria name whole)) | Some n \<Rightarrow> Inr n)"

definition parse_text_criterion :: "string \<Rightarrow> criteria \<Rightarrow> any \<Rightarrow> pnode \<Rightarrow> exn + pnode" where
  "parse_text_criterion name whole v node = (case any_string v of
      None \<Rightarrow> Inl (InvalidCriteria (extract_criteria name whole))
    | Some s \<Rightarrow> Inr (if s \<noteq> [] then addattr (name @ ''='' @ s) node else node))"

definition parse_positive :: "string \<Rightarrow> criteria \<Rightarrow> any \<Rightarrow> pnode \<Rightarrow> exn + pnode" where
  "parse_positive name whole v node = (case parse_ulong name whole v of
      Inl e \<Rightarrow> Inl e
    | Inr n \<Rightarrow> Inr (if n > 0 then addattr_long name (uint n) node else node))"

definition parse_criterion :: "criteria \<Rightarrow> string \<times> any \<Rightarrow> pnode \<Rightarrow> exn + pnode" where
  "parse_criterion whole nv node = (case nv of (name, v) \<Rightarrow>
     (if name = ''PullRetryPeriod_ms''
      then (case parse_ulong name whole v of
              Inl e \<Rightarrow> Inl e
            | Inr n \<Rightarrow> if n \<le> 0 then Inl (CannotMeetCriteria (extract_criteria name whole))
                       else Inr (addattr_long name (uint n) node))
      else if name = ''PullRetryPeriod''
      then (if hasAttr ''PullRetryPeriod_ms'' node then Inr node
            else case parse_ulong name whole v of
              Inl e \<Rightarrow> Inl e
            | Inr n \<Rightarrow> if n \<le> 0 then Inl (CannotMeetCriteria (extract_criteria name whole))
                       else Inr (addattr_long ''PullRetryPeriod_ms'' (uint (n * 1000)) node))
      else if name = ''MaxQueueLength'' \<or> name = ''MaxNumProxies'' \<or> name = ''CyclePeriod_ns''
      then parse_positive name whole v node
      else if name = ''InsName'' \<or> name = ''FilterId''
      then parse_text_criterion name whole v node
      else Inr node))"

fun parse_all :: "criteria \<Rightarrow> criteria \<Rightarrow> pnode \<Rightarrow> exn + pnode" where
  "parse_all whole [] node = Inr node"
| "parse_all whole (c # cs) node = (case parse_criterion whole c node of
      Inl e \<Rightarrow> Inl e | Inr node1 \<Rightarrow> parse_all whole cs node1)"

definition parseCriteria :: "criteria \<Rightarrow> exn + pnode" where
  "parseCriteria criteria = parse_all criteria criteria pn_empty"

section \<open>The service: all channels, the store, the factory\<close>

record service =
  sv_chans :: "(addr, channel) smap"
  sv_store :: store
  sv_port :: ulong
  sv_endPointNoListen :: string

definition stored :: "service \<Rightarrow> (addr \<times> channel) list" where
  "stored sv = List.map_filter (\<lambda>a. map_option (Pair a) (map_of (sv_chans sv) a)) (map fst (sv_store sv))"

definition store_exists :: "string \<Rightarrow> service \<Rightarrow> bool" where
  "store_exists cname sv = list_ex (\<lambda>ac. cname = ch_getname (snd ac)) (stored sv)"

fun output_all :: "env \<Rightarrow> (addr \<times> channel) list \<Rightarrow> world \<Rightarrow> outres \<times> world" where
  "output_all E [] w = (([], None), w)"
| "output_all E ((a, c) # cs) w = out_then (ch_output E c w) (output_all E cs)"

definition store_output :: "env \<Rightarrow> service \<Rightarrow> world \<Rightarrow> outres \<times> world" where
  "store_output E sv w = output_all E (stored sv) w"

text \<open>\<^verbatim>\<open>empty\<close> destroys every channel; the first exception ends the loop.\<close>

fun destroy_all :: "env \<Rightarrow> (addr \<times> channel) list \<Rightarrow> service \<times> world \<Rightarrow> exn option \<times> service \<times> world" where
  "destroy_all E [] sw = (None, sw)"
| "destroy_all E ((a, c) # cs) sw =
     (case ch_destroy E (c, snd sw) of (ex, c1, w1) \<Rightarrow>
        (let sv1 = (fst sw)\<lparr>sv_chans := smap_set a c1 (sv_chans (fst sw))\<rparr>
         in case ex of Some e \<Rightarrow> (Some e, sv1, w1) | None \<Rightarrow> destroy_all E cs (sv1, w1)))"

definition store_empty :: "env \<Rightarrow> service \<times> world \<Rightarrow> exn option \<times> service \<times> world" where
  "store_empty E sw = destroy_all E (stored (fst sw)) sw"

text \<open>\<^verbatim>\<open>EventChannelInfo\<close> has signed 32-bit members.\<close>

record channel_info =
  ci_channel_name :: string
  ci_pull_retry_period :: int
  ci_max_queue_length :: int
  ci_max_num_proxies :: int
  ci_cycle_period :: int
  ci_has_mapper :: bool
  ci_filter_id :: string

definition channel_info_of :: "channel \<Rightarrow> channel_info" where
  "channel_info_of c = \<lparr>ci_channel_name = ch_getname c,
     ci_pull_retry_period = to_int32 (uint (pullRetryPeriod_ms (ch_props c))),
     ci_max_queue_length = to_int32 (uint (maxQueueLength (ch_props c))),
     ci_max_num_proxies = to_int32 (uint (maxNumProxies (ch_props c))),
     ci_cycle_period = to_int32 (uint (cyclePeriod_ns (ch_props c))),
     ci_has_mapper = hasMapper c,
     ci_filter_id = attrString ''FilterId'' [] (ch_props c)\<rparr>"

definition store_list :: "service \<Rightarrow> channel_info list" where
  "store_list sv = map (channel_info_of \<circ> snd) (stored sv)"

section \<open>EventChannelFactory_i\<close>

definition ecf_output :: "env \<Rightarrow> service \<Rightarrow> world \<Rightarrow> outres \<times> world" where
  "ecf_output E sv w =
     out_then ((''ecf port='' @ show_int (uint (sv_port sv)) @
         (if sv_endPointNoListen sv = [] then [] else '' endPointNoListen='' @ sv_endPointNoListen sv) @
         '' ;;'' @ nl, None), w) (store_output E sv)"

text \<open>A new channel, activated; an exception leaves no channel behind in the service.\<close>

definition new_channel :: "env \<Rightarrow> string \<Rightarrow> pnode \<Rightarrow> service \<times> world \<Rightarrow> exn option \<times> addr \<times> service \<times> world" where
  "new_channel E name node sw = (case sw of (sv, w) \<Rightarrow>
     (let a = env_alloc E (w_trace w)
      in case ch_activate E a name (Some node) (EventChannel_i, w) of
           (Some e, c, w1) \<Rightarrow> (Some e, a, sv, snd (snd (ch_destructor E a (c, w1))))
         | (None, c, w1) \<Rightarrow> (None, a, sv\<lparr>sv_chans := smap_set a c (sv_chans sv)\<rparr>, w1)))"

definition create_object :: "env \<Rightarrow> life_key \<Rightarrow> criteria \<Rightarrow> service \<times> world \<Rightarrow> (exn + objref) \<times> service \<times> world"
where
  "create_object E k criteria sw =
     (if \<not> supports k then (Inl NoFactory, sw)
      else case parseCriteria criteria of
        Inl e \<Rightarrow> (Inl e, sw)
      | Inr node \<Rightarrow>
          (case (if hasAttr ''InsName'' node then (attrString ''InsName'' [] node, snd sw)
                 else newUniqueId E (snd sw)) of (channelId, w1) \<Rightarrow>
           case new_channel E channelId node (fst sw, w1) of
             (Some e, a, sw2) \<Rightarrow>
               (Inl (if e = ObjectAlreadyActive \<or> e = AdapterAlreadyExists then InvalidCriteria criteria else e), sw2)
           | (None, a, sw2) \<Rightarrow> (Inr (env_this E (w_trace (snd sw2)) a), sw2)))"

definition create_channel :: "env \<Rightarrow> string \<Rightarrow> service \<times> world \<Rightarrow> (exn + objref) \<times> service \<times> world" where
  "create_channel E name sw =
     (case create_object E [(''EventChannel'', ''object interface'')] [(''InsName'', any_of_string name)] sw of
        (Inr obj, sw1) \<Rightarrow> (Inr obj, sw1)
      | (Inl e, sw1) \<Rightarrow>
          (Inl (case e of
                  InvalidCriteria ic \<Rightarrow>
                    (case ic of (n, _) # _ \<Rightarrow> if n = ''InsName'' then NameAlreadyUsed else UNKNOWN | [] \<Rightarrow> UNKNOWN)
                | _ \<Rightarrow> if is_user_exn e then UNKNOWN else e), sw1))"

text \<open>\<^verbatim>\<open>join_channel\<close> and \<^verbatim>\<open>get_channel\<close> have the same body.\<close>

definition lookup_channel :: "env \<Rightarrow> string \<Rightarrow> world \<Rightarrow> exn + objref" where
  "lookup_channel E name w = (case env_id_to_ref E (w_trace w) INSPOA name of
      Inr obj \<Rightarrow> Inr obj
    | Inl e \<Rightarrow> if e = ObjectNotActive then Inl EventChannelNotFound
               else if is_user_exn e then Inl UNKNOWN else Inl e)"

definition join_channel :: "env \<Rightarrow> string \<Rightarrow> world \<Rightarrow> exn + objref" where
  "join_channel = lookup_channel"

definition get_channel :: "env \<Rightarrow> string \<Rightarrow> world \<Rightarrow> exn + objref" where
  "get_channel = lookup_channel"

definition delete_all :: "env \<Rightarrow> service \<times> world \<Rightarrow> exn option \<times> service \<times> world" where
  "delete_all E sw = store_empty E sw"

definition channel_exists :: "string \<Rightarrow> service \<Rightarrow> bool" where
  "channel_exists name sv = store_exists name sv"

definition list_channels :: "ulong \<Rightarrow> service \<Rightarrow> channel_info list \<times> channel_info iter option" where
  "list_channels how_many sv = list_items how_many (store_list sv)"

text \<open>The constructor: the channels of the logfile, then the factory object itself.\<close>

fun incarnate_channels :: "env \<Rightarrow> (string \<times> pnode) list \<Rightarrow> service \<times> world \<Rightarrow> exn option \<times> service \<times> world" where
  "incarnate_channels E [] sw = (None, sw)"
| "incarnate_channels E ((name, node) # rest) sw =
     (let a = env_alloc E (w_trace (snd sw))
      in case ch_activate E a name (Some node) (EventChannel_i, snd sw) of
           (Some e, c, w1) \<Rightarrow> (Some e, fst sw, w1)
         | (None, c, w1) \<Rightarrow>
             incarnate_channels E rest ((fst sw)\<lparr>sv_chans := smap_set a c (sv_chans (fst sw))\<rparr>, w1))"

definition EventChannelFactory_i :: "env \<Rightarrow> addr \<Rightarrow> pnode \<Rightarrow> world \<Rightarrow> exn option \<times> service \<times> world" where
  "EventChannelFactory_i E self node w =
     then_do (incarnate_channels E (pn_child node)
         (\<lparr>sv_chans = [], sv_store = [], sv_port = word_of_int (attrLong ''port'' 11169 node),
           sv_endPointNoListen = attrString ''endPointNoListen'' [] node\<rparr>, w))
       (\<lambda>(sv, w1). case activateObjectWithId E INSPOA ''omniEvents'' self w1 of (ex, w2) \<Rightarrow> (ex, sv, w2))"

section \<open>What the criteria decide\<close>

text \<open>
  The reference for \<^verbatim>\<open>parseCriteria\<close>: each of the three plain numbers is the last positive value
  given for it; the retry period is the last one in milliseconds, or the first one in seconds
  when none was given in milliseconds before.
\<close>

fun criterion_value :: "string \<Rightarrow> criteria \<Rightarrow> ulong \<Rightarrow> ulong" where
  "criterion_value name [] d = d"
| "criterion_value name ((n, v) # cs) d = criterion_value name cs
     (if n = name then (case any_ulong v of Some k \<Rightarrow> if 0 < k then k else d | None \<Rightarrow> d) else d)"

fun retry_value :: "criteria \<Rightarrow> ulong option \<Rightarrow> ulong option" where
  "retry_value [] r = r"
| "retry_value ((n, v) # cs) r = retry_value cs
     (if n = ''PullRetryPeriod_ms'' then (case any_ulong v of Some k \<Rightarrow> Some k | None \<Rightarrow> r)
      else if n = ''PullRetryPeriod'' \<and> r = None
      then (case any_ulong v of Some k \<Rightarrow> Some (k * 1000) | None \<Rightarrow> r)
      else r)"

definition num_attr :: "string \<Rightarrow> pnode \<Rightarrow> ulong option" where
  "num_attr name node = map_option (\<lambda>s. word_of_int (c_atol s)) (map_of (pn_attr node) name)"

lemma num_attr_long: "num_attr name (addattr_long key (uint v) node) = (if name = key then Some v else num_attr name node)"
  by (cases node) (simp add: num_attr_def addattr_long_def map_of_smap_set atol_show_ulong)

lemma num_attr_text:
  "CHR ''='' \<notin> set key \<Longrightarrow> name \<noteq> key \<Longrightarrow> num_attr name (addattr (key @ ''='' @ s) node) = num_attr name node"
  by (cases node) (simp add: num_attr_def addattr_def map_of_smap_set takeWhile_append)

lemma hasAttr_num: "hasAttr name node \<longleftrightarrow> num_attr name node \<noteq> None"
  by (simp add: hasAttr_def num_attr_def)

lemma attrLong_num:
  "(word_of_int (attrLong name d node) :: ulong) = (case num_attr name node of None \<Rightarrow> word_of_int d | Some v \<Rightarrow> v)"
  by (simp add: attrLong_def num_attr_def split: option.splits)

abbreviation plain_numbers :: "string set" where
  "plain_numbers \<equiv> {''MaxQueueLength'', ''MaxNumProxies'', ''CyclePeriod_ns''}"

lemma parse_positive_num:
  "parse_positive key whole v node = Inr node1 \<Longrightarrow> \<exists>k. any_ulong v = Some k \<and>
     num_attr name node1 = (if name = key \<and> 0 < k then Some k else num_attr name node)"
  by (auto simp: parse_positive_def parse_ulong_def num_attr_long split: option.splits if_splits)

lemma parse_text_num:
  "parse_text_criterion key whole v node = Inr node1 \<Longrightarrow> CHR ''='' \<notin> set key \<Longrightarrow> name \<noteq> key \<Longrightarrow>
   num_attr name node1 = num_attr name node"
  by (auto simp: parse_text_criterion_def num_attr_text simp del: append_Cons split: option.splits if_splits)

lemma five_cases:
  obtains "n = a" | "n = b" | "n \<in> C" | "n \<in> D" | "n \<notin> C \<union> D \<union> {a, b}"
  by blast

lemma parse_criterion_cases:
  assumes "parse_criterion whole (n, v) node = Inr node1"
  obtains
    (ms) k where "n = ''PullRetryPeriod_ms''" "any_ulong v = Some k" "0 < k"
      "node1 = addattr_long ''PullRetryPeriod_ms'' (uint k) node"
  | (old) "n = ''PullRetryPeriod''" "hasAttr ''PullRetryPeriod_ms'' node" "node1 = node"
  | (sec) k where "n = ''PullRetryPeriod''" "\<not> hasAttr ''PullRetryPeriod_ms'' node" "any_ulong v = Some k" "0 < k"
      "node1 = addattr_long ''PullRetryPeriod_ms'' (uint (k * 1000)) node"
  | (num) "n \<in> plain_numbers" "parse_positive n whole v node = Inr node1"
  | (textual) "n \<in> {''InsName'', ''FilterId''}" "parse_text_criterion n whole v node = Inr node1"
  | (other) "n \<notin> plain_numbers \<union> {''InsName'', ''FilterId''} \<union> {''PullRetryPeriod_ms'', ''PullRetryPeriod''}" "node1 = node"
proof -
  consider (a) "n = ''PullRetryPeriod_ms''" | (b) "n = ''PullRetryPeriod''" | (c) "n \<in> plain_numbers"
    | (d) "n \<in> {''InsName'', ''FilterId''}"
    | (e) "n \<notin> plain_numbers \<union> {''InsName'', ''FilterId''} \<union> {''PullRetryPeriod_ms'', ''PullRetryPeriod''}"
    by (rule five_cases)
  then show thesis
  proof cases
    case a
    then show thesis using assms ms
      by (simp add: parse_criterion_def parse_ulong_def word_neq_0_conv split: option.splits if_splits)
  next
    case b
    then have s: "parse_criterion whole (n, v) node = (if hasAttr ''PullRetryPeriod_ms'' node then Inr node
        else case any_ulong v of None \<Rightarrow> Inl (InvalidCriteria (extract_criteria n whole))
          | Some k \<Rightarrow> if k \<le> 0 then Inl (CannotMeetCriteria (extract_criteria n whole))
                      else Inr (addattr_long ''PullRetryPeriod_ms'' (uint (k * 1000)) node))"
      by (simp add: parse_criterion_def parse_ulong_def split: option.split)
    show thesis
    proof (cases "hasAttr ''PullRetryPeriod_ms'' node")
      case True
      then show thesis using assms s b by (intro old) simp_all
    next
      case False
      then obtain k where "any_ulong v = Some k" "\<not> k \<le> 0"
        "node1 = addattr_long ''PullRetryPeriod_ms'' (uint (k * 1000)) node"
        using assms unfolding s by (cases "any_ulong v") (auto split: if_splits)
      then show thesis using False b by (intro sec [where k = k]) (simp_all only: not_le not_False_eq_True)
    qed
  next
    case c
    then have "parse_criterion whole (n, v) node = parse_positive n whole v node"
      by (elim insertE emptyE; simp add: parse_criterion_def)
    then show thesis using assms c num by simp
  next
    case d
    then have "parse_criterion whole (n, v) node = parse_text_criterion n whole v node"
      by (elim insertE emptyE; simp add: parse_criterion_def)
    then show thesis using assms d textual by simp
  next
    case e
    then show thesis using assms other by (simp add: parse_criterion_def)
  qed
qed

lemma parse_criterion_number:
  assumes "parse_criterion whole (n, v) node = Inr node1" and "name \<in> plain_numbers"
  shows "(case num_attr name node1 of None \<Rightarrow> d | Some k \<Rightarrow> k) =
    criterion_value name [(n, v)] (case num_attr name node of None \<Rightarrow> d | Some k \<Rightarrow> k)"
  using assms(1)
proof (cases rule: parse_criterion_cases)
  case ms
  then have "name \<noteq> n" using assms(2) by (elim insertE emptyE; simp)
  then show ?thesis using ms by (simp add: num_attr_long)
next
  case sec
  then have "name \<noteq> n" "name \<noteq> ''PullRetryPeriod_ms''" using assms(2) by (elim insertE emptyE; simp)+
  then show ?thesis using sec by (simp add: num_attr_long)
next
  case num
  then show ?thesis using parse_positive_num [OF num(2), of name] by (auto simp: word_neq_0_conv)
next
  case textual
  then have "CHR ''='' \<notin> set n" by (elim insertE emptyE; simp)
  moreover have "name \<noteq> n" using assms(2) textual(1) by (elim insertE emptyE; simp)
  ultimately show ?thesis using parse_text_num [OF textual(2), of name] by simp
next
  case old
  then have "name \<noteq> n" using assms(2) by (elim insertE emptyE; simp)
  then show ?thesis using old by simp
next
  case other
  then have "name \<noteq> n" using assms(2) by (metis UnI1)
  then show ?thesis using other(2) by simp
qed

lemma parse_criterion_retry:
  assumes "parse_criterion whole (n, v) node = Inr node1"
  shows "num_attr ''PullRetryPeriod_ms'' node1 = retry_value [(n, v)] (num_attr ''PullRetryPeriod_ms'' node)"
  using assms
proof (cases rule: parse_criterion_cases)
  case num
  then have "n \<noteq> ''PullRetryPeriod_ms''" "n \<noteq> ''PullRetryPeriod''" by (elim insertE emptyE; simp)+
  then show ?thesis using parse_positive_num [OF num(2), of "''PullRetryPeriod_ms''"] by simp
next
  case textual
  then have "CHR ''='' \<notin> set n" "n \<noteq> ''PullRetryPeriod_ms''" "n \<noteq> ''PullRetryPeriod''"
    by (elim insertE emptyE; simp)+
  then show ?thesis using parse_text_num [OF textual(2), of "''PullRetryPeriod_ms''"] by simp
next
  case other
  then have "n \<noteq> ''PullRetryPeriod_ms''" "n \<noteq> ''PullRetryPeriod''"
    by (simp_all only: Un_iff insert_iff de_Morgan_disj simp_thms)
  then show ?thesis using other(2) by simp
next
  case (sec k)
  then have "num_attr ''PullRetryPeriod_ms'' node1 = Some (k * 1000)" by (simp only: num_attr_long if_True refl)
  then show ?thesis using sec(1,2,3) by (simp add: hasAttr_num)
next
  case (ms k)
  then have "num_attr ''PullRetryPeriod_ms'' node1 = Some k" by (simp only: num_attr_long if_True refl)
  then show ?thesis using ms(1,2) by simp
next
  case old
  then obtain r where "num_attr ''PullRetryPeriod_ms'' node = Some r" by (auto simp: hasAttr_num)
  then show ?thesis using old(1,3) by simp
qed

lemma criterion_value_Cons: "criterion_value name (c # cs) d = criterion_value name cs (criterion_value name [c] d)"
  by (cases c) simp

lemma retry_value_Cons: "retry_value (c # cs) r = retry_value cs (retry_value [c] r)"
  by (cases c) simp

lemma parse_all_values:
  assumes "parse_all whole cs node = Inr node1"
  shows "name \<in> plain_numbers \<Longrightarrow> (case num_attr name node1 of None \<Rightarrow> d | Some k \<Rightarrow> k) =
      criterion_value name cs (case num_attr name node of None \<Rightarrow> d | Some k \<Rightarrow> k)"
    and "num_attr ''PullRetryPeriod_ms'' node1 = retry_value cs (num_attr ''PullRetryPeriod_ms'' node)"
proof -
  have "(name \<in> plain_numbers \<longrightarrow> (case num_attr name node1 of None \<Rightarrow> d | Some k \<Rightarrow> k) =
      criterion_value name cs (case num_attr name node of None \<Rightarrow> d | Some k \<Rightarrow> k)) \<and>
    num_attr ''PullRetryPeriod_ms'' node1 = retry_value cs (num_attr ''PullRetryPeriod_ms'' node)"
    using assms
  proof (induction whole cs node rule: parse_all.induct)
    case (2 whole c cs node)
    then obtain node2 where n: "parse_criterion whole c node = Inr node2" and r: "parse_all whole cs node2 = Inr node1"
      by (auto split: sum.splits)
    obtain k v where c: "c = (k, v)" by (cases c)
    show ?case
      using "2.IH" [OF n r] parse_criterion_number [OF n [unfolded c], of name d] parse_criterion_retry [OF n [unfolded c]]
      unfolding criterion_value_Cons [of name c cs] retry_value_Cons [of c cs] by (simp only: c) metis
  qed simp
  then show "name \<in> plain_numbers \<Longrightarrow> (case num_attr name node1 of None \<Rightarrow> d | Some k \<Rightarrow> k) =
      criterion_value name cs (case num_attr name node of None \<Rightarrow> d | Some k \<Rightarrow> k)"
    and "num_attr ''PullRetryPeriod_ms'' node1 = retry_value cs (num_attr ''PullRetryPeriod_ms'' node)" by blast+
qed

lemma criterion_value_pos: "0 < d \<Longrightarrow> 0 < criterion_value name cs d"
  by (induction name cs d rule: criterion_value.induct) (auto split: option.splits)

text \<open>A number in its attribute is in the range of 32 bits.\<close>

definition num_ok :: "string \<Rightarrow> pnode \<Rightarrow> bool" where
  "num_ok name node \<longleftrightarrow> (case map_of (pn_attr node) name of None \<Rightarrow> True
     | Some s \<Rightarrow> c_atol s = sint (word_of_int (c_atol s) :: ulong))"

lemma num_ok_long: "num_ok name (addattr_long key (uint (v :: ulong)) node) \<longleftrightarrow> name = key \<or> num_ok name node"
  by (cases node) (simp add: num_ok_def addattr_long_def map_of_smap_set atol_show_sint)

lemma num_ok_text:
  "CHR ''='' \<notin> set key \<Longrightarrow> name \<noteq> key \<Longrightarrow> num_ok name (addattr (key @ ''='' @ s) node) = num_ok name node"
  by (cases node) (simp add: num_ok_def addattr_def map_of_smap_set takeWhile_append)

lemma parse_criterion_ok:
  assumes "parse_criterion whole (n, v) node = Inr node1" and "name \<in> plain_numbers" and "num_ok name node"
  shows "num_ok name node1"
  using assms(1)
proof (cases rule: parse_criterion_cases)
  case num
  then show ?thesis using assms(3)
    by (auto simp: parse_positive_def parse_ulong_def num_ok_long split: option.splits if_splits)
next
  case textual
  then have "CHR ''='' \<notin> set n" by (elim insertE emptyE; simp)
  moreover have "name \<noteq> n" using assms(2) textual(1) by (elim insertE emptyE; simp)
  ultimately show ?thesis using textual(2) assms(3)
    by (auto simp: parse_text_criterion_def num_ok_text simp del: append_Cons split: option.splits if_splits)
qed (simp_all only: num_ok_long assms(3) simp_thms)

lemma parse_all_ok:
  "parse_all whole cs node = Inr node1 \<Longrightarrow> name \<in> plain_numbers \<Longrightarrow> num_ok name node \<Longrightarrow> num_ok name node1"
proof (induction whole cs node rule: parse_all.induct)
  case (2 whole c cs node)
  then show ?case using parse_criterion_ok [of whole "fst c" "snd c" node] by (auto split: sum.splits)
qed simp

lemma num_attr_sint:
  "num_ok name node \<Longrightarrow> d = sint (word_of_int d :: ulong) \<Longrightarrow>
   attrLong name d node = sint (case num_attr name node of None \<Rightarrow> word_of_int d | Some k \<Rightarrow> k)"
  by (simp add: num_ok_def num_attr_def attrLong_def split: option.splits)

lemma num_attr_empty: "num_attr name pn_empty = None" "num_ok name pn_empty"
  by (simp_all add: num_attr_def num_ok_def pn_empty_def)

lemma parseCriteria_values:
  assumes "parseCriteria cs = Inr node"
  shows "maxQueueLength node = criterion_value ''MaxQueueLength'' cs 1023 \<and> 0 < maxQueueLength node \<and>
    maxNumProxies node = criterion_value ''MaxNumProxies'' cs 1024 \<and> 0 < maxNumProxies node \<and>
    cyclePeriod_ns node = word_of_int (sint (criterion_value ''CyclePeriod_ns'' cs 100000000)) \<and>
    pullRetryPeriod_ms node = (case retry_value cs None of None \<Rightarrow> 1000 | Some k \<Rightarrow> k)"
proof -
  have p: "parse_all cs cs pn_empty = Inr node" using assms by (simp add: parseCriteria_def)
  note v = parse_all_values [OF p, unfolded num_attr_empty option.case]
  have "maxQueueLength node = criterion_value ''MaxQueueLength'' cs 1023"
    using v(1) [of "''MaxQueueLength''" 1023] by (simp add: maxQueueLength_def attrLong_num MAX_QUEUE_LENGTH_def split: option.splits)
  moreover have "maxNumProxies node = criterion_value ''MaxNumProxies'' cs 1024"
    using v(1) [of "''MaxNumProxies''" 1024] by (simp add: maxNumProxies_def attrLong_num MAX_NUM_PROXIES_def split: option.splits)
  moreover have "cyclePeriod_ns node = word_of_int (sint (criterion_value ''CyclePeriod_ns'' cs 100000000))"
    using v(1) [of "''CyclePeriod_ns''" 100000000]
      num_attr_sint [OF parse_all_ok [OF p _ num_attr_empty(2)], of "''CyclePeriod_ns''" CYCLE_PERIOD_NS]
    by (simp add: cyclePeriod_ns_def CYCLE_PERIOD_NS_def split: option.splits)
  moreover have "pullRetryPeriod_ms node = (case retry_value cs None of None \<Rightarrow> 1000 | Some k \<Rightarrow> k)"
    using v(2) by (simp add: pullRetryPeriod_ms_def attrLong_num PULL_RETRY_PERIOD_MS_def split: option.split)
  ultimately show ?thesis by (simp add: criterion_value_pos)
qed

text \<open>
  C24. What the criteria decide. If the criteria are accepted, the queue length, the number of
  proxies and the period of the pulls are those of the reference, with the defaults where no
  criterion gives a value, and so neither limit is zero. The cycle period is sign extended
  from 32 to 64 bits.
\<close>

theorem criteria_values:
  assumes "parseCriteria cs = Inr node"
  shows "maxQueueLength node = criterion_value ''MaxQueueLength'' cs 1023 \<and> 0 < maxQueueLength node \<and>
    maxNumProxies node = criterion_value ''MaxNumProxies'' cs 1024 \<and> 0 < maxNumProxies node \<and>
    cyclePeriod_ns node = word_of_int (sint (criterion_value ''CyclePeriod_ns'' cs 100000000)) \<and>
    pullRetryPeriod_ms node = (case retry_value cs None of None \<Rightarrow> 1000 | Some k \<Rightarrow> k)"
  by (rule parseCriteria_values [OF assms])

theorem criteria_values_witness:
  "\<exists>node. parseCriteria [(''MaxQueueLength'', Any tk_ulong [] (VULong 8)), (''MaxNumProxies'', Any tk_ulong [] (VULong 0)),
      (''PullRetryPeriod'', Any tk_ulong [] (VULong 2)), (''CyclePeriod_ns'', Any tk_ulong [] (VULong 0xFFFFFFFF))] = Inr node \<and>
    maxQueueLength node = 8 \<and> maxNumProxies node = 1024 \<and> pullRetryPeriod_ms node = 2000 \<and>
    cyclePeriod_ns node = 0xFFFFFFFFFFFFFFFF"
proof -
  let ?cs = "[(''MaxQueueLength'', Any tk_ulong [] (VULong 8)), (''MaxNumProxies'', Any tk_ulong [] (VULong 0)),
      (''PullRetryPeriod'', Any tk_ulong [] (VULong 2)), (''CyclePeriod_ns'', Any tk_ulong [] (VULong 0xFFFFFFFF))]"
  obtain node where n: "parseCriteria ?cs = Inr node"
    by (simp add: parseCriteria_def parse_criterion_def parse_positive_def parse_ulong_def any_ulong_def
        hasAttr_def addattr_long_def pn_empty_def)
  show ?thesis using criteria_values [OF n] n by (simp add: any_ulong_def)
qed

section \<open>Creating a channel\<close>

lemma createPoa_cases:
  assumes "createPoa E name (c, w) = (ex, c', w')"
  shows "ex = env_create_poa E (w_trace w) RootPOA name \<and>
    c' = (if ex = None then c\<lparr>ch_poa := Some name, ch_held := True\<rparr> else c)"
  using assms by (auto simp: createPoa_def Let_def split: option.splits)

lemma ch_make_admins_chan:
  assumes "ch_make_admins E (c, w) = (ex, c', w')"
  shows "\<exists>ca sa. c' = c\<lparr>ch_consumer := ca, ch_supplier := sa\<rparr> \<and> (ex = None \<longrightarrow> ca \<noteq> None \<and> sa \<noteq> None)"
  using assms
  by (cases c; intro exI [of _ "ch_consumer c'"] exI [of _ "ch_supplier c'"])
    (auto simp: ch_make_admins_def Let_def split: sum.splits prod.splits)

lemma ch_reincarnate_leaf:
  "pn_child node = [] \<Longrightarrow> ch_reincarnate_supplier E node (c, w) = (None, c, w)"
  "pn_child node = [] \<Longrightarrow> ch_reincarnate_consumer E node (c, w) = (None, c, w)"
  by (simp_all add: ch_reincarnate_supplier_def ch_reincarnate_consumer_def child_def split: option.splits)

lemma ch_register_chan:
  "ch_register E self (c, w) = (None, c', w') \<Longrightarrow> c' = c"
  by (auto simp: ch_register_def ch_remove_ref_def ch_add_ref_def Let_def split: prod.splits option.splits)

lemma setInsName_new:
  assumes "setInsName E self v (c, w) = (None, c', w')" and "ch_mapper c = None"
  shows "\<exists>m. c' = c\<lparr>ch_mapper := m\<rparr> \<and> (m = None \<longleftrightarrow> v = [])"
  using assms by (auto simp: setInsName_def split: prod.splits sum.splits option.splits if_splits)

lemma then_do_Some: "then_do r f = (None, s) \<longleftrightarrow> (\<exists>s1. r = (None, s1) \<and> f s1 = (None, s))"
  by (cases r) (auto simp: then_do_def split: option.splits)

definition fresh_channel :: "string \<Rightarrow> pnode \<Rightarrow> channel \<Rightarrow> bool" where
  "fresh_channel name node c \<longleftrightarrow> ch_getname c = name \<and> ch_supplier c \<noteq> None \<and> ch_consumer c \<noteq> None \<and>
     \<not> ch_shutdown c \<and> ch_held c \<and> ch_refCount c = 1 \<and> pn_attr (ch_props c) = pn_attr node \<and>
     (hasMapper c \<longleftrightarrow> attrString ''InsName'' [] node \<noteq> [])"

lemma ch_activate_fresh:
  assumes "ch_activate E self name (Some node) (EventChannel_i, w) = (None, c, w')" and "pn_child node = []"
  shows "fresh_channel name node c"
proof -
  let ?c0 = "EventChannel_i\<lparr>ch_name := name\<rparr>"
  obtain c1 w1 c2 w2 c3 w3 where p: "createPoa E name (?c0, w) = (None, c1, w1)"
    and a: "ch_make_admins E (c1\<lparr>ch_props := PersistNode (pn_attr node) (pn_child (ch_props c1))\<rparr>, w1) = (None, c2, w2)"
    and r: "ch_register E self (c2, w2) = (None, c3, w3)"
    and m: "setInsName E self (attrString ''InsName'' [] (ch_props c3)) (c3, w3) = (None, c, w')"
    using assms unfolding ch_activate_def by (auto simp: then_do_Some ch_reincarnate_leaf)
  have c1: "c1 = ?c0\<lparr>ch_poa := Some name, ch_held := True\<rparr>" using createPoa_cases [OF p] by simp
  obtain ca sa where c2: "c2 = c1\<lparr>ch_props := PersistNode (pn_attr node) (pn_child (ch_props c1)),
      ch_consumer := Some ca, ch_supplier := Some sa\<rparr>" using ch_make_admins_chan [OF a] by auto
  have c3: "c3 = c2" using ch_register_chan [OF r] .
  have n: "ch_mapper c3 = None" by (simp add: c1 c2 c3 EventChannel_i_def)
  have at: "attrString ''InsName'' [] (ch_props c3) = attrString ''InsName'' [] node"
    by (cases node) (simp add: c2 c3 attrString_def)
  obtain mp where "c = c3\<lparr>ch_mapper := mp\<rparr>" "mp = None \<longleftrightarrow> attrString ''InsName'' [] node = []"
    using setInsName_new [OF m n] unfolding at by blast
  then show ?thesis
    by (simp add: fresh_channel_def c1 c2 c3 ch_getname_def hasMapper_def EventChannel_i_def)
qed

lemma parse_InsName:
  "parseCriteria [(''InsName'', any_of_string name)] =
     Inr (if name = [] then pn_empty else addattr (''InsName='' @ name) pn_empty)"
  by (simp add: parseCriteria_def parse_criterion_def parse_text_criterion_def any_string_def any_of_string_def)

lemma InsName_attr:
  "attrString ''InsName'' [] (addattr (''InsName='' @ name) pn_empty) = name"
  "hasAttr ''InsName'' (addattr (''InsName='' @ name) pn_empty)"
  "pn_child (addattr (''InsName='' @ name) pn_empty) = []"
  by (simp_all add: attrString_def hasAttr_def addattr_def pn_empty_def)


lemma new_channel_cases:
  assumes "new_channel E name node (sv, w) = (ex, a, sv1, w1)"
  obtains (failed) e where "ex = Some e" "sv1 = sv"
  | (made) c w2 where "ex = None" "ch_activate E a name (Some node) (EventChannel_i, w) = (None, c, w1)"
      "sv1 = sv\<lparr>sv_chans := smap_set a c (sv_chans sv)\<rparr>"
  using assms by (fastforce simp: new_channel_def Let_def split: prod.splits option.splits)


section \<open>What a client can ask a channel for\<close>

text \<open>The name of a channel and its attributes: what a client can ask for.\<close>

definition channel_key :: "channel \<Rightarrow> string \<times> (string, string) smap" where
  "channel_key c = (poa_name c, pn_attr (ch_props c))"

lemma ch_reincarnate_keeps:
  "ch_reincarnate_supplier E node (c, w) = (ex, c1, w1) \<Longrightarrow> \<exists>sa. c1 = c\<lparr>ch_supplier := sa\<rparr>"
  "ch_reincarnate_consumer E node (c, w) = (ex, c1, w1) \<Longrightarrow> \<exists>ca. c1 = c\<lparr>ch_consumer := ca\<rparr>"
  by (cases c; auto simp: ch_reincarnate_supplier_def ch_reincarnate_consumer_def split: option.splits prod.splits)+

lemma setInsName_keeps: "setInsName E self v (c, w) = (ex, c1, w1) \<Longrightarrow> \<exists>m. c1 = c\<lparr>ch_mapper := m\<rparr>"
  by (cases c) (auto simp: setInsName_def split: prod.splits sum.splits option.splits if_splits)

lemma ch_activate_key:
  assumes "ch_activate E self name (Some node) (c0, w) = (None, c, w')"
  shows "channel_key c = (name, pn_attr node)"
proof -
  obtain c1 w1 c2 w2 c3 w3 c4 w4 c5 w5 where p: "createPoa E name (c0\<lparr>ch_name := name\<rparr>, w) = (None, c1, w1)"
    and a: "ch_make_admins E (c1\<lparr>ch_props := PersistNode (pn_attr node) (pn_child (ch_props c1))\<rparr>, w1) = (None, c2, w2)"
    and s: "ch_reincarnate_supplier E node (c2, w2) = (None, c3, w3)"
    and k: "ch_reincarnate_consumer E node (c3, w3) = (None, c4, w4)"
    and r: "ch_register E self (c4, w4) = (None, c5, w5)"
    and m: "setInsName E self (attrString ''InsName'' [] (ch_props c5)) (c5, w5) = (None, c, w')"
    using assms unfolding ch_activate_def by (auto simp: then_do_Some)
  have "poa_name c1 = name" using createPoa_cases [OF p] by (simp add: poa_name_def)
  moreover obtain ca sa where "c2 = c1\<lparr>ch_props := PersistNode (pn_attr node) (pn_child (ch_props c1)),
      ch_consumer := ca, ch_supplier := sa\<rparr>" using ch_make_admins_chan [OF a] by blast
  moreover obtain sa' where "c3 = c2\<lparr>ch_supplier := sa'\<rparr>" using ch_reincarnate_keeps(1) [OF s] by blast
  moreover obtain ca' where "c4 = c3\<lparr>ch_consumer := ca'\<rparr>" using ch_reincarnate_keeps(2) [OF k] by blast
  moreover have "c5 = c4" using ch_register_chan [OF r] .
  moreover obtain mp where "c = c5\<lparr>ch_mapper := mp\<rparr>" using setInsName_keeps [OF m] by blast
  ultimately show ?thesis by (simp add: channel_key_def poa_name_def)
qed

text \<open>In the environment for concrete runs every activation succeeds.\<close>

lemma idle_activate: "activateObjectWithId idle_env poa oid a w = (None, snd (activateObjectWithId idle_env poa oid a w))"
  by (simp add: activateObjectWithId_def idle_env_def Let_def split: option.splits)

lemma idle_activates:
  obtains w1 where "activateObjectWithId idle_env poa oid a w = (None, w1)"
  using idle_activate by blast

lemma idle_admins:
  assumes q: "EventQueue (uint (maxQueueLength (ch_props c))) = Inr q"
  shows "\<exists>c' w'. ch_make_admins idle_env (c, w) = (None, c', w') \<and> ch_mapper c' = ch_mapper c"
proof -
  let ?poa = "poa_name c"
  obtain w1 where 1: "activateObjectWithId idle_env ?poa ''ConsumerAdmin'' (env_alloc idle_env (w_trace w)) w = (None, w1)"
    by (rule idle_activates)
  obtain pp w2 where 2: "\<And>v. ProxyPushConsumer_i idle_env ?poa (env_alloc idle_env (w_trace v)) v = (Inr pp, w2 v)"
    by (simp add: ProxyPushConsumer_i_def Let_def idle_env_def)
  define v where "v = (if unat (pullRetryPeriod_ms (ch_props c)) > unat (cyclePeriod_ns (ch_props c)) div MILLION
    then orb_call GetTime w1 else w1)"
  obtain w3 where 3: "activateObjectWithId idle_env ?poa ''SupplierAdmin'' (env_alloc idle_env (w_trace w1)) (w2 v) = (None, w3)"
    by (rule idle_activates)
  show ?thesis
    using 3 by (simp add: ch_make_admins_def ConsumerAdmin_i_def SupplierAdmin_i_def q 1 2 3 Let_def v_def)
qed

lemma idle_channel:
  assumes "pn_child node = []" and "EventQueue (uint (maxQueueLength node)) = Inr q"
  shows "\<exists>c w'. ch_activate idle_env self name (Some node) (EventChannel_i, w) = (None, c, w')"
proof -
  let ?c = "EventChannel_i\<lparr>ch_name := name, ch_poa := Some name, ch_held := True, ch_props := PersistNode (pn_attr node) []\<rparr>"
  let ?w = "orb_call (PoaCreate RootPOA name channel_policies) w"
  have 1: "createPoa idle_env name (EventChannel_i\<lparr>ch_name := name\<rparr>, w) =
      (None, EventChannel_i\<lparr>ch_name := name, ch_poa := Some name, ch_held := True\<rparr>, ?w)"
    by (simp add: createPoa_def idle_env_def Let_def)
  have "maxQueueLength (ch_props ?c) = maxQueueLength node"
    by (simp add: maxQueueLength_def attrLong_def)
  then obtain c2 w2 where 2: "ch_make_admins idle_env (?c, ?w) = (None, c2, w2)" and m: "ch_mapper c2 = None"
    using idle_admins [of ?c q ?w] assms(2) by (auto simp: EventChannel_i_def)
  obtain w3 where 3: "activateObjectWithId idle_env (poa_name c2) ''EventChannel'' self w2 = (None, w3)"
    by (rule idle_activates)
  obtain c4 w4 where 4: "ch_register idle_env self (c2, w2) = (None, c4, w4)" and m4: "ch_mapper c4 = None"
    using m by (simp add: ch_register_def 3 ch_remove_ref_def ch_add_ref_def Let_def)
  let ?v = "attrString ''InsName'' [] (ch_props c4)"
  obtain w5 where 5: "activateObjectWithId idle_env INSPOA ?v (env_alloc idle_env (w_trace w4)) w4 = (None, w5)"
    by (rule idle_activates)
  have "\<exists>c' w'. setInsName idle_env self ?v (c4, w4) = (None, c', w')"
    using m4 by (simp add: setInsName_def Mapper_def 5 Let_def)
  moreover have "pn_child (ch_props EventChannel_i) = []" by (simp add: EventChannel_i_def pn_empty_def)
  ultimately show ?thesis using 2 4 assms(1)
    by (simp add: ch_activate_def 1 then_do_def ch_reincarnate_leaf)
qed


end
