(* ===== verification/Naming.thy ===== *)
theory Naming
  imports Corba_Orb
begin

text \<open>
  \<^verbatim>\<open>naming.h\<close> and \<^verbatim>\<open>naming.cc\<close>: names of the naming service, their text form, and the entry of
  the factory into the naming service. The naming service is not part of the repository: its
  answers come from a parameter, from the calls made so far.
\<close>

section \<open>Names and their text\<close>

record name_component =
  nc_id :: string
  nc_kind :: string

type_synonym cos_name = "name_component list"

definition name_output :: "cos_name \<Rightarrow> string" where
  "name_output n = concat (map (\<lambda>c. ''/'' @ nc_id c @ (if nc_kind c = [] then [] else ''.'' @ nc_kind c)) n)"

definition is_sep :: "char \<Rightarrow> bool" where
  "is_sep c \<longleftrightarrow> c = CHR ''/'' \<or> c = CHR ''.''"

text \<open>A component of a sequence is set by its index; an index out of range is \<^verbatim>\<open>InvalidAccess\<close>.\<close>

definition set_last_kind :: "string \<Rightarrow> cos_name \<Rightarrow> exn + cos_name" where
  "set_last_kind k n = (if n = [] then Inl InvalidAccess else Inr (butlast n @ [(last n)\<lparr>nc_kind := k\<rparr>]))"

lemma dropWhile_neq_less: "t \<noteq> [] \<Longrightarrow> P (hd t) \<Longrightarrow> length (dropWhile P t) < length t"
  by (cases t) (auto intro: le_imp_less_Suc length_dropWhile_le)

text \<open>
  The loop of \<^verbatim>\<open>str2name\<close>; its position is the text still to be read. The separator in front of
  a piece decides whether it is an id or a kind: the first one, if there are several.
\<close>

function str2name_loop :: "string \<Rightarrow> char \<Rightarrow> cos_name \<Rightarrow> exn + cos_name" where
  "str2name_loop s last_sep name =
     (let t = dropWhile is_sep s
      in if t = [] then Inr name
         else let piece = takeWhile (\<lambda>c. \<not> is_sep c) t;
                  rest = dropWhile (\<lambda>c. \<not> is_sep c) t
              in case (if last_sep = CHR ''/'' then Inr (name @ [\<lparr>nc_id = piece, nc_kind = []\<rparr>])
                       else set_last_kind piece name) of
                   Inl e \<Rightarrow> Inl e
                 | Inr name1 \<Rightarrow> if rest = [] then Inr name1 else str2name_loop rest (hd rest) name1)"
  by pat_completeness auto

termination
proof (relation "measure (\<lambda>(s, _, _). length s)")
  fix s l and name name1 :: cos_name and t piece rest :: string
  assume t: "t = dropWhile is_sep s" "t \<noteq> []" and r: "rest = dropWhile (\<lambda>c. \<not> is_sep c) t"
  have "\<not> is_sep (hd t)" using t hd_dropWhile by metis
  then have "length rest < length t" using t(2) unfolding r by (rule dropWhile_neq_less [rotated])
  also have "length t \<le> length s" by (simp add: t(1) length_dropWhile_le)
  finally show "((rest, hd rest, name1), (s, l, name)) \<in> measure (\<lambda>(s, _, _). length s)" by simp
qed simp

declare str2name_loop.simps [simp del]

definition str2name :: "string \<Rightarrow> exn + cos_name" where
  "str2name namestr = str2name_loop namestr (CHR ''/'') []"

section \<open>Text and names agree\<close>

definition plain_component :: "name_component \<Rightarrow> bool" where
  "plain_component c \<longleftrightarrow> nc_id c \<noteq> [] \<and> (\<forall>x \<in> set (nc_id c). \<not> is_sep x) \<and> (\<forall>x \<in> set (nc_kind c). \<not> is_sep x)"

lemma piece_split:
  assumes "s \<noteq> []" and "\<forall>x \<in> set s. \<not> is_sep x" and "t = [] \<or> is_sep (hd t)"
  shows "dropWhile is_sep (s @ t) = s @ t \<and> takeWhile (\<lambda>c. \<not> is_sep c) (s @ t) = s \<and>
    dropWhile (\<lambda>c. \<not> is_sep c) (s @ t) = t"
proof -
  have 1: "dropWhile is_sep (s @ t) = s @ t" using assms(1,2) by (cases s) auto
  have 2: "takeWhile (\<lambda>c. \<not> is_sep c) t = [] \<and> dropWhile (\<lambda>c. \<not> is_sep c) t = t" using assms(3) by (cases t) auto
  show ?thesis using 1 2 assms(2) by (simp add: takeWhile_append dropWhile_append)
qed

lemma loop_sep: "is_sep c \<Longrightarrow> str2name_loop (c # s) l n = str2name_loop s l n"
  by (subst (1 2) str2name_loop.simps) simp

lemma loop_id:
  assumes "s \<noteq> []" and "\<forall>x \<in> set s. \<not> is_sep x" and "t = [] \<or> is_sep (hd t)"
  shows "str2name_loop (s @ t) (CHR ''/'') n =
    (if t = [] then Inr (n @ [\<lparr>nc_id = s, nc_kind = []\<rparr>]) else str2name_loop t (hd t) (n @ [\<lparr>nc_id = s, nc_kind = []\<rparr>]))"
  using piece_split [OF assms] assms(1) by (subst str2name_loop.simps) (simp add: Let_def)

lemma loop_kind:
  assumes "s \<noteq> []" and "\<forall>x \<in> set s. \<not> is_sep x" and "t = [] \<or> is_sep (hd t)" and "n \<noteq> []"
  shows "str2name_loop (s @ t) (CHR ''.'') n =
    (if t = [] then Inr (butlast n @ [(last n)\<lparr>nc_kind := s\<rparr>])
     else str2name_loop t (hd t) (butlast n @ [(last n)\<lparr>nc_kind := s\<rparr>]))"
  using piece_split [OF assms(1-3)] assms(1,4) by (subst str2name_loop.simps) (simp add: Let_def set_last_kind_def)

lemma output_head: "name_output n = [] \<or> hd (name_output n) = CHR ''/''"
  by (cases n) (simp_all add: name_output_def)

lemma loop_nil: "str2name_loop [] l n = Inr n"
  by (subst str2name_loop.simps) simp

lemma loop_output:
  "\<forall>c \<in> set ns. plain_component c \<Longrightarrow> str2name_loop (name_output ns) (CHR ''/'') acc = Inr (acc @ ns)"
proof (induction ns arbitrary: acc)
  case Nil
  then show ?case by (simp add: name_output_def loop_nil)
next
  case (Cons c ns)
  obtain i k where c: "c = \<lparr>nc_id = i, nc_kind = k\<rparr>" by (cases c)
  have i: "i \<noteq> []" "\<forall>x \<in> set i. \<not> is_sep x" and k: "\<forall>x \<in> set k. \<not> is_sep x"
    using Cons.prems c by (auto simp: plain_component_def)
  let ?o = "name_output ns"
  have ih: "(if ?o = [] then Inr a else str2name_loop ?o (hd ?o) a) = Inr (a @ ns)" for a
    using Cons.IH [of a] Cons.prems output_head [of ns] by (auto simp: loop_nil)
  have o: "?o = [] \<or> is_sep (hd ?o)" using output_head [of ns] by (auto simp: is_sep_def)
  have seps: "is_sep (CHR ''/'')" "is_sep (CHR ''.'')" by (simp_all add: is_sep_def)
  show ?case
  proof (cases "k = []")
    case True
    then have "name_output (c # ns) = CHR ''/'' # i @ ?o" by (simp add: name_output_def c)
    then show ?thesis using loop_id [OF i o, of acc] ih [of "acc @ [\<lparr>nc_id = i, nc_kind = []\<rparr>]"] True by (simp add: loop_sep seps c)
  next
    case False
    then have n: "name_output (c # ns) = CHR ''/'' # i @ CHR ''.'' # k @ ?o" by (simp add: name_output_def c)
    have t: "CHR ''.'' # k @ ?o = [] \<or> is_sep (hd (CHR ''.'' # k @ ?o))" by (simp add: is_sep_def)
    have "str2name_loop (name_output (c # ns)) (CHR ''/'') acc =
        str2name_loop (k @ ?o) (CHR ''.'') (acc @ [\<lparr>nc_id = i, nc_kind = []\<rparr>])"
      unfolding n using loop_id [OF i t, of acc] by (simp add: loop_sep seps)
    also have "\<dots> = Inr ((acc @ [c]) @ ns)"
      using loop_kind [OF False k o, of "acc @ [\<lparr>nc_id = i, nc_kind = []\<rparr>]"] ih [of "acc @ [\<lparr>nc_id = i, nc_kind = k\<rparr>]"] by (auto simp: c split: if_splits)
    finally show ?thesis by simp
  qed
qed

lemma add_piece:
  assumes "s \<noteq> []" and "\<forall>x \<in> set s. \<not> is_sep x" and "\<forall>c \<in> set n. plain_component c" and "l = CHR ''/'' \<or> n \<noteq> []"
  shows "\<exists>n1. (if l = CHR ''/'' then Inr (n @ [\<lparr>nc_id = s, nc_kind = []\<rparr>]) else set_last_kind s n) = Inr n1 \<and>
    (\<forall>c \<in> set n1. plain_component c) \<and> n1 \<noteq> []"
proof -
  have "plain_component \<lparr>nc_id = s, nc_kind = []\<rparr>" using assms(1,2) by (simp add: plain_component_def)
  moreover have "plain_component ((last n)\<lparr>nc_kind := s\<rparr>)" if "n \<noteq> []"
    using assms(2,3) last_in_set [OF that] by (simp add: plain_component_def)
  ultimately show ?thesis using assms(3,4) by (auto simp: set_last_kind_def dest: in_set_butlastD)
qed

lemma loop_plain:
  "\<forall>c \<in> set n. plain_component c \<Longrightarrow> l = CHR ''/'' \<or> n \<noteq> [] \<Longrightarrow>
   \<exists>n'. str2name_loop s l n = Inr n' \<and> (\<forall>c \<in> set n'. plain_component c)"
proof (induction s l n rule: str2name_loop.induct)
  case (1 s l n)
  let ?t = "dropWhile is_sep s"
  let ?p = "takeWhile (\<lambda>c. \<not> is_sep c) ?t" and ?r = "dropWhile (\<lambda>c. \<not> is_sep c) ?t"
  show ?case
  proof (cases "?t = []")
    case True
    then show ?thesis using 1(2) by (subst str2name_loop.simps) simp
  next
    case False
    have "\<not> is_sep (hd ?t)" using False hd_dropWhile by metis
    then have p: "?p \<noteq> []" "\<forall>x \<in> set ?p. \<not> is_sep x" using False by (cases ?t; auto dest: set_takeWhileD)+
    obtain n1 where s: "(if l = CHR ''/'' then Inr (n @ [\<lparr>nc_id = ?p, nc_kind = []\<rparr>]) else set_last_kind ?p n) = Inr n1"
      and n1: "\<forall>c \<in> set n1. plain_component c" "n1 \<noteq> []"
      using add_piece [OF p 1(2,3)] by blast
    show ?thesis
    proof (cases "?r = []")
      case True
      have "str2name_loop s l n = Inr n1"
        by (subst str2name_loop.simps) (simp only: Let_def False s True if_False if_True sum.case simp_thms)
      then show ?thesis using n1(1) by blast
    next
      case r: False
      have "str2name_loop s l n = str2name_loop ?r (hd ?r) n1"
        by (subst str2name_loop.simps) (simp only: Let_def False s r if_False if_True sum.case simp_thms)
      moreover have "\<exists>n'. str2name_loop ?r (hd ?r) n1 = Inr n' \<and> (\<forall>c \<in> set n'. plain_component c)"
        using 1(1) [OF refl False refl refl s r n1(1)] n1(2) by blast
      ultimately show ?thesis by metis
    qed
  qed
qed

text \<open>
  C28. Names and their text. Every text is a name: \<^verbatim>\<open>str2name\<close> never writes the kind of a
  component that does not exist, and every component it makes has a nonempty id and no
  separator in it. Written out and read again the name is the same, and so is every other name
  whose components are of that form.
\<close>

theorem str2name_normal_form:
  "(\<exists>n. str2name s = Inr n \<and> (\<forall>c \<in> set n. plain_component c) \<and> str2name (name_output n) = Inr n) \<and>
   ((\<forall>c \<in> set m. plain_component c) \<longrightarrow> str2name (name_output m) = Inr m)"
  using loop_plain [of "[]" "CHR ''/''" s] loop_output [of _ "[]"] by (auto simp: str2name_def)

theorem str2name_normal_form_witness:
  "let m = [\<lparr>nc_id = ''foo'', nc_kind = ''bar''\<rparr>, \<lparr>nc_id = ''baz'', nc_kind = []\<rparr>]
   in str2name (name_output m) = Inr m \<and> name_output m = ''/foo.bar/baz''"
proof -
  let ?m = "[\<lparr>nc_id = ''foo'', nc_kind = ''bar''\<rparr>, \<lparr>nc_id = ''baz'', nc_kind = []\<rparr>]"
  have "\<forall>c \<in> set ?m. plain_component c" by (simp add: plain_component_def is_sep_def)
  then show ?thesis using str2name_normal_form [of "[]" ?m] by (simp add: name_output_def)
qed

section \<open>Binding a name\<close>

abbreviation AlreadyBound :: exn where
  "AlreadyBound \<equiv> UserOther ''AlreadyBound''"

type_synonym naming_context = nat

datatype ns_call =
    NsBindNewContext naming_context name_component
  | NsResolve naming_context name_component
  | NsBind naming_context name_component objref
  | NsRebind naming_context name_component objref

text \<open>\<open>None\<close> is a nil reference: what is bound is not a naming context.\<close>

record naming_env =
  ns_bind_new_context :: "ns_call list \<Rightarrow> naming_context \<Rightarrow> name_component \<Rightarrow> exn + naming_context option"
  ns_resolve :: "ns_call list \<Rightarrow> naming_context \<Rightarrow> name_component \<Rightarrow> exn + naming_context option"
  ns_bind :: "ns_call list \<Rightarrow> naming_context \<Rightarrow> name_component \<Rightarrow> objref \<Rightarrow> exn option"
  ns_rebind :: "ns_call list \<Rightarrow> naming_context \<Rightarrow> name_component \<Rightarrow> objref \<Rightarrow> exn option"

definition enter_context :: "naming_env \<Rightarrow> naming_context \<Rightarrow> name_component \<Rightarrow> ns_call list
    \<Rightarrow> (exn + naming_context option) \<times> ns_call list" where
  "enter_context N ctx c tr =
     (let tr1 = tr @ [NsBindNewContext ctx c]
      in case ns_bind_new_context N tr ctx c of
           Inr ctx1 \<Rightarrow> (Inr ctx1, tr1)
         | Inl e \<Rightarrow> if e = AlreadyBound then (ns_resolve N tr1 ctx c, tr1 @ [NsResolve ctx c]) else (Inl e, tr1))"

definition bind_object :: "naming_env \<Rightarrow> naming_context \<Rightarrow> name_component \<Rightarrow> objref \<Rightarrow> ns_call list
    \<Rightarrow> (exn + int) \<times> ns_call list" where
  "bind_object N ctx c obj tr =
     (let tr1 = tr @ [NsBind ctx c obj]
      in case ns_bind N tr ctx c obj of
           None \<Rightarrow> (Inr 0, tr1)
         | Some e \<Rightarrow> if e = AlreadyBound
             then (case ns_rebind N tr1 ctx c obj of
                     None \<Rightarrow> (Inr 0, tr1 @ [NsRebind ctx c obj])
                   | Some e1 \<Rightarrow> (Inl e1, tr1 @ [NsRebind ctx c obj]))
             else (Inl e, tr1))"

text \<open>The loop over the contexts. It starts with an index into the name, also if the name is empty.\<close>

fun drill_down :: "naming_env \<Rightarrow> naming_context \<Rightarrow> cos_name \<Rightarrow> objref \<Rightarrow> ns_call list \<Rightarrow> (exn + int) \<times> ns_call list" where
  "drill_down N ctx [] obj tr = (Inl InvalidAccess, tr)"
| "drill_down N ctx [c] obj tr = bind_object N ctx c obj tr"
| "drill_down N ctx (c # cs) obj tr =
     (case enter_context N ctx c tr of
        (Inl e, tr1) \<Rightarrow> (Inl e, tr1)
      | (Inr None, tr1) \<Rightarrow> (Inr 2, tr1)
      | (Inr (Some ctx1), tr1) \<Rightarrow> drill_down N ctx1 cs obj tr1)"

text \<open>Every exception of CORBA ends the process; others are passed on.\<close>

definition bindName2Object :: "naming_env \<Rightarrow> naming_context option \<Rightarrow> cos_name \<Rightarrow> objref \<Rightarrow> ns_call list
    \<Rightarrow> (exn + int) \<times> ns_call list" where
  "bindName2Object N namingContext name obj tr =
     (case namingContext of
        None \<Rightarrow> (Inr 1, tr)
      | Some ctx \<Rightarrow>
          (case drill_down N ctx name obj tr of
             (Inl e, tr1) \<Rightarrow> (Inl (if is_corba_exn e then ProcessExit 1 else e), tr1)
           | (Inr r, tr1) \<Rightarrow> (Inr r, tr1)))"

text \<open>The calls that create: the contexts and the binding itself.\<close>

definition creates :: "ns_call list \<Rightarrow> ns_call list" where
  "creates = filter (\<lambda>c. case c of NsBindNewContext _ _ \<Rightarrow> True | NsBind _ _ _ \<Rightarrow> True | _ \<Rightarrow> False)"

lemma creates_simps [simp]:
  "creates [] = []" "creates (xs @ ys) = creates xs @ creates ys"
  "creates (NsBindNewContext x c # tr) = NsBindNewContext x c # creates tr"
  "creates (NsResolve x c # tr) = creates tr" "creates (NsBind x c obj # tr) = NsBind x c obj # creates tr"
  "creates (NsRebind x c obj # tr) = creates tr"
  by (simp_all add: creates_def)

lemma enter_creates: "enter_context N ctx c tr = (r, tr1) \<Longrightarrow> creates tr1 = creates tr @ [NsBindNewContext ctx c]"
  by (auto simp: enter_context_def Let_def split: sum.splits if_splits)

lemma bind_creates:
  "bind_object N ctx c obj tr = (Inr r, tr1) \<Longrightarrow> r = 0 \<and> creates tr1 = creates tr @ [NsBind ctx c obj] \<and>
     (last tr1 = NsBind ctx c obj \<and> ns_bind N (butlast tr1) ctx c obj = None \<or>
      last tr1 = NsRebind ctx c obj \<and> ns_rebind N (butlast tr1) ctx c obj = None)"
  by (auto simp: bind_object_def Let_def butlast_append split: option.splits if_splits)

lemma drill_down_creates:
  "drill_down N ctx name obj tr = (Inr 0, tr1) \<Longrightarrow>
   \<exists>cs. length cs = length name \<and> cs \<noteq> [] \<and> hd cs = ctx \<and>
     creates tr1 = creates tr @ map2 NsBindNewContext (butlast cs) (butlast name) @ [NsBind (last cs) (last name) obj] \<and>
     (last tr1 = NsBind (last cs) (last name) obj \<and> ns_bind N (butlast tr1) (last cs) (last name) obj = None \<or>
      last tr1 = NsRebind (last cs) (last name) obj \<and> ns_rebind N (butlast tr1) (last cs) (last name) obj = None)"
proof (induction N ctx name obj tr rule: drill_down.induct)
  case (2 N ctx c obj tr)
  then show ?case using bind_creates [of N ctx c obj tr 0 tr1] by (intro exI [of _ "[ctx]"]) auto
next
  case (3 N ctx c d ds obj tr)
  obtain r tr2 where e: "enter_context N ctx c tr = (r, tr2)" by force
  with 3(2) obtain x where r: "r = Inr (Some x)" and d: "drill_down N x (d # ds) obj tr2 = (Inr 0, tr1)"
    by (auto split: sum.splits option.splits)
  from 3(1) [OF e [symmetric] r refl d] obtain cs where cs: "length cs = length (d # ds)" "cs \<noteq> []" "hd cs = x"
    "creates tr1 = creates tr2 @ map2 NsBindNewContext (butlast cs) (butlast (d # ds)) @ [NsBind (last cs) (last (d # ds)) obj]"
    "last tr1 = NsBind (last cs) (last (d # ds)) obj \<and> ns_bind N (butlast tr1) (last cs) (last (d # ds)) obj = None \<or>
      last tr1 = NsRebind (last cs) (last (d # ds)) obj \<and> ns_rebind N (butlast tr1) (last cs) (last (d # ds)) obj = None"
    by blast
  show ?case using cs enter_creates [OF e] by (intro exI [of _ "ctx # cs"]) auto
qed simp

text \<open>
  \<^verbatim>\<open>bindName2Object\<close> and the naming service. It returns 1 without a call if there is no
  naming service. If it returns 0, then it asked for a new context once for every component but
  the last, each in the context before, and the last call of all bound the object to the last
  component, replacing what was bound before. Every exception of CORBA becomes \<^verbatim>\<open>exit(1)\<close>.
\<close>

lemma bindName2Object_binds:
  "bindName2Object N None name obj tr = (Inr 1, tr) \<and>
   (\<forall>ctx tr1. bindName2Object N (Some ctx) name obj tr = (Inr 0, tr1) \<longrightarrow>
     (\<exists>cs. length cs = length name \<and> hd cs = ctx \<and>
       creates tr1 = creates tr @ map2 NsBindNewContext (butlast cs) (butlast name) @ [NsBind (last cs) (last name) obj] \<and>
       (last tr1 = NsBind (last cs) (last name) obj \<and> ns_bind N (butlast tr1) (last cs) (last name) obj = None \<or>
        last tr1 = NsRebind (last cs) (last name) obj \<and> ns_rebind N (butlast tr1) (last cs) (last name) obj = None))) \<and>
   (\<forall>ctx e tr1. bindName2Object N (Some ctx) name obj tr = (Inl e, tr1) \<longrightarrow> e = ProcessExit 1 \<or> is_fatal e)"
proof (intro conjI allI impI)
  fix ctx tr1
  assume "bindName2Object N (Some ctx) name obj tr = (Inr 0, tr1)"
  then have "drill_down N ctx name obj tr = (Inr 0, tr1)" by (auto simp: bindName2Object_def split: prod.splits sum.splits)
  then show "\<exists>cs. length cs = length name \<and> hd cs = ctx \<and>
       creates tr1 = creates tr @ map2 NsBindNewContext (butlast cs) (butlast name) @ [NsBind (last cs) (last name) obj] \<and>
       (last tr1 = NsBind (last cs) (last name) obj \<and> ns_bind N (butlast tr1) (last cs) (last name) obj = None \<or>
        last tr1 = NsRebind (last cs) (last name) obj \<and> ns_rebind N (butlast tr1) (last cs) (last name) obj = None)"
    by (blast dest: drill_down_creates)
next
  fix ctx e tr1
  assume "bindName2Object N (Some ctx) name obj tr = (Inl e, tr1)"
  then show "e = ProcessExit 1 \<or> is_fatal e"
    by (auto simp: bindName2Object_def is_corba_exn_def split: prod.splits sum.splits if_splits)
qed (simp add: bindName2Object_def)

definition demo_naming :: naming_env where
  "demo_naming = \<lparr>ns_bind_new_context = (\<lambda>tr x c. if tr = [] then Inl AlreadyBound else Inr (Some (Suc x))),
     ns_resolve = (\<lambda>tr x c. Inr (Some 7)), ns_bind = (\<lambda>tr x c obj. Some AlreadyBound), ns_rebind = (\<lambda>tr x c obj. None)\<rparr>"

end
