(* ===== verification/Getopt.thy ===== *)
theory Getopt
  imports Corba_Orb
begin

text \<open>
  \<^verbatim>\<open>getopt.h\<close> and \<^verbatim>\<open>getopt.cc\<close>: the command line parser that is compiled where the system has
  none. Its static variable and its exported variables are the state; the caller's loop
  calls it until it returns \<^verbatim>\<open>EOF\<close>.
\<close>

section \<open>One option\<close>

record getopt_state =
  go_optind :: nat
  go_letP :: "string option"
  go_optarg :: "string option"

datatype getopt_result = GoEOF | GoChar char

definition getopt_start :: getopt_state where
  "getopt_start = \<lparr>go_optind = 1, go_letP = None, go_optarg = None\<rparr>"

definition gopEOF :: "getopt_state \<Rightarrow> getopt_result \<times> getopt_state" where
  "gopEOF st = (GoEOF, st\<lparr>go_letP := None, go_optarg := None\<rparr>)"

definition gopError :: "getopt_state \<Rightarrow> getopt_result \<times> getopt_state" where
  "gopError st = (GoChar (CHR ''?''), st\<lparr>go_optarg := None\<rparr>)"

text \<open>\<open>after c s\<close>: the text behind the first \<open>c\<close>, what \<^verbatim>\<open>strchr\<close> finds.\<close>

definition after :: "char \<Rightarrow> string \<Rightarrow> string option" where
  "after c s = (case dropWhile (\<lambda>x. x \<noteq> c) s of [] \<Rightarrow> None | _ # t \<Rightarrow> Some t)"

definition needs_arg :: "string \<Rightarrow> char \<Rightarrow> bool" where
  "needs_arg optionS ch \<longleftrightarrow> (case after ch optionS of Some (c # _) \<Rightarrow> c = CHR '':'' | _ \<Rightarrow> False)"

definition known_option :: "string \<Rightarrow> char \<Rightarrow> bool" where
  "known_option optionS ch \<longleftrightarrow> ch \<noteq> CHR '':'' \<and> after ch optionS \<noteq> None"

text \<open>From the next letter on.\<close>

fun getopt_letter :: "string list \<Rightarrow> string \<Rightarrow> string \<Rightarrow> getopt_state \<Rightarrow> getopt_result \<times> getopt_state" where
  "getopt_letter argv optionS [] st = gopEOF (st\<lparr>go_optind := Suc (go_optind st)\<rparr>)"
| "getopt_letter argv optionS (ch # letP) st =
     (if \<not> known_option optionS ch then gopError (st\<lparr>go_letP := Some letP\<rparr>)
      else if needs_arg optionS ch
      then (let st1 = st\<lparr>go_optind := Suc (go_optind st)\<rparr>
            in if letP = []
               then if length argv \<le> go_optind st1 then gopError (st1\<lparr>go_letP := Some []\<rparr>)
                    else (GoChar ch, st1\<lparr>go_optind := Suc (go_optind st1), go_optarg := Some (argv ! go_optind st1), go_letP := None\<rparr>)
               else (GoChar ch, st1\<lparr>go_optarg := Some letP, go_letP := None\<rparr>))
      else if letP = [] then (GoChar ch, st\<lparr>go_optind := Suc (go_optind st), go_letP := None, go_optarg := None\<rparr>)
      else (GoChar ch, st\<lparr>go_letP := Some letP, go_optarg := None\<rparr>))"

definition getopt :: "string list \<Rightarrow> string \<Rightarrow> getopt_state \<Rightarrow> getopt_result \<times> getopt_state" where
  "getopt argv optionS st =
     (if go_optind st < length argv
      then (case go_letP st of
              Some letP \<Rightarrow> getopt_letter argv optionS letP st
            | None \<Rightarrow>
                (case argv ! go_optind st of
                   [] \<Rightarrow> gopEOF st
                 | sw # letP \<Rightarrow>
                     if sw \<noteq> CHR ''-'' then gopEOF st
                     else if letP \<noteq> [] \<and> hd letP = CHR ''-'' then gopEOF (st\<lparr>go_optind := Suc (go_optind st)\<rparr>)
                     else getopt_letter argv optionS letP st))
      else gopEOF st)"

section \<open>The loop of the callers\<close>

text \<open>What is left to read: the letters of the current word and the words behind it.\<close>

definition unread :: "string list \<Rightarrow> nat \<Rightarrow> nat" where
  "unread argv n = sum_list (map (\<lambda>w. Suc (length w)) (drop n argv))"

definition getopt_left :: "string list \<Rightarrow> getopt_state \<Rightarrow> nat" where
  "getopt_left argv st = (case go_letP st of None \<Rightarrow> unread argv (go_optind st)
     | Some l \<Rightarrow> Suc (length l) + unread argv (Suc (go_optind st)))"

lemma unread_Suc: "n < length argv \<Longrightarrow> unread argv n = Suc (length (argv ! n)) + unread argv (Suc n)"
  by (simp add: unread_def Cons_nth_drop_Suc [symmetric])

lemma unread_le: "unread argv (Suc n) \<le> unread argv n"
  by (cases "n < length argv") (simp_all add: unread_Suc, simp add: unread_def)

lemma letter_left:
  "getopt_letter argv optionS l st = (GoChar c, st1) \<Longrightarrow>
   getopt_left argv st1 < Suc (length l) + unread argv (Suc (go_optind st))"
  using unread_le [of argv "Suc (go_optind st)"]
  by (cases l) (auto simp: gopEOF_def gopError_def getopt_left_def Let_def less_Suc_eq_le intro: le_SucI split: if_splits)

lemma getopt_left_decreases: "getopt argv optionS st = (GoChar c, st1) \<Longrightarrow> getopt_left argv st1 < getopt_left argv st"
proof -
  assume g: "getopt argv optionS st = (GoChar c, st1)"
  then have n: "go_optind st < length argv" by (auto simp: getopt_def gopEOF_def split: if_splits)
  show ?thesis
  proof (cases "go_letP st")
    case None
    then obtain letP where w: "argv ! go_optind st = CHR ''-'' # letP" "getopt_letter argv optionS letP st = (GoChar c, st1)"
      using g n by (auto simp: getopt_def gopEOF_def split: list.splits if_splits)
    show ?thesis using letter_left [OF w(2)] None unread_Suc [OF n] w(1) by (simp add: getopt_left_def)
  next
    case (Some l)
    then show ?thesis using g n letter_left [of argv optionS l st c st1] by (simp add: getopt_def getopt_left_def)
  qed
qed

function getopt_all :: "string list \<Rightarrow> string \<Rightarrow> getopt_state \<Rightarrow> (char \<times> string option) list \<times> getopt_state" where
  "getopt_all argv optionS st = (case getopt argv optionS st of
      (GoEOF, st1) \<Rightarrow> ([], st1)
    | (GoChar c, st1) \<Rightarrow> (case getopt_all argv optionS st1 of (cs, st2) \<Rightarrow> ((c, go_optarg st1) # cs, st2)))"
  by pat_completeness auto

termination
  by (relation "measure (\<lambda>(argv, _, st). getopt_left argv st)") (auto intro: getopt_left_decreases [OF sym])

declare getopt_all.simps [simp del]

text \<open>The callers read \<^verbatim>\<open>optarg\<close>; it is null for a letter without an argument.\<close>

definition with_optarg :: "string option \<Rightarrow> (string \<Rightarrow> exn + 'a) \<Rightarrow> exn + 'a" where
  "with_optarg optarg f = (case optarg of None \<Rightarrow> Inl InvalidAccess | Some s \<Rightarrow> f s)"

section \<open>Command lines\<close>

text \<open>
  A word of options: flags, and behind them at most one option with an argument, in the same
  word or in the next one.
\<close>

datatype opt_word = Flags "char list" | FlagsJoined "char list" char string | FlagsNext "char list" char string

fun word_args :: "opt_word \<Rightarrow> string list" where
  "word_args (Flags fs) = [CHR ''-'' # fs]"
| "word_args (FlagsJoined fs c a) = [CHR ''-'' # fs @ c # a]"
| "word_args (FlagsNext fs c a) = [CHR ''-'' # fs @ [c], a]"

fun word_opts :: "opt_word \<Rightarrow> (char \<times> string option) list" where
  "word_opts (Flags fs) = map (\<lambda>f. (f, None)) fs"
| "word_opts (FlagsJoined fs c a) = map (\<lambda>f. (f, None)) fs @ [(c, Some a)]"
| "word_opts (FlagsNext fs c a) = map (\<lambda>f. (f, None)) fs @ [(c, Some a)]"

definition flag_ok :: "string \<Rightarrow> char \<Rightarrow> bool" where
  "flag_ok optionS c \<longleftrightarrow> known_option optionS c \<and> \<not> needs_arg optionS c \<and> c \<noteq> CHR ''-''"

definition param_ok :: "string \<Rightarrow> char \<Rightarrow> bool" where
  "param_ok optionS c \<longleftrightarrow> known_option optionS c \<and> needs_arg optionS c \<and> c \<noteq> CHR ''-''"

fun opt_word_ok :: "string \<Rightarrow> opt_word \<Rightarrow> bool" where
  "opt_word_ok optionS (Flags fs) \<longleftrightarrow> fs \<noteq> [] \<and> (\<forall>f \<in> set fs. flag_ok optionS f)"
| "opt_word_ok optionS (FlagsJoined fs c a) \<longleftrightarrow> (\<forall>f \<in> set fs. flag_ok optionS f) \<and> param_ok optionS c \<and> a \<noteq> []"
| "opt_word_ok optionS (FlagsNext fs c a) \<longleftrightarrow> (\<forall>f \<in> set fs. flag_ok optionS f) \<and> param_ok optionS c"

text \<open>Where the options end: at the end of the line, or at a word that does not start with a dash.\<close>

definition options_end :: "string list \<Rightarrow> bool" where
  "options_end rest \<longleftrightarrow> rest = [] \<or> hd rest = [] \<or> hd (hd rest) \<noteq> CHR ''-''"

text \<open>\<open>at_letters n l st\<close>: the next letters of word \<open>n\<close> are \<open>l\<close>, whether or not the word was begun.\<close>

definition at_letters :: "string list \<Rightarrow> nat \<Rightarrow> string \<Rightarrow> getopt_state \<Rightarrow> bool" where
  "at_letters argv n l st \<longleftrightarrow> go_optind st = n \<and> n < length argv \<and> l \<noteq> [] \<and> hd l \<noteq> CHR ''-'' \<and>
     (go_letP st = Some l \<or> go_letP st = None \<and> argv ! n = CHR ''-'' # l)"

lemma at_letters_letter: "at_letters argv n l st \<Longrightarrow> getopt argv optionS st = getopt_letter argv optionS l st"
  by (auto simp: at_letters_def getopt_def)

definition word_done :: "nat \<Rightarrow> getopt_state \<Rightarrow> bool" where
  "word_done n st \<longleftrightarrow> go_optind st = n \<and> go_letP st = None"

lemma getopt_all_step:
  "getopt argv optionS st = (GoChar c, st1) \<Longrightarrow>
   getopt_all argv optionS st = (case getopt_all argv optionS st1 of (cs, st2) \<Rightarrow> ((c, go_optarg st1) # cs, st2))"
  by (subst getopt_all.simps) simp

lemma read_flags:
  assumes "\<forall>f \<in> set fs. flag_ok optionS f" and "fs \<noteq> []" and "at_letters argv n (fs @ t) st"
    and "t \<noteq> [] \<Longrightarrow> hd t \<noteq> CHR ''-''"
  shows "\<exists>st1. getopt_all argv optionS st = (case getopt_all argv optionS st1 of (cs, st2) \<Rightarrow> (map (\<lambda>f. (f, None)) fs @ cs, st2)) \<and>
    (if t = [] then word_done (Suc n) st1 else at_letters argv n t st1)"
  using assms
proof (induction fs arbitrary: st)
  case (Cons f fs)
  have f: "known_option optionS f" "\<not> needs_arg optionS f" using Cons.prems(1) by (auto simp: flag_ok_def)
  let ?st1 = "if fs @ t = [] then st\<lparr>go_optind := Suc (go_optind st), go_letP := None, go_optarg := None\<rparr>
    else st\<lparr>go_letP := Some (fs @ t), go_optarg := None\<rparr>"
  have g: "getopt argv optionS st = (GoChar f, ?st1)" "go_optarg ?st1 = None"
    using at_letters_letter [OF Cons.prems(3)] f by simp_all
  have n: "go_optind st = n" "n < length argv" using Cons.prems(3) by (auto simp: at_letters_def)
  show ?case
  proof (cases "fs = []")
    case True
    then have "if t = [] then word_done (Suc n) ?st1 else at_letters argv n t ?st1"
      using n Cons.prems(4) by (auto simp: word_done_def at_letters_def)
    then show ?thesis using getopt_all_step [OF g(1)] g(2) True by (intro exI [of _ ?st1]) simp
  next
    case False
    have "hd fs \<noteq> CHR ''-''" using Cons.prems(1) False by (cases fs) (auto simp: flag_ok_def)
    then have "at_letters argv n (fs @ t) ?st1" using n False by (auto simp: at_letters_def)
    from Cons.IH [OF _ False this Cons.prems(4)] Cons.prems(1) obtain st2 where
      "getopt_all argv optionS ?st1 = (case getopt_all argv optionS st2 of (cs, st2) \<Rightarrow> (map (\<lambda>f. (f, None)) fs @ cs, st2))"
      "if t = [] then word_done (Suc n) st2 else at_letters argv n t st2" by auto
    then show ?thesis using getopt_all_step [OF g(1)] g(2) by (intro exI [of _ st2]) (simp split: prod.splits)
  qed
qed simp

lemma read_param:
  assumes "param_ok optionS c" and "at_letters argv n (c # a) st" and "a = [] \<Longrightarrow> Suc n < length argv"
  shows "\<exists>st1. getopt_all argv optionS st =
      (case getopt_all argv optionS st1 of (cs, st2) \<Rightarrow> ((c, Some (if a = [] then argv ! Suc n else a)) # cs, st2)) \<and>
    word_done (if a = [] then n + 2 else Suc n) st1"
proof -
  let ?st1 = "if a = [] then st\<lparr>go_optind := n + 2, go_optarg := Some (argv ! Suc n), go_letP := None\<rparr>
    else st\<lparr>go_optind := Suc n, go_optarg := Some a, go_letP := None\<rparr>"
  have n: "go_optind st = n" using assms(2) by (simp add: at_letters_def)
  have g: "getopt argv optionS st = (GoChar c, ?st1)"
    using at_letters_letter [OF assms(2)] assms(1,3) n by (auto simp: param_ok_def Let_def)
  show ?thesis using getopt_all_step [OF g] by (intro exI [of _ ?st1]) (auto simp: word_done_def)
qed

lemma flags_param:
  assumes "\<forall>f \<in> set fs. flag_ok optionS f" and "at_letters argv n (fs @ c # a) st" and "c \<noteq> CHR ''-''"
  shows "\<exists>st1. getopt_all argv optionS st = (case getopt_all argv optionS st1 of (cs, st2) \<Rightarrow> (map (\<lambda>f. (f, None)) fs @ cs, st2)) \<and>
    at_letters argv n (c # a) st1"
  using assms read_flags [OF assms(1) _ assms(2)] by (cases "fs = []") (auto intro!: exI [of _ st])

lemma take_drop_nth:
  assumes "take (length ys) (drop n xs) = ys" and "i < length ys"
  shows "n + i < length xs \<and> xs ! (n + i) = ys ! i"
proof -
  have "length ys \<le> length (drop n xs)" using arg_cong [OF assms(1), of length] by simp
  then have "n + i < length xs" using assms(2) by simp
  moreover have "xs ! (n + i) = take (length ys) (drop n xs) ! i" using assms(2) calculation by simp
  ultimately show ?thesis using assms(1) by simp
qed

lemma read_word:
  assumes "opt_word_ok optionS w" and "word_done n st" and "take (length (word_args w)) (drop n argv) = word_args w"
  shows "\<exists>st1. getopt_all argv optionS st = (case getopt_all argv optionS st1 of (cs, st2) \<Rightarrow> (word_opts w @ cs, st2)) \<and>
    word_done (n + length (word_args w)) st1"
proof -
  have first: "n < length argv" "argv ! n = hd (word_args w)"
    using take_drop_nth [OF assms(3), of 0] by (cases w; simp)+
  have second: "Suc n < length argv \<and> argv ! Suc n = a" if "w = FlagsNext fs c a" for fs c a
    using take_drop_nth [OF assms(3), of 1] that by simp
  show ?thesis
  proof (cases w)
    case (Flags fs)
    have "at_letters argv n fs st"
      using assms(1,2) first Flags by (cases fs) (auto simp: at_letters_def word_done_def flag_ok_def)
    then show ?thesis using read_flags [of fs optionS argv n "[]" st] assms(1) Flags by auto
  next
    case (FlagsJoined fs c a)
    have p: "param_ok optionS c" "\<forall>f \<in> set fs. flag_ok optionS f" "a \<noteq> []" using assms(1) FlagsJoined by auto
    have "at_letters argv n (fs @ c # a) st"
      using p assms(2) first FlagsJoined by (cases fs) (auto simp: at_letters_def word_done_def flag_ok_def param_ok_def)
    from flags_param [OF p(2) this] p(1) obtain st1 where 1:
      "getopt_all argv optionS st = (case getopt_all argv optionS st1 of (cs, st2) \<Rightarrow> (map (\<lambda>f. (f, None)) fs @ cs, st2))"
      "at_letters argv n (c # a) st1" by (auto simp: param_ok_def)
    from read_param [OF p(1) 1(2)] p(3) obtain st2 where
      "getopt_all argv optionS st1 = (case getopt_all argv optionS st2 of (cs, st2) \<Rightarrow> ((c, Some a) # cs, st2))"
      "word_done (Suc n) st2" by auto
    then show ?thesis using 1(1) FlagsJoined by (intro exI [of _ st2]) (simp split: prod.splits)
  next
    case (FlagsNext fs c a)
    have p: "param_ok optionS c" "\<forall>f \<in> set fs. flag_ok optionS f" using assms(1) FlagsNext by auto
    have "at_letters argv n (fs @ [c]) st"
      using p assms(2) first FlagsNext by (cases fs) (auto simp: at_letters_def word_done_def flag_ok_def param_ok_def)
    from flags_param [OF p(2) this] p(1) obtain st1 where 1:
      "getopt_all argv optionS st = (case getopt_all argv optionS st1 of (cs, st2) \<Rightarrow> (map (\<lambda>f. (f, None)) fs @ cs, st2))"
      "at_letters argv n [c] st1" by (auto simp: param_ok_def)
    from read_param [OF p(1) 1(2)] second [OF FlagsNext] obtain st2 where
      "getopt_all argv optionS st1 = (case getopt_all argv optionS st2 of (cs, st2) \<Rightarrow> ((c, Some a) # cs, st2))"
      "word_done (n + 2) st2" by auto
    then show ?thesis using 1(1) FlagsNext by (intro exI [of _ st2]) (simp split: prod.splits)
  qed
qed

lemma getopt_words:
  assumes "\<forall>w \<in> set ws. opt_word_ok optionS w" and "options_end rest"
  shows "\<exists>st. getopt_all (prog # concat (map word_args ws) @ rest) optionS getopt_start = (concat (map word_opts ws), st) \<and>
    go_optind st = Suc (length (concat (map word_args ws)))"
proof -
  let ?argv = "prog # concat (map word_args ws) @ rest"
  have "\<exists>st1. getopt_all ?argv optionS st = (concat (map word_opts vs), st1) \<and> go_optind st1 = Suc (length (concat (map word_args ws)))"
    if "us @ vs = ws" "word_done (Suc (length (concat (map word_args us)))) st" for us vs st
    using that
  proof (induction vs arbitrary: us st)
    case Nil
    let ?n = "Suc (length (concat (map word_args ws)))"
    have d: "go_optind st = ?n" "go_letP st = None" using Nil by (auto simp: word_done_def)
    have "drop ?n ?argv = rest" by simp
    then have "getopt ?argv optionS st = gopEOF st"
      using d assms(2) by (cases rest; cases "hd rest") (auto simp: getopt_def options_end_def nth_append)
    then show ?case using d by (subst getopt_all.simps) (simp add: gopEOF_def)
  next
    case (Cons v vs)
    let ?n = "Suc (length (concat (map word_args us)))"
    have "drop ?n ?argv = word_args v @ concat (map word_args vs) @ rest"
      unfolding Cons.prems(1) [symmetric] by simp
    then have t: "take (length (word_args v)) (drop ?n ?argv) = word_args v" by simp
    have ok: "opt_word_ok optionS v" using assms(1) Cons.prems(1) by auto
    from read_word [OF ok Cons.prems(2) t] obtain st1 where 1:
      "getopt_all ?argv optionS st = (case getopt_all ?argv optionS st1 of (cs, st2) \<Rightarrow> (word_opts v @ cs, st2))"
      "word_done (?n + length (word_args v)) st1" by blast
    have "word_done (Suc (length (concat (map word_args (us @ [v]))))) st1" using 1(2) by simp
    from Cons.IH [OF _ this] Cons.prems(1) obtain st2 where
      "getopt_all ?argv optionS st1 = (concat (map word_opts vs), st2)" "go_optind st2 = Suc (length (concat (map word_args ws)))"
      by auto
    then show ?case using 1(1) by simp
  qed
  from this [of "[]" ws getopt_start] show ?thesis by (simp add: word_done_def getopt_start_def)
qed

text \<open>
  C29. The parser reads what the command line says. For every sequence of words of options, with
  flags joined in any way and arguments in the same or in the next word, behind the name of the
  program and followed by something that is no option, the loop returns exactly these options
  with their arguments in their order, and \<^verbatim>\<open>optind\<close> is left at what follows.
\<close>

theorem getopt_reads_command_line:
  assumes "\<forall>w \<in> set ws. opt_word_ok optionS w" and "options_end rest"
  shows "\<exists>st. getopt_all (prog # concat (map word_args ws) @ rest) optionS getopt_start = (concat (map word_opts ws), st) \<and>
    go_optind st = Suc (length (concat (map word_args ws)))"
  by (rule getopt_words [OF assms])

theorem getopt_reads_command_line_witness:
  "\<exists>st. getopt_all [''omniEvents'', ''-fvp80'', ''-l'', ''/tmp'', ''x''] ''O:a:p:l:P:N:dft:vVh'' getopt_start =
     ([(CHR ''f'', None), (CHR ''v'', None), (CHR ''p'', Some ''80''), (CHR ''l'', Some ''/tmp'')], st) \<and> go_optind st = 4"
proof -
  have "\<forall>w \<in> set [FlagsJoined ''fv'' (CHR ''p'') ''80'', FlagsNext [] (CHR ''l'') ''/tmp'']. opt_word_ok ''O:a:p:l:P:N:dft:vVh'' w"
    by (simp add: flag_ok_def param_ok_def known_option_def needs_arg_def after_def)
  moreover have "options_end [''x'']" by (simp add: options_end_def)
  ultimately show ?thesis
    using getopt_reads_command_line [of "[FlagsJoined ''fv'' (CHR ''p'') ''80'', FlagsNext [] (CHR ''l'') ''/tmp'']"
        "''O:a:p:l:P:N:dft:vVh''" "[''x'']" "''omniEvents''"] by (simp add: numeral_eq_Suc)
qed

end
