(* ===== verification/Remote_Client.thy ===== *)
theory Remote_Client
  imports Event_Channel_Factory Naming Getopt
begin

text \<open>
  What the command line tools of \<^verbatim>\<open>tools/\<close> have in common: the remote calls they make, their
  answers, the variable \<^verbatim>\<open>action\<close> that says what a tool is doing, its output, and the
  handlers that turn an exception into a message. The objects behind the calls are a
  parameter; one instance of it lets the model of the factory answer.
\<close>

section \<open>Remote calls\<close>

datatype rcall =
    RcResolveInitial string
  | RcStringToObject string
  | RcObjectToString "objref option"
  | RcNarrow string "objref option"
  | RcOrbDestroy
  | RcNsResolve objref cos_name
  | RcNsBind objref cos_name "objref option"
  | RcNsRebind objref cos_name "objref option"
  | RcNsUnbind objref cos_name
  | RcSupports objref life_key
  | RcCreateObject objref life_key criteria
  | RcListChannels objref ulong
  | RcNextOne objref
  | RcDeleteAll objref
  | RcDestroy objref
  | RcForConsumers objref
  | RcForSuppliers objref
  | RcObtainPushSupplier objref
  | RcObtainPushConsumer objref
  | RcConnectPushConsumer objref "objref option"
  | RcConnectPushSupplier objref "objref option"
  | RcPush objref any
  | RcObtainPullSupplier objref
  | RcObtainPullConsumer objref
  | RcConnectPullConsumer objref "objref option"
  | RcConnectPullSupplier objref "objref option"
  | RcPull objref
  | RcTryPull objref
  | RcDisconnect string objref

text \<open>
  The answers, by type, from a state \<open>'w\<close> of everything outside the tool; \<open>None\<close> is a nil
  reference, or the end of an iterator. \<open>rm_name\<close> and \<open>rm_minor\<close> are the texts of an exception.
\<close>

record 'w remote =
  rm_ref :: "rcall \<Rightarrow> 'w \<Rightarrow> (exn + objref option) \<times> 'w"
  rm_unit :: "rcall \<Rightarrow> 'w \<Rightarrow> (exn + unit) \<times> 'w"
  rm_bool :: "rcall \<Rightarrow> 'w \<Rightarrow> (exn + bool) \<times> 'w"
  rm_text :: "rcall \<Rightarrow> 'w \<Rightarrow> (exn + string) \<times> 'w"
  rm_list :: "rcall \<Rightarrow> 'w \<Rightarrow> (exn + channel_info list \<times> objref option) \<times> 'w"
  rm_next :: "rcall \<Rightarrow> 'w \<Rightarrow> (exn + channel_info option) \<times> 'w"
  rm_name :: "exn \<Rightarrow> string"
  rm_minor :: "exn \<Rightarrow> string option"

record 'w client =
  cl_world :: 'w
  cl_calls :: "rcall list"
  cl_action :: string
  cl_out :: string
  cl_err :: string

definition client_start :: "'w \<Rightarrow> 'w client" where
  "client_start w = \<lparr>cl_world = w, cl_calls = [], cl_action = ''start'', cl_out = [], cl_err = []\<rparr>"

type_synonym ('w, 'a) answer = "(exn + 'a) \<times> 'w client"

definition invoke :: "(rcall \<Rightarrow> 'w \<Rightarrow> (exn + 'a) \<times> 'w) \<Rightarrow> rcall \<Rightarrow> 'w client \<Rightarrow> ('w, 'a) answer" where
  "invoke f c t = (case f c (cl_world t) of (r, w) \<Rightarrow> (r, t\<lparr>cl_world := w, cl_calls := cl_calls t @ [c]\<rparr>))"

definition then_r :: "('w, 'a) answer \<Rightarrow> ('a \<Rightarrow> 'w client \<Rightarrow> ('w, 'b) answer) \<Rightarrow> ('w, 'b) answer" where
  "then_r m f = (case m of (Inl e, t) \<Rightarrow> (Inl e, t) | (Inr a, t) \<Rightarrow> f a t)"

definition doing :: "string \<Rightarrow> 'w client \<Rightarrow> 'w client" where
  "doing action t = t\<lparr>cl_action := action\<rparr>"

definition cout :: "string \<Rightarrow> 'w client \<Rightarrow> 'w client" where
  "cout s t = t\<lparr>cl_out := cl_out t @ s\<rparr>"

definition cerr :: "string \<Rightarrow> 'w client \<Rightarrow> 'w client" where
  "cerr s t = t\<lparr>cl_err := cl_err t @ s\<rparr>"

definition exit_with :: "int \<Rightarrow> string \<Rightarrow> 'w client \<Rightarrow> ('w, 'a) answer" where
  "exit_with status msg t = (Inl (ProcessExit status), cerr msg t)"

text \<open>A call on a nil reference raises a system exception.\<close>

definition on_ref :: "objref option \<Rightarrow> (objref \<Rightarrow> 'w client \<Rightarrow> ('w, 'a) answer) \<Rightarrow> 'w client \<Rightarrow> ('w, 'a) answer" where
  "on_ref r f t = (case r of None \<Rightarrow> (Inl (SystemOther ''INV_OBJREF''), t) | Some x \<Rightarrow> f x t)"

definition quoted :: "string \<Rightarrow> string" where
  "quoted s = CHR 0x27 # s @ [CHR 0x27]"

text \<open>A name from the command line; \<^verbatim>\<open>str2name\<close> makes no call.\<close>

definition tool_name :: "string \<Rightarrow> 'w client \<Rightarrow> ('w, cos_name) answer" where
  "tool_name s t = (str2name s, t)"

section \<open>The naming service and the object on the command line\<close>

definition resolve_naming :: "'w remote \<Rightarrow> 'w client \<Rightarrow> ('w, objref option) answer" where
  "resolve_naming R t =
     then_r (invoke (rm_ref R) (RcResolveInitial ''NameService'')
       (doing (''resolve initial reference '' @ quoted ''NameService'') t)) (\<lambda>obj t1.
     then_r (invoke (rm_ref R) (RcNarrow ''CosNaming::NamingContext'' obj) t1) (\<lambda>ns t2.
       if ns = None then (Inl OBJECT_NOT_EXIST, t2) else (Inr ns, t2)))"

text \<open>The tools of the factory go on without a naming service unless they need one.\<close>

definition root_context :: "'w remote \<Rightarrow> bool \<Rightarrow> string \<Rightarrow> 'w client \<Rightarrow> ('w, objref option) answer" where
  "root_context R needNameService found t = (case resolve_naming R t of
      (Inr ns, t1) \<Rightarrow> (Inr ns, cerr found t1)
    | (Inl e, t1) \<Rightarrow>
        if is_corba_exn e \<and> \<not> needNameService
        then (Inr None, cerr (''Warning - failed to '' @ cl_action t1 @ ''.'' @ nl) t1)
        else (Inl e, t1))"

definition uri_object :: "'w remote \<Rightarrow> string \<Rightarrow> 'w client \<Rightarrow> ('w, objref option) answer" where
  "uri_object R uri t = invoke (rm_ref R) (RcStringToObject uri)
     (doing ''convert URI from command line into object reference'' t)"

definition ns_lookup :: "'w remote \<Rightarrow> objref option \<Rightarrow> string \<Rightarrow> 'w client \<Rightarrow> ('w, objref option) answer" where
  "ns_lookup R ns name t = then_r (tool_name name t) (\<lambda>n. on_ref ns (\<lambda>c. invoke (rm_ref R) (RcNsResolve c n)))"

definition factory_object :: "'w remote \<Rightarrow> string list \<Rightarrow> objref option \<Rightarrow> string \<Rightarrow> 'w client \<Rightarrow> ('w, objref option) answer"
where
  "factory_object R args ns factoryName t = (case args of
      uri # _ \<Rightarrow> uri_object R uri t
    | [] \<Rightarrow> ns_lookup R ns factoryName (doing ''find Event Channel Factory in naming service'' t))"

definition narrow_factory :: "'w remote \<Rightarrow> string \<Rightarrow> objref option \<Rightarrow> 'w client \<Rightarrow> ('w, objref) answer" where
  "narrow_factory R interface obj t =
     then_r (invoke (rm_ref R) (RcNarrow interface obj) (doing ''narrow object reference to event channel factory'' t))
       (\<lambda>f t1. case f of None \<Rightarrow> exit_with 1 (''Failed to narrow Event Channel Factory reference.'' @ nl) t1
               | Some fac \<Rightarrow> (Inr fac, t1))"

definition destroy_orb :: "'w remote \<Rightarrow> 'w client \<Rightarrow> ('w, int) answer" where
  "destroy_orb R t = then_r (invoke (rm_unit R) RcOrbDestroy (doing ''destroy orb'' t)) (\<lambda>_ t1. (Inr 0, t1))"

section \<open>Exceptions become messages\<close>

definition sys_text :: "'w remote \<Rightarrow> exn \<Rightarrow> string" where
  "sys_text R e = '' '' @ rm_name R e @ (case rm_minor R e of None \<Rightarrow> [] | Some m \<Rightarrow> '' ('' @ m @ '')'')"

definition failed_to :: "string \<Rightarrow> 'w client \<Rightarrow> ('w, int) answer" where
  "failed_to reason t = (Inr 1, cerr (''Failed to '' @ cl_action t @ ''.'' @ reason @ nl) t)"

text \<open>
  The handlers of \<^verbatim>\<open>eventl\<close>, \<^verbatim>\<open>rmeventall\<close> and \<^verbatim>\<open>rmeventc\<close>, in their order; \<^verbatim>\<open>eventf\<close> has those from
  \<^verbatim>\<open>TRANSIENT\<close> on. What is not an exception of CORBA is not caught.
\<close>

definition catch_corba :: "'w remote \<Rightarrow> ('w, int) answer \<Rightarrow> ('w, int) answer" where
  "catch_corba R m = (case m of
      (Inr status, t) \<Rightarrow> (Inr status, t)
    | (Inl e, t) \<Rightarrow>
        if \<not> is_corba_exn e then (Inl e, t)
        else if e = TRANSIENT then failed_to '' TRANSIENT'' t
        else if e = OBJECT_NOT_EXIST then failed_to '' OBJECT_NOT_EXIST'' t
        else if is_system_exn e then failed_to (sys_text R e) t
        else failed_to ('' '' @ rm_name R e) t)"

definition naming_exns :: "string list" where
  "naming_exns = [''ORB::InvalidName'', ''NamingContext::InvalidName'', ''NamingContext::NotFound'', ''NamingContext::CannotProceed'']"

definition catch_naming :: "'w remote \<Rightarrow> ('w, int) answer \<Rightarrow> ('w, int) answer" where
  "catch_naming R m = (case m of
      (Inl (UserOther x), t) \<Rightarrow> if x \<in> set naming_exns then failed_to ('' '' @ x) t else catch_corba R m
    | _ \<Rightarrow> catch_corba R m)"

section \<open>Options\<close>

fun each_option :: "('o \<Rightarrow> char \<times> string option \<Rightarrow> exn + 'o) \<Rightarrow> (char \<times> string option) list \<Rightarrow> 'o \<Rightarrow> exn + 'o" where
  "each_option f [] opts = Inr opts"
| "each_option f (co # cos) opts = (case f opts co of Inl e \<Rightarrow> Inl e | Inr opts1 \<Rightarrow> each_option f cos opts1)"

text \<open>\<^verbatim>\<open>-h\<close> prints the help text and ends with 0, an unknown option with -1.\<close>

definition tool_usage :: "char \<Rightarrow> exn" where
  "tool_usage c = ProcessExit (if c = CHR ''h'' then 0 else -1)"

definition run_tool :: "string \<Rightarrow> ('o \<Rightarrow> char \<times> string option \<Rightarrow> exn + 'o) \<Rightarrow> 'o \<Rightarrow>
    ('o \<Rightarrow> string list \<Rightarrow> 'w client \<Rightarrow> 'r) \<Rightarrow> (exn \<Rightarrow> 'r) \<Rightarrow> string list \<Rightarrow> 'w client \<Rightarrow> 'r" where
  "run_tool letters f opts body stop argv t =
     (case getopt_all argv letters getopt_start of (cs, st) \<Rightarrow>
      (case each_option f cs opts of
         Inl e \<Rightarrow> stop e
       | Inr opts1 \<Rightarrow> body opts1 (drop (go_optind st) argv) t))"

end
