(* ===== verification/Event_Tools.thy ===== *)
theory Event_Tools
  imports Remote_Client
begin

text \<open>
  The tools of the directory \<^verbatim>\<open>tools/\<close>: \<^verbatim>\<open>eventc\<close> makes a channel, \<^verbatim>\<open>rmeventc\<close> removes one, \<^verbatim>\<open>eventf\<close>
  connects two, \<^verbatim>\<open>eventl\<close> lists and \<^verbatim>\<open>rmeventall\<close> removes all of them.
\<close>

section \<open>eventc\<close>

record eventc_options =
  eo_verbose :: bool
  eo_needNameService :: bool
  eo_channelName :: string
  eo_factoryName :: string
  eo_criteria :: criteria

definition eventc_defaults :: eventc_options where
  "eventc_defaults = \<lparr>eo_verbose = False, eo_needNameService = False, eo_channelName = ''EventChannel'',
     eo_factoryName = ''EventChannelFactory'', eo_criteria = []\<rparr>"

definition any_of_ulong :: "ulong \<Rightarrow> any" where
  "any_of_ulong v = Any tk_ulong [] (VULong v)"

definition appendCriterion :: "string \<Rightarrow> string \<Rightarrow> eventc_options \<Rightarrow> eventc_options" where
  "appendCriterion name value o1 = o1\<lparr>eo_criteria := eo_criteria o1 @ [(name, any_of_ulong (word_of_int (c_atol value)))]\<rparr>"

definition appendCriterionStr :: "string \<Rightarrow> string \<Rightarrow> eventc_options \<Rightarrow> eventc_options" where
  "appendCriterionStr name value o1 = o1\<lparr>eo_criteria := eo_criteria o1 @ [(name, any_of_string value)]\<rparr>"

definition eventc_option :: "eventc_options \<Rightarrow> char \<times> string option \<Rightarrow> exn + eventc_options" where
  "eventc_option o1 co = (case co of (c, optarg) \<Rightarrow>
     (if c = CHR ''n'' then with_optarg optarg (\<lambda>s. Inr (o1\<lparr>eo_channelName := s, eo_needNameService := True\<rparr>))
      else if c = CHR ''N'' then with_optarg optarg (\<lambda>s. Inr (o1\<lparr>eo_factoryName := s\<rparr>))
      else if c = CHR ''m'' then with_optarg optarg (\<lambda>s. Inr (appendCriterion ''MaxEventsPerConsumer'' s o1))
      else if c = CHR ''c'' then with_optarg optarg (\<lambda>s. Inr (appendCriterion ''CyclePeriod_ns'' s o1))
      else if c = CHR ''i'' then with_optarg optarg (\<lambda>s. Inr (appendCriterionStr ''InsName'' s o1))
      else if c = CHR ''p'' then with_optarg optarg (\<lambda>s. Inr (appendCriterion ''MaxNumProxies'' s o1))
      else if c = CHR ''q'' then with_optarg optarg (\<lambda>s. Inr (appendCriterion ''MaxQueueLength'' s o1))
      else if c = CHR ''R'' then with_optarg optarg (\<lambda>s. Inr (appendCriterion ''PullRetryPeriod_ms'' s o1))
      else if c = CHR ''r'' then with_optarg optarg (\<lambda>s. Inr (appendCriterion ''PullRetryPeriod'' s o1))
      else if c = CHR ''t'' then with_optarg optarg (\<lambda>s. Inr (appendCriterionStr ''FilterId'' s o1))
      else if c = CHR ''v'' then Inr (o1\<lparr>eo_verbose := True\<rparr>)
      else Inl (tool_usage c)))"

definition channel_life_key :: life_key where
  "channel_life_key = [(''EventChannel'', ''object interface'')]"

definition in_brackets :: "string \<Rightarrow> string" where
  "in_brackets s = '' ['' @ CHR 0x22 # s @ CHR 0x22 # '']'' @ nl"

text \<open>The factory makes the object, which is narrowed to a channel.\<close>

definition eventc_create :: "'w remote \<Rightarrow> eventc_options \<Rightarrow> objref \<Rightarrow> 'w client \<Rightarrow> ('w, objref) answer" where
  "eventc_create R o1 fac t =
     then_r (invoke (rm_bool R) (RcSupports fac channel_life_key) (doing ''check factory supports EventChannel object interface'' t))
       (\<lambda>ok t1. if \<not> ok then exit_with 1 (''Factory does not support Event Channel Interface!'' @ in_brackets (eo_factoryName o1)) t1 else
     then_r (invoke (rm_ref R) (RcCreateObject fac channel_life_key (eo_criteria o1)) (doing ''create EventChannel object'' t1))
       (\<lambda>obj t2. if obj = None then exit_with 1 (''Channel Factory returned nil reference!'' @ in_brackets (eo_channelName o1)) t2 else
     then_r (invoke (rm_ref R) (RcNarrow ''CosEventChannelAdmin::EventChannel'' obj) t2)
       (\<lambda>ch t3. case ch of
           None \<Rightarrow> exit_with 1 (''Failed to narrow Event Channel!'' @ in_brackets (eo_channelName o1)) t3
         | Some c \<Rightarrow> (Inr c, t3))))"

definition eventc_print :: "'w remote \<Rightarrow> eventc_options \<Rightarrow> objref \<Rightarrow> 'w client \<Rightarrow> ('w, unit) answer" where
  "eventc_print R o1 ch t =
     (if eo_verbose o1
      then then_r (invoke (rm_text R) (RcObjectToString (Some ch)) t) (\<lambda>s t1. (Inr (), cout (s @ nl) t1))
      else (Inr (), t))"

definition eventc_register :: "'w remote \<Rightarrow> string \<Rightarrow> objref option \<Rightarrow> objref \<Rightarrow> 'w client \<Rightarrow> ('w, unit) answer" where
  "eventc_register R channelName ns ch t = (case ns of
      None \<Rightarrow> (Inr (), t)
    | Some c \<Rightarrow>
        then_r (tool_name channelName t) (\<lambda>name t1.
          (case invoke (rm_unit R) (RcNsBind c name (Some ch))
                  (doing ''register (bind) EventChannel with the naming service'' t1) of
             (Inl e, t2) \<Rightarrow>
               if e = AlreadyBound
               then invoke (rm_unit R) (RcNsRebind c name (Some ch))
                      (doing ''register (rebind) EventChannel with the naming service'' t2)
               else (Inl e, t2)
           | r \<Rightarrow> r)))"

definition eventc_body :: "'w remote \<Rightarrow> eventc_options \<Rightarrow> string list \<Rightarrow> 'w client \<Rightarrow> ('w, int) answer" where
  "eventc_body R o1 args t =
     then_r (root_context R (eo_needNameService o1 \<or> args = []) [] t) (\<lambda>ns t1.
     then_r (factory_object R args ns (eo_factoryName o1) t1) (\<lambda>obj t2.
     then_r (narrow_factory R ''omniEvents::EventChannelFactory'' obj t2) (\<lambda>fac t3.
     then_r (eventc_create R o1 fac t3) (\<lambda>ch t4.
     then_r (eventc_print R o1 ch t4) (\<lambda>_ t5.
     then_r (eventc_register R (eo_channelName o1) ns ch t5) (\<lambda>_. destroy_orb R))))))"

text \<open>Its own handlers.\<close>

definition eventc_catch :: "'w remote \<Rightarrow> ('w, int) answer \<Rightarrow> ('w, int) answer" where
  "eventc_catch R m = (case m of
      (Inr status, t) \<Rightarrow> (Inr status, t)
    | (Inl e, t) \<Rightarrow>
        if \<not> is_corba_exn e then (Inl e, t)
        else (Inr 1, cerr (case e of
            NoFactory \<Rightarrow> ''Failed to create Event Channel: NoFactory (interface not supported) '' @ nl
          | CannotMeetCriteria _ \<Rightarrow> ''Failed to create Event Channel: CannotMeetCriteria '' @ nl
          | InvalidCriteria _ \<Rightarrow> ''Failed to create Event Channel: InvalidCriteria '' @ nl
          | COMM_FAILURE \<Rightarrow> ''System exception, unable to '' @ cl_action t @ '': COMM_FAILURE'' @ nl
          | _ \<Rightarrow> if is_system_exn e
                then ''System exception, unable to '' @ cl_action t @ sys_text R e @ nl
                else ''CORBA exception, unable to '' @ cl_action t @ '': '' @ rm_name R e @ nl) t))"

definition eventc_run :: "'w remote \<Rightarrow> eventc_options \<Rightarrow> string list \<Rightarrow> 'w client \<Rightarrow> ('w, int) answer" where
  "eventc_run R o1 args t = eventc_catch R (eventc_body R o1 args t)"

definition eventc :: "'w remote \<Rightarrow> string list \<Rightarrow> 'w client \<Rightarrow> ('w, int) answer" where
  "eventc R argv t = run_tool ''n:N:m:c:i:p:q:R:r:t:vh'' eventc_option eventc_defaults (eventc_run R) (\<lambda>e. (Inl e, t)) argv t"

section \<open>rmeventc\<close>

definition rmeventc_option :: "exn + cos_name \<Rightarrow> char \<times> string option \<Rightarrow> exn + (exn + cos_name)" where
  "rmeventc_option ecName co = (case co of (c, optarg) \<Rightarrow>
     (if c = CHR ''n'' then with_optarg optarg (\<lambda>s. case str2name s of Inl e \<Rightarrow> Inl e | Inr n \<Rightarrow> Inr (Inr n))
      else Inl (tool_usage c)))"

definition rmeventc_object :: "'w remote \<Rightarrow> cos_name \<Rightarrow> string list \<Rightarrow> 'w client \<Rightarrow> ('w, objref option) answer" where
  "rmeventc_object R ecName args t = (case args of
      uri # _ \<Rightarrow> invoke (rm_ref R) (RcStringToObject uri)
        (cout ('' URI : '' @ uri @ nl) (doing ''convert URI from command line into object reference'' t))
    | [] \<Rightarrow>
        then_r (resolve_naming R t) (\<lambda>ns t1.
        then_r (on_ref ns (\<lambda>c. invoke (rm_ref R) (RcNsResolve c ecName)) (doing ''find Event Channel in naming service'' t1)) (\<lambda>obj t2.
        then_r (on_ref ns (\<lambda>c. invoke (rm_unit R) (RcNsUnbind c ecName)) (doing ''unbind Event Channel from naming service'' t2))
          (\<lambda>_ t3. (Inr obj, t3)))))"

definition narrow_channel :: "'w remote \<Rightarrow> objref option \<Rightarrow> 'w client \<Rightarrow> ('w, objref) answer" where
  "narrow_channel R obj t =
     then_r (invoke (rm_ref R) (RcNarrow ''CosEventChannelAdmin::EventChannel'' obj) t)
       (\<lambda>ch t1. case ch of None \<Rightarrow> (Inl OBJECT_NOT_EXIST, t1) | Some c \<Rightarrow> (Inr c, t1))"

definition rmeventc_body :: "'w remote \<Rightarrow> cos_name \<Rightarrow> string list \<Rightarrow> 'w client \<Rightarrow> ('w, int) answer" where
  "rmeventc_body R ecName args t =
     then_r (rmeventc_object R ecName args t) (\<lambda>obj t1.
     then_r (narrow_channel R obj (doing ''narrow object reference to event channel'' t1)) (\<lambda>ch t2.
     then_r (invoke (rm_unit R) (RcDestroy ch) (doing ''destroy Event Channel'' t2)) (\<lambda>_. destroy_orb R)))"

definition rmeventc_run :: "'w remote \<Rightarrow> exn + cos_name \<Rightarrow> string list \<Rightarrow> 'w client \<Rightarrow> ('w, int) answer" where
  "rmeventc_run R ecName args t = (case ecName of
      Inl e \<Rightarrow> (Inl e, t) | Inr n \<Rightarrow> catch_naming R (rmeventc_body R n args t))"

definition rmeventc :: "'w remote \<Rightarrow> string list \<Rightarrow> 'w client \<Rightarrow> ('w, int) answer" where
  "rmeventc R argv t = run_tool ''n:h'' rmeventc_option (str2name ''EventChannel'') (rmeventc_run R) (\<lambda>e. (Inl e, t)) argv t"

section \<open>eventf\<close>

definition no_option :: "unit \<Rightarrow> char \<times> string option \<Rightarrow> exn + unit" where
  "no_option u co = Inl (tool_usage (fst co))"

definition getChannel :: "'w remote \<Rightarrow> string \<Rightarrow> 'w client \<Rightarrow> ('w, objref) answer" where
  "getChannel R sior t = then_r (invoke (rm_ref R) (RcStringToObject sior) t) (narrow_channel R)"

definition eventf_body :: "'w remote \<Rightarrow> string \<Rightarrow> string \<Rightarrow> 'w client \<Rightarrow> ('w, int) answer" where
  "eventf_body R from_uri to_uri t =
     then_r (getChannel R from_uri (doing ''convert URI into reference to source channel'' t)) (\<lambda>from_channel t1.
     then_r (getChannel R to_uri (doing ''convert URI into reference to destination channel'' t1)) (\<lambda>to_channel t2.
     then_r (invoke (rm_ref R) (RcForConsumers from_channel) (doing ''obtain ConsumerAdmin'' t2)) (\<lambda>cadmin t3.
     then_r (on_ref cadmin (\<lambda>a. invoke (rm_ref R) (RcObtainPushSupplier a)) (doing ''obtain ProxyPushSupplier'' t3)) (\<lambda>supplier t4.
     then_r (invoke (rm_ref R) (RcForSuppliers to_channel) (doing ''obtain SupplierAdmin'' t4)) (\<lambda>sadmin t5.
     then_r (on_ref sadmin (\<lambda>a. invoke (rm_ref R) (RcObtainPushConsumer a)) (doing ''obtain ProxyPushConsumer'' t5)) (\<lambda>consumer t6.
     then_r (on_ref consumer (\<lambda>c. invoke (rm_unit R) (RcConnectPushSupplier c supplier)) (doing ''connect PushConsumer'' t6)) (\<lambda>_ t7.
     then_r (on_ref supplier (\<lambda>s. invoke (rm_unit R) (RcConnectPushConsumer s consumer)) (doing ''connect PushSupplier'' t7)) (\<lambda>_.
       destroy_orb R))))))))"

definition eventf_run :: "'w remote \<Rightarrow> unit \<Rightarrow> string list \<Rightarrow> 'w client \<Rightarrow> ('w, int) answer" where
  "eventf_run R u args t = (case args of
      [from_uri, to_uri] \<Rightarrow> catch_corba R (eventf_body R from_uri to_uri t)
    | _ \<Rightarrow> (Inl (ProcessExit (-1)), t))"

definition eventf :: "'w remote \<Rightarrow> string list \<Rightarrow> 'w client \<Rightarrow> ('w, int) answer" where
  "eventf R argv t = run_tool ''h'' no_option () (eventf_run R) (\<lambda>e. (Inl e, t)) argv t"

section \<open>The loops over an iterator\<close>

text \<open>
  \<^verbatim>\<open>while (eiter->next_one(einfo))\<close>. What the iterator answers is up to its object, so the loop may
  not end: then the result is \<open>None\<close>.
\<close>

partial_function (option) each_channel :: "'w remote \<Rightarrow> objref \<Rightarrow> (channel_info \<Rightarrow> 'w client \<Rightarrow> ('w, unit) answer) \<Rightarrow>
    'w client \<Rightarrow> ('w, unit) answer option" where
  "each_channel R eiter body t = (case invoke (rm_next R) (RcNextOne eiter) t of
      (Inl e, t1) \<Rightarrow> Some (Inl e, t1)
    | (Inr None, t1) \<Rightarrow> Some (Inr (), t1)
    | (Inr (Some einfo), t1) \<Rightarrow>
        (case body einfo t1 of
           (Inl e, t2) \<Rightarrow> Some (Inl e, t2)
         | (Inr _, t2) \<Rightarrow> each_channel R eiter body t2))"

declare each_channel.simps [code]

text \<open>What \<^verbatim>\<open>catch(...)\<close> catches: not the end of the process.\<close>

definition is_cpp_exn :: "exn \<Rightarrow> bool" where
  "is_cpp_exn e \<longleftrightarrow> is_corba_exn e \<or> e = BadAlloc"

text \<open>The listing, with the handler around it.\<close>

definition list_all :: "'w remote \<Rightarrow> objref \<Rightarrow> (channel_info \<Rightarrow> 'w client \<Rightarrow> ('w, unit) answer) \<Rightarrow>
    'w client \<Rightarrow> ('w, unit) answer option" where
  "list_all R fac body t = map_option (\<lambda>m. case m of
        (Inl e, t1) \<Rightarrow> if is_cpp_exn e then (Inr (), cerr ('' Listing of event channels failed...'' @ nl) t1) else (Inl e, t1)
      | r \<Rightarrow> r)
    (case invoke (rm_list R) (RcListChannels fac 0) t of
       (Inl e, t1) \<Rightarrow> Some (Inl e, t1)
     | (Inr (elist, None), t1) \<Rightarrow> Some (Inr (), t1)
     | (Inr (elist, Some eiter), t1) \<Rightarrow> each_channel R eiter body t1)"

text \<open>A reference from the naming service may be nil.\<close>

definition factory_found :: "'w remote \<Rightarrow> string list \<Rightarrow> objref option \<Rightarrow> 'w client \<Rightarrow> ('w, objref) answer" where
  "factory_found R args ns t =
     then_r (factory_object R args ns ''EventChannelFactory'' t) (\<lambda>obj t1.
       if args = [] \<and> obj = None
       then exit_with 1 [] (cout (''NamingService failed to find EventChannelFactory....'' @ nl) t1)
       else narrow_factory R ''omniEvents::EventChannelFactoryExt'' obj t1)"

section \<open>eventl\<close>

definition eventl_option :: "bool \<Rightarrow> char \<times> string option \<Rightarrow> exn + bool" where
  "eventl_option details co = (if fst co = CHR ''d'' then Inr True else Inl (tool_usage (fst co)))"

definition channel_text :: "bool \<Rightarrow> channel_info \<Rightarrow> string" where
  "channel_text details i =
     ''CHANNEL : '' @ ci_channel_name i @ (if ci_has_mapper i then [] else '' (unmapped) '') @ nl @
     (if details
      then ''  has mapper: '' @ (if ci_has_mapper i then ''1'' else ''0'') @ nl @
           ''  pull_retry_period_ms: '' @ show_int (ci_pull_retry_period i) @ nl @
           ''  max_queue_length: '' @ show_int (ci_max_queue_length i) @ nl @
           ''  max_num_proxies: '' @ show_int (ci_max_num_proxies i) @ nl @
           ''  cycle_period_ns: '' @ show_int (ci_cycle_period i) @ nl @
           ''  filter id = '' @ ci_filter_id i @ nl
      else [])"

definition eventl_body :: "'w remote \<Rightarrow> bool \<Rightarrow> string list \<Rightarrow> 'w client \<Rightarrow> ('w, int) answer option" where
  "eventl_body R details args t =
     (case then_r (root_context R (args = []) (''Resolved Naming service...'' @ nl) t) (factory_found R args) of
        (Inl e, t1) \<Rightarrow> Some (Inl e, t1)
      | (Inr fac, t1) \<Rightarrow>
          map_option (\<lambda>m. then_r m (\<lambda>_. destroy_orb R))
            (list_all R fac (\<lambda>einfo t2. (Inr (), cout (channel_text details einfo) t2))
              (cerr (''Resolved EventChannelFactoryExt...'' @ nl @ ''Grabbing list of channels...'' @ nl) t1)))"

definition eventl_run :: "'w remote \<Rightarrow> bool \<Rightarrow> string list \<Rightarrow> 'w client \<Rightarrow> ('w, int) answer option" where
  "eventl_run R details args t = map_option (catch_naming R) (eventl_body R details args t)"

definition eventl :: "'w remote \<Rightarrow> string list \<Rightarrow> 'w client \<Rightarrow> ('w, int) answer option" where
  "eventl R argv t = run_tool ''dh'' eventl_option False (eventl_run R) (\<lambda>e. Some (Inl e, t)) argv t"

section \<open>rmeventall\<close>

definition rmeventall_option :: "bool \<Rightarrow> char \<times> string option \<Rightarrow> exn + bool" where
  "rmeventall_option cleanns co = (if fst co = CHR ''n'' then Inr True else Inl (tool_usage (fst co)))"

definition unbind_channel :: "'w remote \<Rightarrow> objref option \<Rightarrow> channel_info \<Rightarrow> 'w client \<Rightarrow> ('w, unit) answer" where
  "unbind_channel R ns einfo t =
     (case then_r (tool_name (ci_channel_name einfo) t) (\<lambda>n. on_ref ns (\<lambda>c. invoke (rm_unit R) (RcNsUnbind c n))) of
        (Inl e, t1) \<Rightarrow>
          if e = OBJECT_NOT_EXIST
          then (Inr (), cerr (''Failed to ubind: '' @ ci_channel_name einfo @ ''. OBJECT_NOT_EXIST'' @ nl) t1)
          else if is_cpp_exn e then (Inr (), t1) else (Inl e, t1)
      | r \<Rightarrow> r)"

definition rmeventall_body :: "'w remote \<Rightarrow> bool \<Rightarrow> string list \<Rightarrow> 'w client \<Rightarrow> ('w, int) answer option" where
  "rmeventall_body R cleanns args t =
     (case root_context R (cleanns \<or> args = []) [] t of
        (Inl e, t1) \<Rightarrow> Some (Inl e, t1)
      | (Inr ns, t1) \<Rightarrow>
          (case factory_found R args ns t1 of
             (Inl e, t2) \<Rightarrow> Some (Inl e, t2)
           | (Inr fac, t2) \<Rightarrow>
               map_option (\<lambda>m. then_r m (\<lambda>_ t3.
                   then_r (invoke (rm_unit R) (RcDeleteAll fac) (doing ''delete all Event Channels'' t3)) (\<lambda>_. destroy_orb R)))
                 (if cleanns then list_all R fac (unbind_channel R ns) t2 else Some (Inr (), t2))))"

definition rmeventall_run :: "'w remote \<Rightarrow> bool \<Rightarrow> string list \<Rightarrow> 'w client \<Rightarrow> ('w, int) answer option" where
  "rmeventall_run R cleanns args t = map_option (catch_naming R) (rmeventall_body R cleanns args t)"

definition rmeventall :: "'w remote \<Rightarrow> string list \<Rightarrow> 'w client \<Rightarrow> ('w, int) answer option" where
  "rmeventall R argv t = run_tool ''nh'' rmeventall_option False (rmeventall_run R) (\<lambda>e. Some (Inl e, t)) argv t"

section \<open>What the tools call\<close>

lemma then_r_Inr: "then_r m f = (Inr b, t1) \<longleftrightarrow> (\<exists>a t. m = (Inr a, t) \<and> f a t = (Inr b, t1))"
  by (auto simp: then_r_def split: prod.splits sum.splits)

lemma then_r_pass [simp]: "then_r (Inr a, t) f = f a t" "then_r (Inl e, t) f = (Inl e, t)"
  by (simp_all add: then_r_def)

lemma invoke_calls: "invoke f c t = (r, t1) \<Longrightarrow> cl_calls t1 = cl_calls t @ [c]"
  by (auto simp: invoke_def split: prod.splits)

lemma output_calls [simp]:
  "cl_calls (doing a t) = cl_calls t" "cl_calls (cout s t) = cl_calls t" "cl_calls (cerr s t) = cl_calls t"
  by (simp_all add: doing_def cout_def cerr_def)

lemma on_ref_Inr: "on_ref r f t = (Inr a, t1) \<longleftrightarrow> (\<exists>x. r = Some x \<and> f x t = (Inr a, t1))"
  by (simp add: on_ref_def split: option.split)

lemma exit_Inr [simp]: "exit_with n msg t \<noteq> (Inr a, t1)"
  by (simp add: exit_with_def)

lemma failed_calls: "\<exists>t1. failed_to reason t = (Inr 1, t1) \<and> cl_calls t1 = cl_calls t"
  by (simp add: failed_to_def)

lemma failed_status [simp]: "failed_to reason t \<noteq> (Inr 0, t1)" "failed_to reason t \<noteq> (Inl e, t1)"
  by (simp_all add: failed_to_def)

lemma catch_corba_exn: "is_corba_exn e \<Longrightarrow> \<exists>t1. catch_corba R (Inl e, t) = (Inr 1, t1) \<and> cl_calls t1 = cl_calls t"
  by (simp add: catch_corba_def failed_to_def)

lemma catch_naming_cases: "catch_naming R m = catch_corba R m \<or>
  (\<exists>x t. m = (Inl (UserOther x), t) \<and> catch_naming R m = failed_to ('' '' @ x) t)"
  unfolding catch_naming_def by (cases m; cases "fst m"; cases "projl (fst m)") simp_all

lemma catch_naming_exn: "is_corba_exn e \<Longrightarrow> \<exists>t1. catch_naming R (Inl e, t) = (Inr 1, t1) \<and> cl_calls t1 = cl_calls t"
  using catch_naming_cases [of R "(Inl e, t)"] catch_corba_exn [of e R t] failed_calls [of _ t] by fastforce

lemma handlers_0:
  "catch_corba R m = (Inr 0, t) \<longleftrightarrow> m = (Inr 0, t)" "catch_naming R m = (Inr 0, t) \<longleftrightarrow> m = (Inr 0, t)"
  "eventc_catch R m = (Inr 0, t) \<longleftrightarrow> m = (Inr 0, t)"
proof -
  show c: "catch_corba R m = (Inr 0, t) \<longleftrightarrow> m = (Inr 0, t)"
    by (cases m; cases "fst m") (simp_all add: catch_corba_def)
  show "catch_naming R m = (Inr 0, t) \<longleftrightarrow> m = (Inr 0, t)"
    using catch_naming_cases [of R m] c by (auto simp: catch_naming_def)
  show "eventc_catch R m = (Inr 0, t) \<longleftrightarrow> m = (Inr 0, t)"
    by (cases m; cases "fst m") (simp_all add: eventc_catch_def)
qed

text \<open>Looking for objects makes no channel: these are the calls of the first part of each tool.\<close>

fun is_lookup :: "rcall \<Rightarrow> bool" where
  "is_lookup (RcResolveInitial _) = True"
| "is_lookup (RcStringToObject _) = True"
| "is_lookup (RcNarrow _ _) = True"
| "is_lookup (RcNsResolve _ _) = True"
| "is_lookup _ = False"

text \<open>A relation of states that holds across lookups and messages holds across the first part of a tool.\<close>

locale lookup_safe =
  fixes R :: "'w remote" and Q :: "'w client \<Rightarrow> 'w client \<Rightarrow> bool"
  assumes same: "Q t t" and trans: "Q t t1 \<Longrightarrow> Q t1 t2 \<Longrightarrow> Q t t2"
    and lookup: "invoke (rm_ref R) c t = (r, t1) \<Longrightarrow> is_lookup c \<Longrightarrow> Q t t1"
    and action: "Q t (doing a t)" and message: "Q t (cerr s t)"
begin

lemma after_action: "Q (doing a t) t1 \<Longrightarrow> Q t t1"
  using trans [OF action] .

lemma doing_lookup: "invoke (rm_ref R) c (doing a t) = (r, t1) \<Longrightarrow> is_lookup c \<Longrightarrow> Q t t1"
  using after_action lookup .

lemma then_lookup:
  assumes "then_r m f = (r, t2)" and "\<And>a t1. m = (a, t1) \<Longrightarrow> Q t t1" and "\<And>a t1 r t2. f a t1 = (r, t2) \<Longrightarrow> Q t1 t2"
  shows "Q t t2"
proof -
  obtain x t1 where m: "m = (x, t1)" by force
  show ?thesis
  proof (cases x)
    case (Inl e)
    then show ?thesis using assms(1,2) m by auto
  next
    case (Inr a)
    then have "f a t1 = (r, t2)" using assms(1) m by simp
    then show ?thesis using trans [OF assms(2) [OF m]] assms(3) by blast
  qed
qed

lemma resolve_naming_safe: "resolve_naming R t = (r, t1) \<Longrightarrow> Q t t1"
  unfolding resolve_naming_def
  by (erule then_lookup, rule after_action, erule lookup, simp, erule then_lookup, erule lookup, simp, auto intro: same split: if_splits)

lemma root_context_safe:
  assumes "root_context R need found t = (r, t1)"
  shows "Q t t1"
proof -
  obtain x t2 where n: "resolve_naming R t = (x, t2)" by force
  then have "t1 = t2 \<or> (\<exists>s. t1 = cerr s t2)" using assms by (auto simp: root_context_def split: sum.splits if_splits)
  then show ?thesis using resolve_naming_safe [OF n] trans [OF _ message] by blast
qed

lemma factory_object_safe: "factory_object R args ns name t = (r, t1) \<Longrightarrow> Q t t1"
  by (auto simp: factory_object_def uri_object_def ns_lookup_def tool_name_def on_ref_def then_r_def
      split: list.splits sum.splits option.splits intro: same action elim: doing_lookup)

lemma narrow_factory_safe:
  "narrow_factory R i obj t = (r, t1) \<Longrightarrow> Q t t1"
  unfolding narrow_factory_def
  by (erule then_lookup, rule after_action, erule lookup, simp, auto simp: exit_with_def intro: same message split: option.splits)

lemma narrow_channel_safe: "narrow_channel R obj t = (r, t1) \<Longrightarrow> Q t t1"
  unfolding narrow_channel_def
  by (erule then_lookup, erule lookup, simp, auto intro: same split: option.splits)

lemma factory_found_safe:
  assumes "factory_found R args ns t = (Inr fac, t1)"
  shows "Q t t1"
proof -
  obtain obj t2 where o: "factory_object R args ns ''EventChannelFactory'' t = (Inr obj, t2)"
    and n: "narrow_factory R ''omniEvents::EventChannelFactoryExt'' obj t2 = (Inr fac, t1)"
    using assms by (auto simp: factory_found_def then_r_Inr split: if_splits)
  show ?thesis using trans [OF factory_object_safe [OF o] narrow_factory_safe [OF n]] .
qed

end

text \<open>What was called.\<close>

definition looks :: "'w client \<Rightarrow> 'w client \<Rightarrow> bool" where
  "looks t t1 \<longleftrightarrow> (\<exists>cs. cl_calls t1 = cl_calls t @ cs \<and> (\<forall>c \<in> set cs. is_lookup c))"

interpretation looks: lookup_safe R looks for R :: "'w remote"
proof
  fix t t1 t2 :: "'w client"
  show "looks t t1 \<Longrightarrow> looks t1 t2 \<Longrightarrow> looks t t2" by (fastforce simp: looks_def)
qed (auto simp: looks_def dest: invoke_calls)

lemma root_needed: "root_context R need found t = (Inr ns, t1) \<Longrightarrow> need \<Longrightarrow> ns \<noteq> None"
  by (auto simp: root_context_def resolve_naming_def then_r_Inr split: prod.splits sum.splits if_splits)

lemma destroy_calls: "destroy_orb R t = (Inr n, t1) \<Longrightarrow> n = 0 \<and> cl_calls t1 = cl_calls t @ [RcOrbDestroy]"
  by (auto simp: destroy_orb_def then_r_Inr dest: invoke_calls)

lemma create_calls:
  "eventc_create R o1 fac t = (Inr ch, t1) \<Longrightarrow> \<exists>obj. cl_calls t1 = cl_calls t @ [RcSupports fac channel_life_key,
     RcCreateObject fac channel_life_key (eo_criteria o1), RcNarrow ''CosEventChannelAdmin::EventChannel'' (Some obj)]"
  by (auto simp: eventc_create_def then_r_Inr split: if_splits option.splits dest!: invoke_calls)

lemma print_calls:
  "eventc_print R o1 ch t = (Inr u, t1) \<Longrightarrow>
   cl_calls t1 = cl_calls t @ (if eo_verbose o1 then [RcObjectToString (Some ch)] else [])"
  by (auto simp: eventc_print_def then_r_Inr split: if_splits dest!: invoke_calls)

lemma register_cases:
  assumes "eventc_register R channelName ns ch t = (Inr u, t1)"
  shows "ns = None \<and> t1 = t \<or> (\<exists>c name r t2. ns = Some c \<and> str2name channelName = Inr name \<and>
    invoke (rm_unit R) (RcNsBind c name (Some ch)) (doing ''register (bind) EventChannel with the naming service'' t) = (r, t2) \<and>
    (t1 = t2 \<or> invoke (rm_unit R) (RcNsRebind c name (Some ch))
       (doing ''register (rebind) EventChannel with the naming service'' t2) = (Inr u, t1)))"
proof (cases ns)
  case (Some c)
  with assms obtain name where n: "str2name channelName = Inr name"
    by (cases "str2name channelName") (simp_all add: eventc_register_def tool_name_def)
  obtain r t2 where b: "invoke (rm_unit R) (RcNsBind c name (Some ch))
      (doing ''register (bind) EventChannel with the naming service'' t) = (r, t2)" by force
  then show ?thesis using assms Some n
    by (cases r) (auto simp: eventc_register_def tool_name_def split: if_splits)
qed (use assms in \<open>simp add: eventc_register_def\<close>)

lemma register_calls:
  "eventc_register R channelName ns ch t = (Inr u, t1) \<Longrightarrow> (case ns of
      None \<Rightarrow> t1 = t
    | Some c \<Rightarrow> \<exists>name. str2name channelName = Inr name \<and>
        (cl_calls t1 = cl_calls t @ [RcNsBind c name (Some ch)] \<or>
         cl_calls t1 = cl_calls t @ [RcNsBind c name (Some ch), RcNsRebind c name (Some ch)]))"
  by (drule register_cases) (auto dest!: invoke_calls)

text \<open>Objects for concrete runs: every call returns.\<close>

definition quiet_remote :: "unit remote" where
  "quiet_remote = \<lparr>rm_ref = (\<lambda>c w. (Inr (Some 1), w)), rm_unit = (\<lambda>c w. (Inr (), w)), rm_bool = (\<lambda>c w. (Inr True, w)),
     rm_text = (\<lambda>c w. (Inr ''IOR:0'', w)), rm_list = (\<lambda>c w. (Inr ([], None), w)), rm_next = (\<lambda>c w. (Inr None, w)),
     rm_name = (\<lambda>e. ''E''), rm_minor = (\<lambda>e. None)\<rparr>"

lemmas tool_steps = invoke_def on_ref_def doing_def cerr_def cout_def destroy_orb_def

lemma plain_names: "str2name ''EventChannelFactory'' = Inr [\<lparr>nc_id = ''EventChannelFactory'', nc_kind = []\<rparr>]"
    "str2name ''EventChannel'' = Inr [\<lparr>nc_id = ''EventChannel'', nc_kind = []\<rparr>]"
  by code_simp+



text \<open>
  \<^verbatim>\<open>eventf\<close> ends with 0 exactly after the whole sequence of calls that connects a new push
  supplier proxy of the source to a new push consumer proxy of the destination, each as the
  other's client.
\<close>

lemma eventf_federates:
  assumes "eventf_run R () [a, b] (client_start w) = (Inr 0, t1)"
  shows "\<exists>o1 from o2 to cadmin sup sadmin con. cl_calls t1 =
    [RcStringToObject a, RcNarrow ''CosEventChannelAdmin::EventChannel'' o1,
     RcStringToObject b, RcNarrow ''CosEventChannelAdmin::EventChannel'' o2,
     RcForConsumers from, RcObtainPushSupplier cadmin, RcForSuppliers to, RcObtainPushConsumer sadmin,
     RcConnectPushSupplier con (Some sup), RcConnectPushConsumer sup (Some con), RcOrbDestroy]"
proof -
  have c: "cl_calls (client_start w) = []" by (simp add: client_start_def)
  have "eventf_body R a b (client_start w) = (Inr 0, t1)" using assms by (simp add: eventf_run_def handlers_0)
  then show ?thesis
    unfolding eventf_body_def then_r_Inr on_ref_Inr getChannel_def narrow_channel_def
    by (auto simp: c split: option.splits dest!: invoke_calls destroy_calls)
qed

text \<open>
  \<^verbatim>\<open>rmeventc\<close> takes the name of a channel away before it knows that it can destroy it: if what
  the naming service resolved the name to is not a channel, or cannot be reached, the tool
  reports a failure, has destroyed nothing, and has unbound the name.
\<close>

lemma rmeventc_unbinds_first:
  assumes "rmeventc_object R n [] (client_start w) = (Inr obj, t1)"
    and "narrow_channel R obj (doing ''narrow object reference to event channel'' t1) = (Inl e, t2)" and "is_corba_exn e"
  shows "\<exists>t3 ns pre. rmeventc_run R (Inr n) [] (client_start w) = (Inr 1, t3) \<and>
    cl_calls t3 = pre @ [RcNsResolve ns n, RcNsUnbind ns n, RcNarrow ''CosEventChannelAdmin::EventChannel'' obj] \<and>
    (\<forall>c \<in> set pre. is_lookup c)"
proof -
  obtain ns s1 c s2 u where r: "resolve_naming R (client_start w) = (Inr ns, s1)" and n: "ns = Some c"
    and res: "invoke (rm_ref R) (RcNsResolve c n) (doing ''find Event Channel in naming service'' s1) = (Inr obj, s2)"
    and unb: "invoke (rm_unit R) (RcNsUnbind c n) (doing ''unbind Event Channel from naming service'' s2) = (Inr u, t1)"
    using assms(1) by (auto simp: rmeventc_object_def then_r_Inr on_ref_Inr)
  have pre: "\<forall>c \<in> set (cl_calls s1). is_lookup c"
    using looks.resolve_naming_safe [OF r] by (auto simp: looks_def client_start_def)
  have "cl_calls t2 = cl_calls t1 @ [RcNarrow ''CosEventChannelAdmin::EventChannel'' obj]"
    using assms(2) by (auto simp: narrow_channel_def then_r_def split: prod.splits sum.splits option.splits dest!: invoke_calls)
  then have calls: "cl_calls t2 = cl_calls s1 @
      [RcNsResolve c n, RcNsUnbind c n, RcNarrow ''CosEventChannelAdmin::EventChannel'' obj]"
    using invoke_calls [OF res] invoke_calls [OF unb] by simp
  have "rmeventc_body R n [] (client_start w) = (Inl e, t2)" using assms(1,2) by (simp add: rmeventc_body_def)
  moreover have "\<exists>t3. catch_naming R (Inl e, t2) = (Inr 1, t3) \<and> cl_calls t3 = cl_calls t2"
    using assms(3) by (rule catch_naming_exn)
  ultimately show ?thesis using calls pre unfolding rmeventc_run_def by auto
qed

end
