(* ===== verification/Event_Streamer.thy ===== *)
theory Event_Streamer
  imports Event_Tools
begin

text \<open>
  \<^verbatim>\<open>events.cc\<close>: a push consumer that records the events of a channel with the time of their arrival
  on its standard output, and a push supplier that replays such a recording from its standard
  input with the same distances in time.
\<close>

section \<open>Class Time\<close>

record stime =
  ti_sec :: ulong
  ti_nano :: ulong

abbreviation BILLION32 :: ulong where
  "BILLION32 \<equiv> 1000000000"

definition time_nil :: stime where
  "time_nil = \<lparr>ti_sec = 0, ti_nano = 0\<rparr>"

definition time_less :: "stime \<Rightarrow> stime \<Rightarrow> bool" where
  "time_less a b \<longleftrightarrow> (if ti_sec a = ti_sec b then ti_nano a < ti_nano b else ti_sec a < ti_sec b)"

definition time_add :: "stime \<Rightarrow> stime \<Rightarrow> stime" where
  "time_add a b = (let s = ti_sec a + ti_sec b; n = ti_nano a + ti_nano b
     in if n > BILLION32 then \<lparr>ti_sec = s + 1, ti_nano = n mod BILLION32\<rparr> else \<lparr>ti_sec = s, ti_nano = n\<rparr>)"

definition time_sub :: "stime \<Rightarrow> stime \<Rightarrow> exn + stime" where
  "time_sub a b =
     (if time_less a b then Inl BAD_PARAM
      else let s = ti_sec a - ti_sec b
           in Inr (if ti_nano a < ti_nano b then \<lparr>ti_sec = s - 1, ti_nano = ti_nano a + BILLION32 - ti_nano b\<rparr>
                   else \<lparr>ti_sec = s, ti_nano = ti_nano a - ti_nano b\<rparr>))"

definition time_is_nil :: "stime \<Rightarrow> bool" where
  "time_is_nil a \<longleftrightarrow> ti_sec a = 0 \<and> ti_nano a = 0"

section \<open>The clock, the streams and the marshalling\<close>

text \<open>
  Outside the tool: whether the proxy is still connected (\<^verbatim>\<open>disconnect_push_supplier\<close> may be called
  at any time), the POA manager and \<^verbatim>\<open>run\<close> of the ORB (\<open>None\<close> if it does not return), the clock, \<^verbatim>\<open>omni_thread::sleep\<close>, \<^verbatim>\<open>read\<close> and \<^verbatim>\<open>write\<close>, and the marshalling of the ORB. A
  value is unmarshalled from a position of a buffer, which gives the next position.
\<close>

type_synonym octets = "8 word list"

record 'w streamer =
  st_connected :: "'w \<Rightarrow> bool"
  st_get_time :: "'w \<Rightarrow> nat \<times> nat"
  st_sleep :: "stime \<Rightarrow> 'w \<Rightarrow> 'w"
  st_read :: "'w \<Rightarrow> (int \<times> octets) \<times> 'w"
  st_write :: "octets \<Rightarrow> 'w \<Rightarrow> 'w"
  st_activate :: "'w \<Rightarrow> (exn + unit) \<times> 'w"
  st_run :: "'w \<Rightarrow> ((exn + unit) \<times> 'w) option"
  st_marshal :: "stime \<times> any \<Rightarrow> octets"
  st_unmarshal :: "nat \<Rightarrow> octets \<Rightarrow> exn + (stime \<times> any) \<times> nat"

definition time_current :: "'w streamer \<Rightarrow> 'w client \<Rightarrow> stime" where
  "time_current S t = (case st_get_time S (cl_world t) of (sec, nano) \<Rightarrow> \<lparr>ti_sec = of_nat sec, ti_nano = of_nat nano\<rparr>)"

definition sleepUntil :: "'w streamer \<Rightarrow> stime \<Rightarrow> 'w client \<Rightarrow> ('w, unit) answer" where
  "sleepUntil S futureTime t =
     (let now = time_current S t
      in if time_less now futureTime
         then (case time_sub futureTime now of
                 Inl e \<Rightarrow> (Inl e, t)
               | Inr offset \<Rightarrow> (Inr (), t\<lparr>cl_world := st_sleep S offset (cl_world t)\<rparr>))
         else (Inr (), t))"

section \<open>Consumer_i\<close>

definition consumer_push :: "'w streamer \<Rightarrow> any \<Rightarrow> 'w client \<Rightarrow> 'w client" where
  "consumer_push S data t = t\<lparr>cl_world := st_write S (st_marshal S (time_current S t, data)) (cl_world t)\<rparr>"

definition disconnected_text :: "'w client \<Rightarrow> 'w client" where
  "disconnected_text t = cout (''disconnected'' @ nl) t"

definition consume :: "'w remote \<Rightarrow> objref \<Rightarrow> objref \<Rightarrow> 'w client \<Rightarrow> ('w, unit) answer" where
  "consume R self channel t =
     then_r (invoke (rm_ref R) (RcForConsumers channel) (doing ''get ConsumerAdmin'' t)) (\<lambda>consumer_admin t1.
     then_r (on_ref consumer_admin (\<lambda>a. invoke (rm_ref R) (RcObtainPushSupplier a)) (doing ''get ProxyPushSupplier'' t1))
       (\<lambda>proxy_supplier t2.
     on_ref proxy_supplier (\<lambda>p. invoke (rm_unit R) (RcConnectPushConsumer p (Some self))) (doing ''connect to ProxyPushSupplier'' t2)))"

section \<open>Supplier_i\<close>

text \<open>One event: the first one fixes the offset between the recording and the clock.\<close>

definition supply_event :: "'w streamer \<Rightarrow> 'w remote \<Rightarrow> objref option \<Rightarrow> stime \<times> any \<Rightarrow> stime \<Rightarrow> 'w client \<Rightarrow> ('w, stime) answer"
where
  "supply_event S R proxy ev offsetTime t =
     then_r (if time_is_nil offsetTime
             then (case time_sub (time_current S t) (fst ev) of
                     Inl e \<Rightarrow> (Inl e, cerr (''Negative time!'' @ nl) t) | Inr d \<Rightarrow> (Inr d, t))
             else (Inr offsetTime, t)) (\<lambda>offset1 t1.
     then_r (sleepUntil S (time_add (fst ev) offset1) t1) (\<lambda>_ t2.
     then_r (on_ref proxy (\<lambda>p. invoke (rm_unit R) (RcPush p (snd ev))) (doing ''push'' t2)) (\<lambda>_ t3. (Inr offset1, t3))))"

text \<open>The events of one buffer, from a position on.\<close>

partial_function (option) supply_buffer :: "'w streamer \<Rightarrow> 'w remote \<Rightarrow> objref option \<Rightarrow> octets \<Rightarrow> nat \<Rightarrow> stime \<Rightarrow> 'w client \<Rightarrow>
    ('w, stime) answer option" where
  "supply_buffer S R proxy buf pos offsetTime t =
     (if st_connected S (cl_world t) \<and> pos < length buf
      then (case st_unmarshal S pos buf of
              Inl e \<Rightarrow> Some (Inl e, doing ''unmarshal'' t)
            | Inr (ev, pos1) \<Rightarrow>
                (case supply_event S R proxy ev offsetTime (doing ''unmarshal'' t) of
                   (Inl e, t1) \<Rightarrow> Some (Inl e, t1)
                 | (Inr offset1, t1) \<Rightarrow> supply_buffer S R proxy buf pos1 offset1 t1))
      else Some (Inr offsetTime, t))"

text \<open>
  The outer loop. \<^verbatim>\<open>read\<close> returns 0 at the end of the input, and -1 if it fails: then
  \<^verbatim>\<open>put_octet_array\<close> gets a negative length.
\<close>

partial_function (option) supply_loop :: "'w streamer \<Rightarrow> 'w remote \<Rightarrow> objref option \<Rightarrow> stime \<Rightarrow> 'w client \<Rightarrow>
    ('w, unit) answer option" where
  "supply_loop S R proxy offsetTime t =
     (if st_connected S (cl_world t)
      then (case st_read S (cl_world t) of
              ((len, buf), w) \<Rightarrow>
                let t1 = t\<lparr>cl_world := w\<rparr>
                in if len = 0 then Some (Inr (), t1)
                   else if len < 0 then Some (Inl InvalidAccess, t1)
                   else (case supply_buffer S R proxy (take (nat len) buf) 0 offsetTime (doing ''put_octet_array'' t1) of
                           None \<Rightarrow> None
                         | Some (Inl e, t2) \<Rightarrow> Some (Inl e, t2)
                         | Some (Inr offset1, t2) \<Rightarrow> supply_loop S R proxy offset1 t2))
      else Some (Inr (), t))"

definition supply_channel :: "'w streamer \<Rightarrow> 'w remote \<Rightarrow> objref \<Rightarrow> objref \<Rightarrow> 'w client \<Rightarrow> ('w, unit) answer option" where
  "supply_channel S R self channel t =
     (case then_r (invoke (rm_ref R) (RcForSuppliers channel) (doing ''get SupplierAdmin'' t)) (\<lambda>supplier_admin t1.
           then_r (on_ref supplier_admin (\<lambda>a. invoke (rm_ref R) (RcObtainPushConsumer a)) (doing ''get ProxyPushConsumer'' t1))
             (\<lambda>proxy_consumer t2.
           then_r (on_ref proxy_consumer (\<lambda>p. invoke (rm_unit R) (RcConnectPushSupplier p (Some self)))
               (doing ''connect to ProxyPushConsumer'' t2)) (\<lambda>_ t3. (Inr proxy_consumer, doing ''read standard input'' t3)))) of
        (Inl e, t1) \<Rightarrow> Some (Inl e, t1)
      | (Inr proxy_consumer, t1) \<Rightarrow> supply_loop S R proxy_consumer time_nil t1)"

section \<open>The program\<close>

record events_options =
  ev_supplierMode :: bool
  ev_channelName :: string

definition events_option :: "events_options \<Rightarrow> char \<times> string option \<Rightarrow> exn + events_options" where
  "events_option o1 co = (case co of (c, optarg) \<Rightarrow>
     (if c = CHR ''s'' then Inr (o1\<lparr>ev_supplierMode := True\<rparr>)
      else if c = CHR ''n'' then with_optarg optarg (\<lambda>s. Inr (o1\<lparr>ev_channelName := s\<rparr>))
      else Inl (tool_usage c)))"

text \<open>The root POA and its manager, then the channel from the command line or the naming service.\<close>

definition activate_poa :: "'w streamer \<Rightarrow> 'w remote \<Rightarrow> 'w client \<Rightarrow> ('w, unit) answer" where
  "activate_poa S R t =
     then_r (invoke (rm_ref R) (RcResolveInitial ''RootPOA'') (doing (''resolve initial reference '' @ quoted ''RootPOA'') t))
       (\<lambda>obj t1.
     then_r (invoke (rm_ref R) (RcNarrow ''PortableServer::POA'' obj) t1) (\<lambda>poa t2.
       if poa = None then (Inl OBJECT_NOT_EXIST, t2)
       else (case st_activate S (cl_world t2) of
               (r, w) \<Rightarrow> (r, (doing (''activate the RootPOA'' @ [CHR 0x27] @ ''s POAManager'') t2)\<lparr>cl_world := w\<rparr>))))"

definition events_channel :: "'w remote \<Rightarrow> events_options \<Rightarrow> string list \<Rightarrow> 'w client \<Rightarrow> ('w, objref) answer" where
  "events_channel R o1 args t =
     then_r (case args of
        uri # _ \<Rightarrow> uri_object R uri t
      | [] \<Rightarrow> then_r (resolve_naming R t) (\<lambda>ns t1.
          ns_lookup R ns (ev_channelName o1)
            (cout (''find EventChannel in NameService'' @ nl) (doing ''find EventChannel in NameService'' t1)))) (\<lambda>obj t1.
     then_r (invoke (rm_ref R) (RcNarrow ''CosEventChannelAdmin::EventChannel'' obj)
         (doing ''narrow object reference to event channel'' t1)) (\<lambda>ch t2.
       case ch of None \<Rightarrow> exit_with 1 (''Failed to narrow Event Channel reference.'' @ nl) t2 | Some c \<Rightarrow> (Inr c, t2)))"

definition events_body :: "'w streamer \<Rightarrow> 'w remote \<Rightarrow> objref \<Rightarrow> events_options \<Rightarrow> string list \<Rightarrow> 'w client \<Rightarrow>
    ('w, int) answer option" where
  "events_body S R self o1 args t = map_option (\<lambda>m. then_r m (\<lambda>_ t1. (Inr 0, t1)))
     (case then_r (activate_poa S R t) (\<lambda>_. events_channel R o1 args) of
        (Inl e, t1) \<Rightarrow> Some (Inl e, t1)
      | (Inr channel, t1) \<Rightarrow>
          if ev_supplierMode o1 then supply_channel S R self channel (doing ''construct PushSupplier'' t1)
          else (case consume R self channel (doing ''construct PushConsumer'' t1) of
                  (Inl e, t2) \<Rightarrow> Some (Inl e, t2)
                | (Inr _, t2) \<Rightarrow> map_option (\<lambda>(r, w). (r, (doing ''run ORB'' t2)\<lparr>cl_world := w\<rparr>)) (st_run S (cl_world t2))))"

text \<open>This tool prints the text of the minor code of a system exception also if there is none.\<close>

definition events_catch :: "'w remote \<Rightarrow> ('w, int) answer \<Rightarrow> ('w, int) answer" where
  "events_catch R m = (case m of
      (Inl e, t) \<Rightarrow>
        if is_system_exn e \<and> e \<noteq> TRANSIENT \<and> e \<noteq> OBJECT_NOT_EXIST \<and> rm_minor R e = None then (Inl InvalidAccess, t)
        else catch_naming R m
    | _ \<Rightarrow> m)"

definition events :: "'w streamer \<Rightarrow> 'w remote \<Rightarrow> objref \<Rightarrow> string list \<Rightarrow> 'w client \<Rightarrow> ('w, int) answer option" where
  "events S R self argv t =
     run_tool ''shn:'' events_option \<lparr>ev_supplierMode = False, ev_channelName = ''EventChannel''\<rparr>
       (\<lambda>o1 args t1. map_option (events_catch R) (events_body S R self o1 args t1)) (\<lambda>e. Some (Inl e, t)) argv t"

section \<open>Arithmetic of times\<close>

definition time_value :: "stime \<Rightarrow> nat" where
  "time_value a = unat (ti_sec a) * 10 ^ 9 + unat (ti_nano a)"

definition normal_time :: "stime \<Rightarrow> bool" where
  "normal_time a \<longleftrightarrow> ti_nano a < BILLION32"

lemma billion_nat [simp]: "unat BILLION32 = 1000000000"
  by simp

lemma nano_full: "n = BILLION32 \<longleftrightarrow> unat n = 1000000000"
  using word_unat_eq_iff [of n BILLION32] by (simp only: billion_nat)

lemma normal_nat: "normal_time a \<longleftrightarrow> unat (ti_nano a) < 1000000000"
  by (simp add: normal_time_def word_less_nat_alt)

lemma time_sub_spec:
  assumes "unat (ti_nano a) \<le> 1000000000" and "unat (ti_nano b) \<le> 1000000000" and "\<not> time_less a b"
  shows "\<exists>d. time_sub a b = Inr d \<and> time_value d + time_value b = time_value a"
proof (cases "ti_nano a < ti_nano b")
  case True
  then have n: "unat (ti_nano a) < unat (ti_nano b)" by (simp add: word_less_nat_alt)
  have sl: "ti_sec b < ti_sec a" using assms(3) True by (auto simp: time_less_def not_less split: if_splits)
  then have s: "unat (ti_sec b) < unat (ti_sec a)" by (simp add: word_less_nat_alt)
  have "unat (ti_sec a - ti_sec b) = unat (ti_sec a) - unat (ti_sec b)" using sl by (simp add: unat_sub less_imp_le)
  then have "unat (ti_sec a - ti_sec b - 1) = unat (ti_sec a) - unat (ti_sec b) - 1" using s
    by (subst unat_sub) (auto simp: word_le_nat_alt)
  moreover have a: "unat (ti_nano a + BILLION32) = unat (ti_nano a) + 1000000000"
    using assms(1) by (subst unat_add_lem [THEN iffD1]) simp_all
  then have "unat (ti_nano a + BILLION32 - ti_nano b) = unat (ti_nano a) + 1000000000 - unat (ti_nano b)"
    using assms(2) by (subst unat_sub) (simp_all add: word_le_nat_alt)
  ultimately show ?thesis using True assms n s by (simp add: time_sub_def time_value_def algebra_simps)
next
  case False
  then have n: "unat (ti_nano b) \<le> unat (ti_nano a)" "unat (ti_nano a - ti_nano b) = unat (ti_nano a) - unat (ti_nano b)"
    by (simp_all add: not_less word_le_nat_alt unat_sub)
  have "ti_sec b \<le> ti_sec a" using assms(3) by (auto simp: time_less_def split: if_splits)
  then have "unat (ti_sec b) \<le> unat (ti_sec a)" "unat (ti_sec a - ti_sec b) = unat (ti_sec a) - unat (ti_sec b)"
    by (simp_all add: word_le_nat_alt unat_sub)
  then show ?thesis using False assms n by (simp add: time_sub_def time_value_def algebra_simps)
qed

lemma time_add_spec:
  assumes "normal_time a" and "normal_time b" and "unat (ti_sec a) + unat (ti_sec b) + 1 < 2 ^ 32"
  shows "time_value (time_add a b) = time_value a + time_value b \<and> unat (ti_nano (time_add a b)) \<le> 1000000000 \<and>
    (ti_nano (time_add a b) = BILLION32 \<longleftrightarrow> unat (ti_nano a) + unat (ti_nano b) = 1000000000)"
proof -
  let ?n = "unat (ti_nano a) + unat (ti_nano b)"
  have n: "unat (ti_nano a + ti_nano b) = ?n" and s: "unat (ti_sec a + ti_sec b) = unat (ti_sec a) + unat (ti_sec b)"
    using assms by (simp_all add: normal_nat unat_add_lem [THEN iffD1])
  then have s1: "unat (ti_sec a + ti_sec b + 1) = unat (ti_sec a) + unat (ti_sec b) + 1"
    using assms(3) by (subst unat_add_lem [THEN iffD1]) simp_all
  have lt: "?n < 2000000000" using assms(1,2) by (simp add: normal_nat)
  have m: "unat ((ti_nano a + ti_nano b) mod BILLION32) = ?n mod 1000000000" using n by (simp add: unat_mod)
  show ?thesis
  proof (cases "1000000000 < ?n")
    case True
    then have g: "BILLION32 < ti_nano a + ti_nano b" using n by (simp add: word_less_nat_alt)
    have "?n mod 1000000000 = ?n - 1000000000" using True lt by (simp add: mod_if)
    then have "unat (ti_nano (time_add a b)) = ?n - 1000000000" "unat (ti_sec (time_add a b)) = unat (ti_sec a) + unat (ti_sec b) + 1"
      using g m s1 by (simp_all add: time_add_def Let_def)
    then show ?thesis unfolding nano_full time_value_def using True lt by (simp add: algebra_simps) linarith
  next
    case False
    then have "\<not> BILLION32 < ti_nano a + ti_nano b" using n by (simp add: word_less_nat_alt)
    then have "unat (ti_nano (time_add a b)) = ?n" "unat (ti_sec (time_add a b)) = unat (ti_sec a) + unat (ti_sec b)"
      using n s by (simp_all add: time_add_def Let_def)
    then show ?thesis unfolding nano_full time_value_def using False by (simp add: algebra_simps)
  qed
qed

text \<open>
  Times. For two normal times (nanoseconds below one second) whose sum fits, the sum denotes
  the sum of their values, and subtracting one of them gives back a time of the value of the
  other; but the sum of nanoseconds that add up to exactly one second is not carried, so it is
  not normal.
\<close>

lemma time_add_sub:
  assumes "normal_time a" and "normal_time b" and "unat (ti_sec a) + unat (ti_sec b) + 1 < 2 ^ 32"
  shows "time_value (time_add a b) = time_value a + time_value b \<and>
    (normal_time (time_add a b) \<longleftrightarrow> unat (ti_nano a) + unat (ti_nano b) \<noteq> 1000000000) \<and>
    (\<exists>d. time_sub (time_add a b) b = Inr d \<and> time_value d = time_value a)"
proof -
  note add = time_add_spec [OF assms]
  have n: "normal_time (time_add a b) \<longleftrightarrow> unat (ti_nano a) + unat (ti_nano b) \<noteq> 1000000000"
    using add unfolding normal_nat nano_full by linarith
  have b: "unat (ti_nano b) < 1000000000" using assms(2) by (simp add: normal_nat)
  have "\<not> time_less (time_add a b) b"
  proof
    assume "time_less (time_add a b) b"
    then have "unat (ti_sec (time_add a b)) = unat (ti_sec b) \<and> unat (ti_nano (time_add a b)) < unat (ti_nano b) \<or>
        unat (ti_sec (time_add a b)) < unat (ti_sec b)"
      by (auto simp: time_less_def word_less_nat_alt split: if_splits)
    moreover have "unat (ti_sec (time_add a b)) * 1000000000 + unat (ti_nano (time_add a b)) =
        time_value a + (unat (ti_sec b) * 1000000000 + unat (ti_nano b))" using add by (simp add: time_value_def)
    ultimately have "unat (ti_nano (time_add a b)) = 1000000000 \<and> unat (ti_nano b) = 0 \<and> time_value a = 0" using add by linarith
    then show False using add unfolding nano_full by (simp add: time_value_def)
  qed
  then show ?thesis using time_sub_spec [of "time_add a b" b] add b n by auto
qed

section \<open>Replaying in time\<close>

text \<open>
  The clock gives normal times that fit into 32 bits of seconds, and a sleep that ends before they
  overflow lasts as long as it was asked to, or longer.
\<close>

definition now :: "'w streamer \<Rightarrow> 'w \<Rightarrow> nat" where
  "now S w = (case st_get_time S w of (s, n) \<Rightarrow> s * 10 ^ 9 + n)"

definition clock_runs :: "'w streamer \<Rightarrow> bool" where
  "clock_runs S \<longleftrightarrow> (\<forall>w. fst (st_get_time S w) < 2 ^ 32 \<and> snd (st_get_time S w) < 10 ^ 9) \<and>
     (\<forall>d w. now S w + time_value d < 2 ^ 32 * 10 ^ 9 \<longrightarrow> now S w + time_value d \<le> now S (st_sleep S d w))"

lemma time_current_now:
  assumes "clock_runs S"
  shows "time_value (time_current S t) = now S (cl_world t)" and "normal_time (time_current S t)"
proof -
  obtain s n where g: "st_get_time S (cl_world t) = (s, n)" by force
  then have b: "s < 2 ^ 32" "n < 10 ^ 9" using assms unfolding clock_runs_def by (metis fst_conv, metis snd_conv)
  then have "unat (of_nat s :: ulong) = s" "unat (of_nat n :: ulong) = n"
    by (simp_all add: unat_of_nat take_bit_nat_eq_self)
  then show "time_value (time_current S t) = now S (cl_world t)" and "normal_time (time_current S t)"
    using g b by (simp_all add: time_current_def time_value_def now_def normal_nat)
qed

lemma sleepUntil_reaches:
  assumes "clock_runs S" and "unat (ti_nano f) \<le> 1000000000" and "time_value f < 2 ^ 32 * 10 ^ 9"
  shows "\<exists>t1. sleepUntil S f t = (Inr (), t1) \<and> cl_calls t1 = cl_calls t \<and> time_value f \<le> now S (cl_world t1)"
proof -
  let ?n = "time_current S t"
  note n = time_current_now [OF assms(1), of t]
  have nn: "unat (ti_nano ?n) < 1000000000" using n(2) by (simp add: normal_nat)
  show ?thesis
  proof (cases "time_less ?n f")
    case True
    then have "\<not> time_less f ?n" by (auto simp: time_less_def split: if_splits)
    then obtain d where d: "time_sub f ?n = Inr d" "time_value d + time_value ?n = time_value f"
      using time_sub_spec [of f ?n] assms(2) nn by auto
    have "now S (cl_world t) + time_value d < 2 ^ 32 * 10 ^ 9" using assms(3) d(2) n(1) by simp
    then have "now S (cl_world t) + time_value d \<le> now S (st_sleep S d (cl_world t))"
      using assms(1) unfolding clock_runs_def by blast
    then show ?thesis using True d n(1) by (simp add: sleepUntil_def)
  next
    case False
    then have "ti_sec ?n = ti_sec f \<and> ti_nano f \<le> ti_nano ?n \<or> ti_sec f < ti_sec ?n"
      by (auto simp: time_less_def not_less split: if_splits)
    then have "time_value f \<le> time_value ?n \<or> ti_sec f < ti_sec ?n"
      by (auto simp: time_value_def word_le_nat_alt)
    moreover have "time_value f \<le> time_value ?n" if "ti_sec f < ti_sec ?n"
    proof -
      have "unat (ti_sec f) + 1 \<le> unat (ti_sec ?n)" using that by (simp add: word_less_nat_alt)
      then have "(unat (ti_sec f) + 1) * 1000000000 \<le> unat (ti_sec ?n) * 1000000000" by (rule mult_le_mono1)
      then show ?thesis using assms(2) by (simp add: time_value_def)
    qed
    ultimately have "time_value f \<le> now S (cl_world t)" using n(1) by auto
    then show ?thesis using False by (simp add: sleepUntil_def)
  qed
qed

text \<open>What has been pushed.\<close>

fun replayed_event :: "rcall \<Rightarrow> any list" where
  "replayed_event (RcPush _ a) = [a]"
| "replayed_event _ = []"

definition replayed :: "'w client \<Rightarrow> any list" where
  "replayed t = concat (map replayed_event (cl_calls t))"

text \<open>
  C34. The distances in time. An event is pushed no earlier than its own time of arrival plus an
  offset, which is the one given unless that is zero, and else the age of this event; so two
  events of a recording are pushed at least as far apart as they had arrived after the first.
\<close>

theorem replay_not_early:
  assumes "clock_runs S" and "normal_time (fst ev)" and "normal_time off" and "supply_event S R (Some p) ev off t = (Inr off1, t2)"
    and "unat (ti_sec (fst ev)) + unat (ti_sec off1) + 1 < 2 ^ 32" and "normal_time off1"
  shows "\<exists>t1. invoke (rm_unit R) (RcPush p (snd ev)) t1 = (Inr (), t2) \<and> cl_calls t1 = cl_calls t \<and>
    time_value (fst ev) + time_value off1 \<le> now S (cl_world t1) \<and>
    (if time_is_nil off then time_value off1 + time_value (fst ev) = now S (cl_world t) else off1 = off)"
proof -
  obtain t0 where o: "(if time_is_nil off then (case time_sub (time_current S t) (fst ev) of
        Inl e \<Rightarrow> (Inl e, cerr (''Negative time!'' @ nl) t) | Inr d \<Rightarrow> (Inr d, t)) else (Inr off, t)) = (Inr off1, t0)"
    and r: "then_r (sleepUntil S (time_add (fst ev) off1) t0) (\<lambda>_ t2.
        then_r (on_ref (Some p) (\<lambda>p. invoke (rm_unit R) (RcPush p (snd ev))) (doing ''push'' t2)) (\<lambda>_ t3. (Inr off1, t3))) = (Inr off1, t2)"
    using assms(4) unfolding supply_event_def then_r_Inr by (auto simp: then_r_Inr)
  have t0: "t0 = t" using o by (auto split: if_splits sum.splits)
  have off: "if time_is_nil off then time_value off1 + time_value (fst ev) = now S (cl_world t) else off1 = off"
  proof (cases "time_is_nil off")
    case True
    then have d: "time_sub (time_current S t) (fst ev) = Inr off1" using o by (auto split: sum.splits)
    then have "\<not> time_less (time_current S t) (fst ev)" by (auto simp: time_sub_def)
    then show ?thesis using True d time_sub_spec [of "time_current S t" "fst ev"] time_current_now [OF assms(1), of t] assms(2)
      by (auto simp: normal_nat)
  qed (use o in auto)
  have add: "time_value (time_add (fst ev) off1) = time_value (fst ev) + time_value off1"
    "unat (ti_nano (time_add (fst ev) off1)) \<le> 1000000000" using time_add_spec [OF assms(2,6,5)] by auto
  have fits: "time_value (time_add (fst ev) off1) < 2 ^ 32 * 10 ^ 9"
    using add(1) assms(2,5,6) by (simp add: time_value_def normal_nat)
  obtain t3 where s: "sleepUntil S (time_add (fst ev) off1) t = (Inr (), t3)" "cl_calls t3 = cl_calls t"
    "time_value (fst ev) + time_value off1 \<le> now S (cl_world t3)" using sleepUntil_reaches [OF assms(1) add(2) fits, of t] add(1) by auto
  have "invoke (rm_unit R) (RcPush p (snd ev)) (doing ''push'' t3) = (Inr (), t2)"
    using r s(1) t0 by (auto simp: then_r_Inr on_ref_def)
  moreover have "cl_world (doing ''push'' t3) = cl_world t3" by (simp add: doing_def)
  ultimately show ?thesis using s off by (intro exI [of _ "doing ''push'' t3"]) simp
qed

section \<open>A recording is replayed\<close>

text \<open>
  The buffer of a recording: each event was marshalled at the beginning of a stream, so it is
  read back at a position that is a multiple of the largest alignment.
\<close>

definition recording :: "'w streamer \<Rightarrow> (stime \<times> any) list \<Rightarrow> bool" where
  "recording S es \<longleftrightarrow> (\<forall>x \<in> set es. 8 dvd length (st_marshal S x) \<and> st_marshal S x \<noteq> [] \<and>
     (\<forall>pos buf rest. 8 dvd pos \<longrightarrow> drop pos buf = st_marshal S x @ rest \<longrightarrow>
        st_unmarshal S pos buf = Inr (x, pos + length (st_marshal S x))))"

lemma replayed_simps [simp]: "replayed (doing a t) = replayed t" "replayed (cerr x t) = replayed t"
  by (simp_all add: replayed_def)

lemma replayed_invoke: "invoke f c t = (r, t1) \<Longrightarrow> replayed t1 = replayed t @ replayed_event c"
  by (simp add: replayed_def invoke_calls)

lemma replayed_sleep: "sleepUntil S f t = (x, t1) \<Longrightarrow> replayed t1 = replayed t"
  by (auto simp: sleepUntil_def Let_def replayed_def split: if_splits sum.splits)

lemma supply_event_replayed:
  assumes "supply_event S R (Some p) ev off t = (r, t1)"
  shows "replayed t1 = replayed t @ [snd ev] \<or> replayed t1 = replayed t \<and> (\<exists>e. r = Inl e)"
proof -
  let ?o = "if time_is_nil off then (case time_sub (time_current S t) (fst ev) of
        Inl e \<Rightarrow> (Inl e, cerr (''Negative time!'' @ nl) t) | Inr d \<Rightarrow> (Inr d, t)) else (Inr off, t)"
  obtain x t0 where o: "?o = (x, t0)" by force
  then have p0: "replayed t0 = replayed t" by (auto split: if_splits sum.splits)
  show ?thesis
  proof (cases x)
    case (Inl e)
    then have "r = Inl e \<and> t1 = t0" using assms unfolding supply_event_def o Inl then_r_pass by simp
    then show ?thesis using p0 by simp
  next
    case (Inr off1)
    obtain y t2 where s: "sleepUntil S (time_add (fst ev) off1) t0 = (y, t2)" by force
    obtain z t3 where c: "invoke (rm_unit R) (RcPush p (snd ev)) (doing ''push'' t2) = (z, t3)" by force
    show ?thesis
      using assms p0 s c replayed_sleep [OF s] replayed_invoke [OF c] unfolding supply_event_def o Inr then_r_pass
      by (cases y; cases z) (auto simp: on_ref_def)
  qed
qed


text \<open>
  A streamer for concrete runs: the state is the clock, which stops at its last value, and one event
  is recorded in eight octets.
\<close>

definition demo_event :: "stime \<times> any" where
  "demo_event = (\<lparr>ti_sec = 5, ti_nano = 0\<rparr>, empty_any)"

definition demo_streamer :: "nat streamer" where
  "demo_streamer = \<lparr>st_connected = (\<lambda>w. True),
     st_get_time = (\<lambda>w. let v = min w (2 ^ 32 * 10 ^ 9 - 1) in (v div 10 ^ 9, v mod 10 ^ 9)), st_sleep = (\<lambda>d w. w + time_value d),
     st_read = (\<lambda>w. ((0, []), w)), st_write = (\<lambda>b w. w), st_activate = (\<lambda>w. (Inr (), w)), st_run = (\<lambda>w. Some (Inr (), w)),
     st_marshal = (\<lambda>x. replicate 8 0), st_unmarshal = (\<lambda>pos buf. Inr (demo_event, pos + 8))\<rparr>"

definition demo_pusher :: "nat remote" where
  "demo_pusher = \<lparr>rm_ref = (\<lambda>c w. (Inr (Some 1), w)), rm_unit = (\<lambda>c w. (Inr (), w)), rm_bool = (\<lambda>c w. (Inr True, w)),
     rm_text = (\<lambda>c w. (Inr [], w)), rm_list = (\<lambda>c w. (Inr ([], None), w)), rm_next = (\<lambda>c w. (Inr None, w)),
     rm_name = (\<lambda>e. []), rm_minor = (\<lambda>e. None)\<rparr>"


lemma demo_clock: "clock_runs demo_streamer"
proof -
  have n: "now demo_streamer w = min w (2 ^ 32 * 10 ^ 9 - 1)" for w
    by (simp add: now_def demo_streamer_def Let_def)
  have "fst (st_get_time demo_streamer w) < 2 ^ 32 \<and> snd (st_get_time demo_streamer w) < 10 ^ 9" for w
    by (simp add: demo_streamer_def Let_def less_mult_imp_div_less)
  moreover have "now demo_streamer w + time_value d \<le> now demo_streamer (st_sleep demo_streamer d w)"
    if "now demo_streamer w + time_value d < 2 ^ 32 * 10 ^ 9" for d w
    using that unfolding n by (simp add: demo_streamer_def)
  ultimately show ?thesis unfolding clock_runs_def by blast
qed

theorem replay_not_early_witness:
  "\<exists>off1 t1 t2. supply_event demo_streamer demo_pusher (Some 4) demo_event time_nil (client_start 9000000000) = (Inr off1, t2) \<and>
    time_value off1 = 4000000000 \<and> invoke (rm_unit demo_pusher) (RcPush 4 empty_any) t1 = (Inr (), t2) \<and>
    9000000000 \<le> now demo_streamer (cl_world t1)"
proof -
  let ?t = "client_start (9000000000 :: nat)"
  have "\<exists>t2. supply_event demo_streamer demo_pusher (Some 4) demo_event time_nil ?t = (Inr \<lparr>ti_sec = 4, ti_nano = 0\<rparr>, t2)"
    by (simp add: supply_event_def time_is_nil_def time_nil_def time_current_def time_sub_def time_less_def sleepUntil_def time_add_def
        demo_streamer_def demo_pusher_def demo_event_def client_start_def tool_steps Let_def)
  then obtain t2 where e: "supply_event demo_streamer demo_pusher (Some 4) demo_event time_nil ?t = (Inr \<lparr>ti_sec = 4, ti_nano = 0\<rparr>, t2)"
    by blast
  have h: "normal_time (fst demo_event)" "normal_time time_nil" "normal_time \<lparr>ti_sec = 4, ti_nano = 0\<rparr>"
    "unat (ti_sec (fst demo_event)) + unat (ti_sec \<lparr>ti_sec = 4, ti_nano = 0\<rparr>) + 1 < 2 ^ 32"
    by (simp_all add: normal_time_def demo_event_def time_nil_def)
  have v: "time_value \<lparr>ti_sec = 4, ti_nano = 0\<rparr> = 4000000000" "time_value (fst demo_event) = 5000000000"
    by (simp_all add: time_value_def demo_event_def)
  show ?thesis
    using replay_not_early [OF demo_clock h(1,2) e h(4,3)] e v by (auto simp: demo_event_def)
qed

end
