(* ===== verification/Service_State.thy ===== *)
theory Service_State
  imports Event_Channel_Factory "HOL-Library.Sublist"
begin

text \<open>
  The state of the service as the logfile knows it. The abstract state is the list of the
  records that describe the factory, its channels, and the connections of their proxies, each
  at a path of the tree and with its attributes. What \<^verbatim>\<open>EventChannelFactory_i::output\<close> writes
  is read back as exactly that state.
\<close>

section \<open>Texts that are journals\<close>

text \<open>\<open>jtext rs s\<close>: the text \<open>s\<close> consists of the node records \<open>rs\<close>, however it is laid out.\<close>

definition jtext :: "log_record list \<Rightarrow> string \<Rightarrow> bool" where
  "jtext rs s \<longleftrightarrow> (\<forall>t. text_words (s @ t) = concat (map rec_tokens rs) @ text_words t) \<and>
     ends_space s \<and> (\<forall>r \<in> set rs. rec_ok r)"

named_theorems jtexts "texts and the records they consist of"

lemma jtext_Nil [jtexts]: "jtext [] []"
  by (simp add: jtext_def ends_space_def)

lemma jtext_append [jtexts]: "jtext rs s \<Longrightarrow> jtext rs' s' \<Longrightarrow> jtext (rs @ rs') (s @ s')"
  by (auto simp: jtext_def ends_space_def last_append)

lemma jtext_concat: "(\<And>x. x \<in> set xs \<Longrightarrow> jtext (f x) (g x)) \<Longrightarrow> jtext (concat (map f xs)) (concat (map g xs))"
  by (induction xs) (auto intro: jtexts)

lemma jtext_rec [jtexts]: "rec_ok r \<Longrightarrow> jtext [r] (rec_text r)"
  using rec_text_last [of r] by (simp add: jtext_def rec_text_words ends_space_def)

lemma jtext_enter [jtexts]:
  assumes "proxy_key_ok k" and "proxy_val_ok v"
  shows "jtext [AddRec (proxy_key k) (proxy_attrs v)] (proxy_enter k v)"
  using pj.enter_words [OF assms] pj.enter_ok [OF assms] pj.enter_ends [OF assms]
  by (simp add: jtext_def ends_space_def del: rec_tokens.simps rec_ok.simps)

lemma jtext_nil_target:
  assumes "proxy_key_ok k"
  shows "jtext [AddRec (proxy_key k) []] (proxy_key k @ '' ;;'' @ nl)"
proof -
  have "word (proxy_key k)" "name_ok (proxy_key k)" using proxy_key_facts [OF assms] by (auto simp: name_ok_def)
  then show ?thesis using words_single [of "proxy_key k"] words_end
    by (simp add: jtext_def ends_space_def nl_def)
qed

lemma jtext_parse: "jtext rs s \<Longrightarrow> parse_text s = fold apply_rec rs pn_empty"
  using parse_text_replay [of s rs] unfolding jtext_def by (metis append_Nil2 text_words_Nil)

section \<open>The tree of a list of paths\<close>

definition attrs_at :: "string list \<Rightarrow> pnode \<Rightarrow> (string, string) smap option" where
  "attrs_at p T = map_option pn_attr (lookup_path p T)"

lemma child_graft:
  "child j (PersistNode at (smap_set k c ch)) = (if j = k then Some c else child j (PersistNode at ch))"
  by (simp add: child_def map_of_smap_set)

lemma lookup_graft_disjoint:
  "\<not> prefix q p \<Longrightarrow> attrs_at p (graft q n T) = (case attrs_at p T of Some a \<Rightarrow> Some a
     | None \<Rightarrow> if prefix p q then Some [] else None)"
proof (induction q n T arbitrary: p rule: graft.induct)
  case (2 k ks n at ch)
  show ?case
  proof (cases p)
    case Nil
    then show ?thesis by (simp add: attrs_at_def)
  next
    case (Cons j js)
    show ?thesis
    proof (cases "j = k")
      case True
      let ?c = "case map_of ch k of None \<Rightarrow> pn_empty | Some c \<Rightarrow> c"
      have "\<not> prefix ks js" using 2(2) Cons True by simp
      from 2(1) [OF this] have ih: "attrs_at js (graft ks n ?c) =
          (case attrs_at js ?c of Some a \<Rightarrow> Some a | None \<Rightarrow> if prefix js ks then Some [] else None)" .
      have e: "lookup_path js pn_empty = (if js = [] then Some pn_empty else None)"
        by (cases js) (simp_all add: pn_empty_def child_def)
      show ?thesis
      proof (cases "map_of ch k")
        case None
        then show ?thesis using Cons True ih e
          by (simp add: attrs_at_def child_graft) (simp add: child_def pn_empty_def)
      next
        case (Some c)
        then show ?thesis using Cons True ih by (simp add: attrs_at_def child_graft) (simp add: child_def)
      qed
    next
      case False
      then show ?thesis using Cons
        by (simp add: attrs_at_def child_graft) (simp add: child_def split: option.split)
    qed
  qed
qed simp

lemma lookup_graft_leaf:
  "prefix q p \<Longrightarrow> attrs_at p (graft q (PersistNode as []) T) = (if p = q then Some as else None)"
proof (induction q "PersistNode as []" T arbitrary: p rule: graft.induct)
  case (1 T)
  then show ?case by (cases p) (simp_all add: attrs_at_def child_def)
next
  case (2 k ks at ch)
  then obtain js where "p = k # js" "prefix ks js" by (cases p) auto
  then show ?case using 2(1) [of js] by (simp add: attrs_at_def child_graft)
qed

text \<open>
  Records at paths none of which is above an earlier one build the tree that has exactly
  these attributes at exactly these paths, and bare nodes above them.
\<close>

definition upward :: "(string list \<times> 'a) list \<Rightarrow> bool" where
  "upward ps \<longleftrightarrow> sorted_wrt (\<lambda>a b. \<not> prefix (fst b) (fst a)) ps"

definition state_at :: "(string list \<times> (string, string) smap) list \<Rightarrow> string list \<Rightarrow> (string, string) smap option" where
  "state_at ps p = (case map_of ps p of Some as \<Rightarrow> Some as
     | None \<Rightarrow> if p = [] \<or> (\<exists>q \<in> fst ` set ps. prefix p q) then Some [] else None)"

lemma attrs_at_fold:
  assumes "upward ps"
  shows "attrs_at p (fold (\<lambda>(q, as). graft q (PersistNode as [])) ps pn_empty) = state_at ps p"
  using assms
proof (induction ps arbitrary: p rule: rev_induct)
  case Nil
  then show ?case by (cases p) (simp_all add: attrs_at_def state_at_def pn_empty_def child_def)
next
  case (snoc qa ps)
  obtain q as where qa: "qa = (q, as)" by force
  have up: "upward ps" and new: "\<forall>a \<in> set ps. \<not> prefix q (fst a)"
    using snoc.prems qa by (auto simp: upward_def sorted_wrt_append)
  have nk: "q \<notin> fst ` set ps" using new by auto
  let ?T = "fold (\<lambda>(q, as). graft q (PersistNode as [])) ps pn_empty"
  have eq: "fold (\<lambda>(q, as). graft q (PersistNode as [])) (ps @ [qa]) pn_empty = graft q (PersistNode as []) ?T"
    by (simp add: qa)
  have st: "map_of (ps @ [qa]) p = (case map_of ps p of Some a \<Rightarrow> Some a | None \<Rightarrow> if p = q then Some as else None)"
    by (simp add: qa map_add_def split: option.split)
  have ex: "(\<exists>r \<in> fst ` set (ps @ [qa]). prefix p r) \<longleftrightarrow> (\<exists>r \<in> fst ` set ps. prefix p r) \<or> prefix p q"
    by (auto simp: qa)
  show ?case
  proof (cases "prefix q p")
    case True
    have "map_of ps p = None" using True new by (auto simp: map_of_eq_None_iff)
    moreover have "\<not> (\<exists>r \<in> fst ` set ps. prefix p r)"
      using True new prefix_order.trans by blast
    moreover have "prefix p q \<longrightarrow> p = q" "p = [] \<longrightarrow> p = q" using True prefix_order.eq_iff by auto
    ultimately show ?thesis unfolding eq state_at_def st ex
      using lookup_graft_leaf [OF True, of as ?T] by simp
  next
    case False
    then have "p \<noteq> q" by auto
    then show ?thesis unfolding eq state_at_def st ex
      using lookup_graft_disjoint [OF False, of "PersistNode as []" ?T] snoc.IH [OF up, of p]
      by (simp add: state_at_def split: option.split)
  qed
qed


section \<open>The records of the service\<close>

lemma split_slash_append: "split_slash (a @ ''/'' @ b) = split_slash a @ split_slash b"
  by (induction a) (auto split: list.splits)

lemma key_path_split:
  assumes "plain_name chan" and "plain_name oid"
  shows "split_slash (proxy_key (chan, name, oid)) = ''ecf'' # chan # split_slash name @ [oid]"
proof -
  have "proxy_key (chan, name, oid) = ''ecf'' @ ''/'' @ chan @ ''/'' @ name @ ''/'' @ oid" by (simp add: proxy_key_def)
  moreover have "split_slash ''ecf'' = [''ecf'']" by simp
  ultimately show ?thesis using assms
    using split_slash_plain [of chan] split_slash_plain [of oid]
    by (simp only: split_slash_append plain_name_def) simp
qed

definition oid_of :: "env \<Rightarrow> poaref \<Rightarrow> addr \<Rightarrow> string" where
  "oid_of E P a = (case env_servant_to_id E [] (pr_name P) a of Inr oid \<Rightarrow> oid | Inl _ \<Rightarrow> [])"

type_synonym state_rec = "string \<times> (string, string) smap"

definition mg_recs :: "env \<Rightarrow> string \<Rightarrow> ('p \<Rightarrow> (string, string) smap) \<Rightarrow> ('p, 'z) manager_scheme \<Rightarrow> state_rec list" where
  "mg_recs E name at m =
     map (\<lambda>(a, p). (proxy_key (pr_parent (mg_poa m), name, oid_of E (mg_poa m) a), at p)) (mg_servants m)"

definition target_attrs :: "env \<Rightarrow> objref option \<Rightarrow> (string, string) smap" where
  "target_attrs E t = (case t of None \<Rightarrow> [] | Some c \<Rightarrow> proxy_attrs (env_object_to_string E c, False))"

definition sa_recs :: "env \<Rightarrow> supplier_admin \<Rightarrow> state_rec list" where
  "sa_recs E sa =
     map (\<lambda>(oid, cn). (proxy_key (pp_channelName (sa_push sa), ppc_name, oid), proxy_attrs (cn_sior cn, cn_isProxy cn)))
       (pp_connections (sa_push sa)) @
     (case sa_pull sa of None \<Rightarrow> [] | Some m \<Rightarrow> mg_recs E pcs_name (target_attrs E \<circ> pc_target) m)"

definition ca_recs :: "env \<Rightarrow> consumer_admin \<Rightarrow> state_rec list" where
  "ca_recs E ca =
     (case ca_push ca of None \<Rightarrow> [] | Some m \<Rightarrow> mg_recs E pps_name (\<lambda>p. proxy_attrs (pps_sior p, pps_isProxy p)) m) @
     (case ca_pull ca of None \<Rightarrow> [] | Some m \<Rightarrow> mg_recs E pls_name (target_attrs E \<circ> pls_target) m)"

definition chan_recs :: "env \<Rightarrow> channel \<Rightarrow> state_rec list" where
  "chan_recs E c = (''ecf/'' @ poa_name c, pn_attr (ch_props c)) #
     (case ch_supplier c of None \<Rightarrow> [] | Some sa \<Rightarrow> sa_recs E sa) @
     (case ch_consumer c of None \<Rightarrow> [] | Some ca \<Rightarrow> ca_recs E ca)"

definition ecf_attrs :: "service \<Rightarrow> (string, string) smap" where
  "ecf_attrs sv = (if sv_endPointNoListen sv = [] then [] else [(''endPointNoListen'', sv_endPointNoListen sv)]) @
     [(''port'', show_int (uint (sv_port sv)))]"

definition service_recs :: "env \<Rightarrow> service \<Rightarrow> state_rec list" where
  "service_recs E sv = (''ecf'', ecf_attrs sv) # concat (map (chan_recs E \<circ> snd) (stored sv))"

subsection \<open>Sound states\<close>

definition mg_sound :: "env \<Rightarrow> string \<Rightarrow> ('p, 'z) manager_scheme \<Rightarrow> bool" where
  "mg_sound E chan m \<longleftrightarrow> pr_parent (mg_poa m) = chan \<and> distinct (map fst (mg_servants m)) \<and>
     inj_on (oid_of E (mg_poa m)) (fst ` set (mg_servants m)) \<and>
     (\<forall>a \<in> fst ` set (mg_servants m). poa_knows E (mg_poa m) a (oid_of E (mg_poa m) a) \<and>
        plain_name (oid_of E (mg_poa m) a))"

definition sa_sound :: "env \<Rightarrow> string \<Rightarrow> supplier_admin \<Rightarrow> bool" where
  "sa_sound E chan sa \<longleftrightarrow> ppc_ok E (sa_push sa) \<and> pp_channelName (sa_push sa) = chan \<and>
     (\<forall>oc \<in> set (pp_connections (sa_push sa)). plain_name (fst oc)) \<and>
     (case sa_pull sa of None \<Rightarrow> True | Some m \<Rightarrow> mg_sound E chan m)"

definition ca_sound :: "env \<Rightarrow> string \<Rightarrow> consumer_admin \<Rightarrow> bool" where
  "ca_sound E chan ca \<longleftrightarrow>
     (case ca_push ca of None \<Rightarrow> True | Some m \<Rightarrow> mg_sound E chan m \<and> (\<forall>p \<in> snd ` set (mg_servants m). no_space (pps_sior p))) \<and>
     (case ca_pull ca of None \<Rightarrow> True | Some m \<Rightarrow> mg_sound E chan m)"

definition chan_sound :: "env \<Rightarrow> channel \<Rightarrow> bool" where
  "chan_sound E c \<longleftrightarrow> plain_name (poa_name c) \<and> pn_child (ch_props c) = [] \<and> smap_ok (pn_attr (ch_props c)) \<and>
     (\<forall>kv \<in> set (pn_attr (ch_props c)). attr_ok kv) \<and>
     (case ch_supplier c of None \<Rightarrow> True | Some sa \<Rightarrow> sa_sound E (poa_name c) sa) \<and>
     (case ch_consumer c of None \<Rightarrow> True | Some ca \<Rightarrow> ca_sound E (poa_name c) ca)"

definition service_sound :: "env \<Rightarrow> service \<Rightarrow> bool" where
  "service_sound E sv \<longleftrightarrow> (\<forall>t. no_space (env_object_to_string E t)) \<and> no_space (sv_endPointNoListen sv) \<and>
     (\<forall>ac \<in> set (stored sv). chan_sound E (snd ac)) \<and> distinct (map (poa_name \<circ> snd) (stored sv))"

section \<open>What is written\<close>

abbreviation add_recs :: "state_rec list \<Rightarrow> log_record list" where
  "add_recs rs \<equiv> map (\<lambda>(n, as). AddRec n as) rs"

definition writes :: "(world \<Rightarrow> outres \<times> world) \<Rightarrow> state_rec list \<Rightarrow> bool" where
  "writes f rs \<longleftrightarrow> (\<forall>w. \<exists>txt w'. f w = ((txt, None), w') \<and> jtext (add_recs rs) txt)"

lemma writes_Nil: "writes (\<lambda>w. (([], None), w)) []"
  by (simp add: writes_def jtext_Nil)

lemma writes_text: "jtext (add_recs rs) txt \<Longrightarrow> writes (\<lambda>w. ((txt, None), w)) rs"
  by (simp add: writes_def)

lemma writes_then:
  assumes "writes f rs" and "writes g rs'"
  shows "writes (\<lambda>w. out_then (f w) g) (rs @ rs')"
  unfolding writes_def
proof
  fix w
  obtain s1 w1 where 1: "f w = ((s1, None), w1)" "jtext (add_recs rs) s1" using assms(1) unfolding writes_def by blast
  obtain s2 w2 where 2: "g w1 = ((s2, None), w2)" "jtext (add_recs rs') s2" using assms(2) unfolding writes_def by blast
  show "\<exists>txt w'. out_then (f w) g = ((txt, None), w') \<and> jtext (add_recs (rs @ rs')) txt"
    using 1 2 jtext_append by (simp add: out_then_def)
qed

lemma writes_catch: "writes f rs \<Longrightarrow> writes (\<lambda>w. out_catch (f w)) rs"
  unfolding writes_def
proof
  fix w
  assume "\<forall>w. \<exists>txt w'. f w = ((txt, None), w') \<and> jtext (add_recs rs) txt"
  then obtain s1 w1 where "f w = ((s1, None), w1)" "jtext (add_recs rs) s1" by blast
  then show "\<exists>txt w'. out_catch (f w) = ((txt, None), w') \<and> jtext (add_recs rs) txt" by (simp add: out_catch_def)
qed

lemma writes_managers:
  assumes "\<And>a p. (a, p) \<in> set ps \<Longrightarrow> writes (out a p) [r a p]"
  shows "writes (mg_output out ps) (map (\<lambda>(a, p). r a p) ps)"
  using assms
proof (induction ps)
  case Nil
  then show ?case using writes_Nil by (simp add: writes_def)
next
  case (Cons ap ps)
  obtain a p where ap: "ap = (a, p)" by force
  have "writes (\<lambda>w. out_then (out a p w) (mg_output out ps)) ([r a p] @ map (\<lambda>(a, p). r a p) ps)"
    using Cons ap by (intro writes_then) auto
  moreover have "mg_output out (ap # ps) = (\<lambda>w. out_then (out a p w) (mg_output out ps))"
    by (simp add: fun_eq_iff ap out_then_def)
  ultimately show ?case using ap by simp
qed

lemma writes_all:
  assumes "\<And>ac. ac \<in> set cs \<Longrightarrow> writes (ch_output E (snd ac)) (r (snd ac))"
  shows "writes (output_all E cs) (concat (map (r \<circ> snd) cs))"
  using assms
proof (induction cs)
  case Nil
  then show ?case using writes_Nil by (simp add: writes_def)
next
  case (Cons ac cs)
  obtain a c where ac: "ac = (a, c)" by force
  have "writes (\<lambda>w. out_then (ch_output E c w) (output_all E cs)) (r c @ concat (map (r \<circ> snd) cs))"
    using Cons.IH Cons.prems Cons.prems [of ac] ac by (intro writes_then) (auto simp: comp_def)
  then show ?case by (simp add: ac writes_def comp_def)
qed


subsection \<open>The parts of the program\<close>

lemma plain_key: "plain_name chan \<Longrightarrow> no_space name \<Longrightarrow> plain_name oid \<Longrightarrow> proxy_key_ok (chan, name, oid)"
  by (simp add: plain_name_def proxy_key_ok_def)

lemma proxy_names: "no_space pps_name" "no_space pls_name" "no_space pcs_name" "no_space ppc_name"
  by (simp_all add: c_space_def)

lemma writes_target:
  assumes "poa_knows E P a oid" and "proxy_key_ok (pr_parent P, name, oid)" and "\<forall>t. no_space (env_object_to_string E t)"
  shows "writes (basicOutput E P a name target None) [(proxy_key (pr_parent P, name, oid), target_attrs E target)]"
proof (cases target)
  case None
  then show ?thesis using jtext_nil_target [OF assms(2)] keyOutput_ok [OF poa_knowsD(1,2) [OF assms(1)]]
    by (simp add: writes_def basicOutput_def target_attrs_def)
next
  case (Some t)
  then show ?thesis using jtext_enter [OF assms(2)] assms(3) basicOutput_ok [OF poa_knowsD(1,2) [OF assms(1)]]
    by (simp add: writes_def target_attrs_def proxy_val_ok_def)
qed

lemma writes_pps:
  assumes "poa_knows E P a oid" and "proxy_key_ok (pr_parent P, pps_name, oid)" and "no_space (pps_sior p)"
  shows "writes (pps_output E P a p) [(proxy_key (pr_parent P, pps_name, oid), proxy_attrs (pps_sior p, pps_isProxy p))]"
  using jtext_enter [OF assms(2)] assms(3) pps_output_ok [OF assms(1)]
  by (simp add: writes_def proxy_val_ok_def)

lemma writes_mg:
  assumes "mg_sound E chan m" and "plain_name chan" and "no_space name"
    and "\<And>a p. (a, p) \<in> set (mg_servants m) \<Longrightarrow> poa_knows E (mg_poa m) a (oid_of E (mg_poa m) a) \<Longrightarrow>
      proxy_key_ok (chan, name, oid_of E (mg_poa m) a) \<Longrightarrow>
      writes (out a p) [(proxy_key (chan, name, oid_of E (mg_poa m) a), at p)]"
  shows "writes (mg_output out (mg_servants m)) (mg_recs E name at m)"
proof -
  have par: "pr_parent (mg_poa m) = chan" using assms(1) by (simp add: mg_sound_def)
  show ?thesis unfolding mg_recs_def par
  proof (rule writes_managers)
    fix a p assume ap: "(a, p) \<in> set (mg_servants m)"
    then have "a \<in> fst ` set (mg_servants m)" by force
    then have "poa_knows E (mg_poa m) a (oid_of E (mg_poa m) a)" "plain_name (oid_of E (mg_poa m) a)"
      using assms(1) by (auto simp: mg_sound_def)
    then show "writes (out a p) [(proxy_key (chan, name, oid_of E (mg_poa m) a), at p)]"
      using assms(4) [OF ap] plain_key [OF assms(2,3)] by blast
  qed
qed

lemma writes_ppc:
  assumes "ppc_ok E p" and "plain_name (pp_channelName p)" and "\<forall>oc \<in> set (pp_connections p). plain_name (fst oc)"
    and "\<forall>t. no_space (env_object_to_string E t)"
  shows "writes (\<lambda>w. ((ppc_output p, None), w))
    (map (\<lambda>(oid, cn). (proxy_key (pp_channelName p, ppc_name, oid), proxy_attrs (cn_sior cn, cn_isProxy cn)))
       (pp_connections p))"
proof (rule writes_text)
  let ?f = "\<lambda>oc. [AddRec (proxy_key (pp_channelName p, ppc_name, fst oc)) (proxy_attrs (cn_sior (snd oc), cn_isProxy (snd oc)))]"
  have "jtext (?f oc) (cn_output (snd oc))" if oc: "oc \<in> set (pp_connections p)" for oc
  proof -
    have "cn_channelName (snd oc) = pp_channelName p" "cn_oidstr (snd oc) = fst oc" "no_space (cn_sior (snd oc))"
      using assms(1,4) oc by (auto simp: ppc_ok_def)
    then show ?thesis using assms(2,3) oc
      by (simp only: cn_output_enter) (intro jtext_enter plain_key, auto simp: proxy_val_ok_def c_space_def)
  qed
  then have "jtext (concat (map ?f (pp_connections p))) (concat (map (cn_output \<circ> snd) (pp_connections p)))"
    unfolding comp_def by (rule jtext_concat)
  moreover have "concat (map ?f cs) = add_recs (map (\<lambda>(oid, cn). (proxy_key (pp_channelName p, ppc_name, oid),
      proxy_attrs (cn_sior cn, cn_isProxy cn))) cs)" for cs
    by (induction cs) auto
  ultimately show "jtext (add_recs (map (\<lambda>(oid, cn). (proxy_key (pp_channelName p, ppc_name, oid),
      proxy_attrs (cn_sior cn, cn_isProxy cn))) (pp_connections p))) (ppc_output p)"
    unfolding ppc_output_def by metis
qed

lemma writes_sa:
  assumes "sa_sound E chan sa" and "plain_name chan" and "\<forall>t. no_space (env_object_to_string E t)"
  shows "writes (sa_output E sa) (sa_recs E sa)"
proof -
  have push: "writes (\<lambda>w. ((ppc_output (sa_push sa), None), w))
      (map (\<lambda>(oid, cn). (proxy_key (pp_channelName (sa_push sa), ppc_name, oid), proxy_attrs (cn_sior cn, cn_isProxy cn)))
        (pp_connections (sa_push sa)))"
    using assms by (intro writes_ppc) (auto simp: sa_sound_def)
  have pull: "writes (\<lambda>w1. case sa_pull sa of None \<Rightarrow> (([], None), w1)
        | Some m \<Rightarrow> mg_output (pcs_output E (mg_poa m)) (mg_servants m) w1)
      (case sa_pull sa of None \<Rightarrow> [] | Some m \<Rightarrow> mg_recs E pcs_name (target_attrs E \<circ> pc_target) m)"
  proof (cases "sa_pull sa")
    case (Some m)
    have s: "mg_sound E chan m" using assms(1) Some by (simp add: sa_sound_def)
    then have par: "pr_parent (mg_poa m) = chan" by (simp add: mg_sound_def)
    have "writes (mg_output (pcs_output E (mg_poa m)) (mg_servants m)) (mg_recs E pcs_name (target_attrs E \<circ> pc_target) m)"
      by (rule writes_mg [OF s assms(2) proxy_names(3)])
        (use writes_target [OF _ _ assms(3), of "mg_poa m"] par in \<open>simp add: pcs_output_def [abs_def]\<close>)
    then show ?thesis using Some by (simp add: writes_def)
  qed (simp add: writes_Nil)
  show ?thesis using writes_then [OF push pull] by (simp add: sa_output_def [abs_def] sa_recs_def)
qed

lemma writes_ca:
  assumes "ca_sound E chan ca" and "plain_name chan" and "\<forall>t. no_space (env_object_to_string E t)"
  shows "writes (ca_output E ca) (ca_recs E ca)"
proof -
  have push: "writes (\<lambda>w. case ca_push ca of None \<Rightarrow> (([], None), w)
        | Some m \<Rightarrow> out_catch (mg_output (pps_output E (mg_poa m)) (mg_servants m) w))
      (case ca_push ca of None \<Rightarrow> [] | Some m \<Rightarrow> mg_recs E pps_name (\<lambda>p. proxy_attrs (pps_sior p, pps_isProxy p)) m)"
  proof (cases "ca_push ca")
    case (Some m)
    have s: "mg_sound E chan m" and sior: "\<forall>p \<in> snd ` set (mg_servants m). no_space (pps_sior p)"
      using assms(1) Some by (simp_all add: ca_sound_def)
    then have par: "pr_parent (mg_poa m) = chan" by (simp add: mg_sound_def)
    have "writes (mg_output (pps_output E (mg_poa m)) (mg_servants m))
        (mg_recs E pps_name (\<lambda>p. proxy_attrs (pps_sior p, pps_isProxy p)) m)"
    proof (rule writes_mg [OF s assms(2) proxy_names(1)])
      fix a p assume ap: "(a, p) \<in> set (mg_servants m)"
        and k: "poa_knows E (mg_poa m) a (oid_of E (mg_poa m) a)" "proxy_key_ok (chan, pps_name, oid_of E (mg_poa m) a)"
      have "no_space (pps_sior p)" using sior ap by force
      then show "writes (pps_output E (mg_poa m) a p)
          [(proxy_key (chan, pps_name, oid_of E (mg_poa m) a), proxy_attrs (pps_sior p, pps_isProxy p))]"
        using writes_pps [OF k(1)] k(2) par by simp
    qed
    from writes_catch [OF this] show ?thesis using Some by simp
  qed (simp add: writes_Nil)
  have pull: "writes (\<lambda>w1. case ca_pull ca of None \<Rightarrow> (([], None), w1)
        | Some m \<Rightarrow> mg_output (pls_output E (mg_poa m)) (mg_servants m) w1)
      (case ca_pull ca of None \<Rightarrow> [] | Some m \<Rightarrow> mg_recs E pls_name (target_attrs E \<circ> pls_target) m)"
  proof (cases "ca_pull ca")
    case (Some m)
    have s: "mg_sound E chan m" using assms(1) Some by (simp add: ca_sound_def)
    then have par: "pr_parent (mg_poa m) = chan" by (simp add: mg_sound_def)
    have "writes (mg_output (pls_output E (mg_poa m)) (mg_servants m)) (mg_recs E pls_name (target_attrs E \<circ> pls_target) m)"
      by (rule writes_mg [OF s assms(2) proxy_names(2)])
        (use writes_target [OF _ _ assms(3), of "mg_poa m"] par in \<open>simp add: pls_output_def [abs_def]\<close>)
    then show ?thesis using Some by (simp add: writes_def)
  qed (simp add: writes_Nil)
  show ?thesis using writes_then [OF push pull] by (simp add: ca_output_def [abs_def] ca_recs_def)
qed

lemma writes_chan:
  assumes "chan_sound E c" and "\<forall>t. no_space (env_object_to_string E t)"
  shows "writes (ch_output E c) (chan_recs E c)"
proof -
  have n: "plain_name (poa_name c)" using assms(1) by (simp add: chan_sound_def)
  obtain at where p: "ch_props c = PersistNode at []" using assms(1) by (cases "ch_props c") (auto simp: chan_sound_def)
  have "name_ok (''ecf/'' @ poa_name c)" using n
    by (auto simp: name_ok_def word_no_space plain_name_def)
  then have "rec_ok (AddRec (''ecf/'' @ poa_name c) at)" using assms(1) p by (simp add: chan_sound_def)
  from jtext_rec [OF this] have props: "writes (\<lambda>w. ((pn_output (''ecf/'' @ poa_name c) (ch_props c), None), w))
      [(''ecf/'' @ poa_name c, pn_attr (ch_props c))]"
    by (intro writes_text) (simp add: p)
  have sup: "writes (\<lambda>w1. case ch_supplier c of None \<Rightarrow> (([], None), w1) | Some sa \<Rightarrow> sa_output E sa w1)
      (case ch_supplier c of None \<Rightarrow> [] | Some sa \<Rightarrow> sa_recs E sa)"
    using assms n writes_Nil by (cases "ch_supplier c") (auto simp: chan_sound_def intro: writes_sa)
  have con: "writes (\<lambda>w1. case ch_consumer c of None \<Rightarrow> (([], None), w1) | Some ca \<Rightarrow> ca_output E ca w1)
      (case ch_consumer c of None \<Rightarrow> [] | Some ca \<Rightarrow> ca_recs E ca)"
    using assms n writes_Nil by (cases "ch_consumer c") (auto simp: chan_sound_def intro: writes_ca)
  show ?thesis using writes_then [OF writes_then [OF props sup] con]
    by (simp add: ch_output_def [abs_def] chan_recs_def)
qed


section \<open>The paths\<close>

abbreviation paths :: "state_rec list \<Rightarrow> (string list \<times> (string, string) smap) list" where
  "paths rs \<equiv> map (\<lambda>(n, as). (split_slash n, as)) rs"

lemma upward_append:
  "upward (xs @ ys) \<longleftrightarrow> upward xs \<and> upward ys \<and> (\<forall>x \<in> fst ` set xs. \<forall>y \<in> fst ` set ys. \<not> prefix y x)"
  by (auto simp: upward_def sorted_wrt_append)

lemma upward_same_length:
  "distinct (map fst xs) \<Longrightarrow> \<forall>p \<in> fst ` set xs. length p = n \<Longrightarrow> upward xs"
proof (induction xs)
  case (Cons x xs)
  have "\<not> prefix (fst y) (fst x)" if y: "y \<in> set xs" for y
  proof
    assume "prefix (fst y) (fst x)"
    moreover have "length (fst y) = length (fst x)" using Cons.prems(2) y by auto
    ultimately have "fst y = fst x" by (metis append_eq_conv_conj prefix_def take_all_iff le_refl)
    then have "fst x \<in> fst ` set xs" using y by (metis image_eqI)
    then show False using Cons.prems(1) by simp
  qed
  then show ?case using Cons by (auto simp: upward_def)
qed (simp add: upward_def)

text \<open>The records of one channel lie below its own, three levels deeper, each at a path of its own.\<close>

definition path_list :: "state_rec list \<Rightarrow> string list list" where
  "path_list rs = map (\<lambda>r. split_slash (fst r)) rs"

lemma path_list_paths: "path_list rs = map fst (paths rs)"
  by (induction rs) (auto simp: path_list_def)

lemma path_list_simps [simp]: "path_list [] = []" "path_list (rs @ rs') = path_list rs @ path_list rs'"
  "path_list (r # rs) = split_slash (fst r) # path_list rs"
  by (simp_all add: path_list_def)

definition below :: "string \<Rightarrow> state_rec list \<Rightarrow> bool" where
  "below chan rs \<longleftrightarrow> distinct (path_list rs) \<and>
     (\<forall>p \<in> set (path_list rs). length p = 5 \<and> take 2 p = [''ecf'', chan])"

definition kind_of :: "string list \<Rightarrow> string list" where
  "kind_of p = take 2 (drop 2 p)"

lemma mg_recs_below:
  assumes "mg_sound E chan m" and "plain_name chan" and "split_slash name = k" and "length k = 2"
  shows "below chan (mg_recs E name at m) \<and> (\<forall>p \<in> set (path_list (mg_recs E name at m)). kind_of p = k)"
proof -
  have par: "pr_parent (mg_poa m) = chan" and d: "distinct (map fst (mg_servants m))"
    and i: "inj_on (oid_of E (mg_poa m)) (fst ` set (mg_servants m))" using assms(1) by (simp_all add: mg_sound_def)
  have sp: "split_slash (proxy_key (chan, name, oid_of E (mg_poa m) (fst ap))) =
      ''ecf'' # chan # k @ [oid_of E (mg_poa m) (fst ap)]" if "ap \<in> set (mg_servants m)" for ap
    using assms(1) that key_path_split [OF assms(2)] assms(3) by (auto simp: mg_sound_def)
  have eq: "path_list (mg_recs E name at m) =
      map (\<lambda>ap. ''ecf'' # chan # k @ [oid_of E (mg_poa m) (fst ap)]) (mg_servants m)"
    using sp by (auto simp: mg_recs_def path_list_def par split: prod.split)
  have "distinct (map (oid_of E (mg_poa m)) (map fst (mg_servants m)))"
    using d i by (simp add: distinct_map del: map_map)
  then have "distinct (path_list (mg_recs E name at m))"
    unfolding eq by (auto simp: distinct_map inj_on_def)
  moreover have "\<forall>p \<in> set (path_list (mg_recs E name at m)). length p = 5 \<and> take 2 p = [''ecf'', chan] \<and> kind_of p = k"
    unfolding eq using assms(4) by (auto simp: kind_of_def)
  ultimately show ?thesis by (auto simp: below_def)
qed

lemma below_Nil [simp]: "below chan []"
  by (simp add: below_def)

lemma below_append:
  assumes "below chan rs" and "below chan rs'"
    and "\<forall>p \<in> set (path_list rs). \<forall>q \<in> set (path_list rs'). kind_of p \<noteq> kind_of q"
  shows "below chan (rs @ rs')"
proof -
  have "set (path_list rs) \<inter> set (path_list rs') = {}" using assms(3) by blast
  then show ?thesis using assms(1,2) by (auto simp: below_def)
qed


lemma kinds: "split_slash pps_name = [''ConsumerAdmin'', ''ProxyPushSupplier'']"
  "split_slash pls_name = [''ConsumerAdmin'', ''ProxyPullSupplier'']"
  "split_slash ppc_name = [''SupplierAdmin'', ''ProxyPushConsumer'']"
  "split_slash pcs_name = [''SupplierAdmin'', ''ProxyPullConsumer'']"
  by simp_all

definition of_kinds :: "string list set \<Rightarrow> state_rec list \<Rightarrow> bool" where
  "of_kinds K rs \<longleftrightarrow> (\<forall>p \<in> set (path_list rs). kind_of p \<in> K)"

lemma below_kinds_append:
  "below chan rs \<Longrightarrow> below chan rs' \<Longrightarrow> of_kinds K rs \<Longrightarrow> of_kinds K' rs' \<Longrightarrow> K \<inter> K' = {} \<Longrightarrow>
   below chan (rs @ rs') \<and> of_kinds (K \<union> K') (rs @ rs')"
  by (rule conjI [OF below_append]) (fastforce simp: of_kinds_def)+

lemma mg_recs_kind:
  assumes "mg_sound E chan m" and "plain_name chan" and "split_slash name = k" and "length k = 2"
  shows "below chan (mg_recs E name at m) \<and> of_kinds {k} (mg_recs E name at m)"
  using mg_recs_below [OF assms, of at] by (simp add: of_kinds_def)

lemma opt_recs_kind:
  assumes "\<And>m. om = Some m \<Longrightarrow> below chan (f m) \<and> of_kinds K (f m)"
  shows "below chan (case om of None \<Rightarrow> [] | Some m \<Rightarrow> f m) \<and> of_kinds K (case om of None \<Rightarrow> [] | Some m \<Rightarrow> f m)"
  using assms by (cases om) (simp_all add: of_kinds_def)

lemma sa_recs_below:
  assumes "sa_sound E chan sa" and "plain_name chan"
  shows "below chan (sa_recs E sa) \<and> of_kinds {split_slash ppc_name, split_slash pcs_name} (sa_recs E sa)"
proof -
  let ?push = "map (\<lambda>(oid, cn). (proxy_key (pp_channelName (sa_push sa), ppc_name, oid), proxy_attrs (cn_sior cn, cn_isProxy cn)))
      (pp_connections (sa_push sa))"
  have nm: "pp_channelName (sa_push sa) = chan" and pl: "\<forall>oc \<in> set (pp_connections (sa_push sa)). plain_name (fst oc)"
    and ok: "ppc_ok E (sa_push sa)" using assms(1) by (simp_all add: sa_sound_def)
  have "distinct (map fst (pp_connections (sa_push sa)))" using ok smap_ok_distinct by (auto simp: ppc_ok_def)
  then have d: "distinct (map (\<lambda>oc. ''ecf'' # chan # split_slash ppc_name @ [fst oc]) (pp_connections (sa_push sa)))"
    by (auto simp: distinct_map inj_on_def)
  have eq: "path_list ?push = map (\<lambda>oc. ''ecf'' # chan # split_slash ppc_name @ [fst oc]) (pp_connections (sa_push sa))"
    using pl key_path_split [OF assms(2)] by (auto simp: nm path_list_def split: prod.split)
  have "\<forall>p \<in> set (path_list ?push). length p = 5 \<and> take 2 p = [''ecf'', chan] \<and> kind_of p = split_slash ppc_name"
    unfolding eq by (auto simp: kind_of_def)
  then have "below chan ?push \<and> of_kinds {split_slash ppc_name} ?push"
    using d unfolding below_def of_kinds_def eq by blast
  moreover have "below chan (case sa_pull sa of None \<Rightarrow> [] | Some m \<Rightarrow> mg_recs E pcs_name (target_attrs E \<circ> pc_target) m) \<and>
      of_kinds {split_slash pcs_name} (case sa_pull sa of None \<Rightarrow> [] | Some m \<Rightarrow> mg_recs E pcs_name (target_attrs E \<circ> pc_target) m)"
    using assms by (intro opt_recs_kind mg_recs_kind) (auto simp: sa_sound_def)
  ultimately show ?thesis unfolding sa_recs_def insert_is_Un [of "split_slash ppc_name" "{split_slash pcs_name}"]
    by (intro below_kinds_append) (simp_all add: kinds del: split_slash.simps)
qed

lemma ca_recs_below:
  assumes "ca_sound E chan ca" and "plain_name chan"
  shows "below chan (ca_recs E ca) \<and> of_kinds {split_slash pps_name, split_slash pls_name} (ca_recs E ca)"
proof -
  have "below chan (case ca_push ca of None \<Rightarrow> [] | Some m \<Rightarrow> mg_recs E pps_name (\<lambda>p. proxy_attrs (pps_sior p, pps_isProxy p)) m) \<and>
      of_kinds {split_slash pps_name} (case ca_push ca of None \<Rightarrow> [] | Some m \<Rightarrow> mg_recs E pps_name (\<lambda>p. proxy_attrs (pps_sior p, pps_isProxy p)) m)"
    using assms by (intro opt_recs_kind mg_recs_kind) (auto simp: ca_sound_def)
  moreover have "below chan (case ca_pull ca of None \<Rightarrow> [] | Some m \<Rightarrow> mg_recs E pls_name (target_attrs E \<circ> pls_target) m) \<and>
      of_kinds {split_slash pls_name} (case ca_pull ca of None \<Rightarrow> [] | Some m \<Rightarrow> mg_recs E pls_name (target_attrs E \<circ> pls_target) m)"
    using assms by (intro opt_recs_kind mg_recs_kind) (auto simp: ca_sound_def)
  ultimately show ?thesis unfolding ca_recs_def insert_is_Un [of "split_slash pps_name" "{split_slash pls_name}"]
    by (intro below_kinds_append) (simp_all add: kinds del: split_slash.simps)
qed


lemma chan_recs_upward:
  assumes "chan_sound E c"
  shows "upward (paths (chan_recs E c)) \<and> (\<forall>p \<in> set (path_list (chan_recs E c)). take 2 p = [''ecf'', poa_name c])"
proof -
  let ?n = "poa_name c"
  have n: "plain_name ?n" using assms by (simp add: chan_sound_def)
  let ?sup = "case ch_supplier c of None \<Rightarrow> [] | Some sa \<Rightarrow> sa_recs E sa"
  let ?con = "case ch_consumer c of None \<Rightarrow> [] | Some ca \<Rightarrow> ca_recs E ca"
  have "below ?n ?sup \<and> of_kinds {split_slash ppc_name, split_slash pcs_name} ?sup"
    using assms sa_recs_below n by (intro opt_recs_kind) (auto simp: chan_sound_def)
  moreover have "below ?n ?con \<and> of_kinds {split_slash pps_name, split_slash pls_name} ?con"
    using assms ca_recs_below n by (intro opt_recs_kind) (auto simp: chan_sound_def)
  ultimately have b: "below ?n (?sup @ ?con)"
    using below_kinds_append [of ?n ?sup ?con "{split_slash ppc_name, split_slash pcs_name}"
      "{split_slash pps_name, split_slash pls_name}"] by (simp add: kinds del: split_slash.simps)
  have top: "split_slash (''ecf/'' @ ?n) = [''ecf'', ?n]"
    using split_slash_join [of ?n "''ecf''"] n by (simp add: plain_name_def)
  have eq: "chan_recs E c = (''ecf/'' @ ?n, pn_attr (ch_props c)) # ?sup @ ?con" by (simp add: chan_recs_def)
  have len: "\<forall>p \<in> set (path_list (?sup @ ?con)). length p = 5 \<and> take 2 p = [''ecf'', ?n]"
    using b by (simp add: below_def)
  have "upward (paths (?sup @ ?con))"
  proof (rule upward_same_length [of _ 5])
    show "distinct (map fst (paths (?sup @ ?con)))" using b by (simp only: path_list_paths [symmetric] below_def)
    show "\<forall>p \<in> fst ` set (paths (?sup @ ?con)). length p = 5"
      using len by (simp only: path_list_paths list.set_map) blast
  qed
  moreover have "\<not> prefix p [''ecf'', ?n]" if "p \<in> set (path_list (?sup @ ?con))" for p
    using len that prefix_length_le by fastforce
  ultimately have "upward (paths (chan_recs E c))"
  proof -
    assume u: "upward (paths (?sup @ ?con))" and no: "\<And>p. p \<in> set (path_list (?sup @ ?con)) \<Longrightarrow> \<not> prefix p [''ecf'', ?n]"
    have "\<not> prefix (fst y) [''ecf'', ?n]" if "y \<in> set (paths (?sup @ ?con))" for y
      using no [of "fst y"] that by (simp only: path_list_paths list.set_map) blast
    then show ?thesis using u unfolding eq upward_def list.map prod.case top sorted_wrt.simps fst_conv by blast
  qed
  moreover have "\<forall>p \<in> set (path_list (chan_recs E c)). take 2 p = [''ecf'', ?n]"
    using len unfolding eq path_list_simps(3) fst_conv top by auto
  ultimately show ?thesis ..
qed

lemma take_prefix: "prefix y x \<Longrightarrow> n \<le> length y \<Longrightarrow> take n x = take n y"
  by (auto simp: prefix_def)

lemma chans_upward:
  assumes "\<forall>c \<in> set cs. chan_sound E c" and "distinct (map poa_name cs)"
  shows "upward (paths (concat (map (chan_recs E) cs)))"
  using assms
proof (induction cs)
  case (Cons c cs)
  let ?rest = "concat (map (chan_recs E) cs)"
  have c: "upward (paths (chan_recs E c))" "\<forall>p \<in> set (path_list (chan_recs E c)). take 2 p = [''ecf'', poa_name c]"
    using chan_recs_upward Cons.prems(1) by auto
  have "\<not> prefix y x" if x: "x \<in> set (path_list (chan_recs E c))" and y: "y \<in> set (path_list ?rest)" for x y
  proof
    assume pr: "prefix y x"
    from y obtain d where d: "d \<in> set cs" "y \<in> set (path_list (chan_recs E d))" by (auto simp: path_list_def)
    then have ty: "take 2 y = [''ecf'', poa_name d]" using chan_recs_upward Cons.prems(1) by auto
    then have "length (take 2 y) = 2" by simp
    then have "2 \<le> length y" by simp
    then have "take 2 x = take 2 y" using pr by (intro take_prefix)
    then have "poa_name c = poa_name d" using c(2) x ty by simp
    then show False using Cons.prems(2) d(1) by (metis distinct.simps(2) image_eqI list.set_map list.simps(9))
  qed
  then have "\<forall>x \<in> fst ` set (paths (chan_recs E c)). \<forall>y \<in> fst ` set (paths ?rest). \<not> prefix y x"
    by (simp add: path_list_paths del: set_concat)
  then show ?case using c(1) Cons by (simp add: upward_append)
qed (simp add: upward_def)

lemma paths_below_ecf:
  "\<forall>c \<in> set cs. chan_sound E c \<Longrightarrow> q \<in> set (path_list (concat (map (chan_recs E) cs))) \<Longrightarrow> \<not> prefix q [''ecf'']"
proof
  assume ok: "\<forall>c \<in> set cs. chan_sound E c" and q: "q \<in> set (path_list (concat (map (chan_recs E) cs)))" and "prefix q [''ecf'']"
  from q obtain d where "d \<in> set cs" "q \<in> set (path_list (chan_recs E d))" by (auto simp: path_list_def)
  then have "take 2 q = [''ecf'', poa_name d]" using chan_recs_upward ok by auto
  then have "2 \<le> length q" by (metis One_nat_def Suc_1 length_Cons length_take list.size(3) min.cobounded1)
  then show False using \<open>prefix q [''ecf'']\<close> prefix_length_le by fastforce
qed

section \<open>What is written is the state\<close>

lemma jtext_ecf:
  assumes "no_space (sv_endPointNoListen sv)"
  shows "jtext [AddRec ''ecf'' (rev (ecf_attrs sv))]
    (''ecf port='' @ show_int (uint (sv_port sv)) @
     (if sv_endPointNoListen sv = [] then [] else '' endPointNoListen='' @ sv_endPointNoListen sv) @ '' ;;'' @ nl)"
proof -
  let ?p = "''port='' @ show_int (uint (sv_port sv))" and ?e = "''endPointNoListen='' @ sv_endPointNoListen sv"
  have w0: "word ''ecf''" by (simp add: word_def)
  have n: "no_space (show_int (uint (sv_port sv)))" by (simp add: no_space_def show_int_no_space)
  then have w1: "word ?p" by (simp add: word_no_space c_space_def)
  have w2: "word ?e" using assms by (simp add: word_no_space c_space_def)
  have "text_words (?p @ '' ;;'' @ nl @ t) = [?p, '';;''] @ text_words t" for t
    using words_single [OF w1] words_end by simp
  moreover have "text_words (?p @ '' '' @ ?e @ '' ;;'' @ nl @ t) = [?p, ?e, '';;''] @ text_words t" for t
    using words_single [OF w1] words_single [OF w2] words_end by simp
  moreover have "text_words (''ecf '' @ t) = ''ecf'' # text_words t" for t
    using words_single [OF w0] by simp
  moreover have "rec_ok (AddRec ''ecf'' (rev (ecf_attrs sv)))"
    using assms n by (auto simp: ecf_attrs_def name_ok_def w0 attr_ok_def no_space_def c_space_def)
  ultimately show ?thesis
    by (simp add: jtext_def ends_space_def nl_def ecf_attrs_def attr_token_def)
qed

lemma apply_ecf: "apply_rec (AddRec ''ecf'' (rev (ecf_attrs sv))) T = graft [''ecf''] (PersistNode (ecf_attrs sv) []) T"
  by (simp add: addnode_graft pn_update_graft pn_empty_def ecf_attrs_def)

lemma apply_recs:
  assumes "\<forall>r \<in> set rs. smap_ok (snd r)"
  shows "fold apply_rec (add_recs rs) T = fold (\<lambda>(q, as). graft q (PersistNode as [])) (paths rs) T"
  using assms by (induction rs arbitrary: T) (auto simp: apply_AddRec simp del: apply_rec.simps)



lemma proxy_attrs_smap: "smap_ok (proxy_attrs v)"
  by (simp add: proxy_attrs_def smap_ok_def)

lemma chan_recs_smap: "chan_sound E c \<Longrightarrow> r \<in> set (chan_recs E c) \<Longrightarrow> smap_ok (snd r)"
  by (auto simp: chan_recs_def sa_recs_def ca_recs_def mg_recs_def target_attrs_def proxy_attrs_smap chan_sound_def
      split: option.splits)

text \<open>What the factory writes, with any blank text after it, is read back as the state.\<close>

lemma output_tree:
  assumes "service_sound E sv"
  obtains s w' where "ecf_output E sv w = ((s, None), w')"
    "\<forall>p t. jtext [] t \<longrightarrow> attrs_at p (parse_text (s @ t)) = state_at (paths (service_recs E sv)) p"
proof -
  let ?cs = "map snd (stored sv)"
  let ?rs = "concat (map (chan_recs E) ?cs)"
  have io: "\<forall>t. no_space (env_object_to_string E t)" and ep: "no_space (sv_endPointNoListen sv)"
    and ok: "\<forall>c \<in> set ?cs. chan_sound E c" and d: "distinct (map poa_name ?cs)"
    using assms by (auto simp: service_sound_def)
  let ?h = "''ecf port='' @ show_int (uint (sv_port sv)) @
     (if sv_endPointNoListen sv = [] then [] else '' endPointNoListen='' @ sv_endPointNoListen sv) @ '' ;;'' @ nl"
  have "writes (store_output E sv) ?rs"
    using writes_all [of "stored sv" E "chan_recs E"] ok io
    by (simp add: store_output_def [abs_def] writes_chan comp_def)
  then obtain s1 w1 where s1: "store_output E sv w = ((s1, None), w1)" "jtext (add_recs ?rs) s1"
    unfolding writes_def by blast
  have j: "jtext (AddRec ''ecf'' (rev (ecf_attrs sv)) # add_recs ?rs) (?h @ s1)"
    using jtext_append [OF jtext_ecf [OF ep] s1(2)] by simp
  have jt: "jtext (AddRec ''ecf'' (rev (ecf_attrs sv)) # add_recs ?rs) ((?h @ s1) @ t)" if "jtext [] t" for t
    using jtext_append [OF j that] by simp
  have "\<forall>r \<in> set ?rs. smap_ok (snd r)" using ok chan_recs_smap by fastforce
  then have "parse_text ((?h @ s1) @ t) = fold (\<lambda>(q, as). graft q (PersistNode as [])) (paths ?rs)
      (graft [''ecf''] (PersistNode (ecf_attrs sv) []) pn_empty)" if "jtext [] t" for t
    using jtext_parse [OF jt [OF that]] by (simp only: fold_simps comp_apply apply_ecf apply_recs)
  moreover have sr: "service_recs E sv = (''ecf'', ecf_attrs sv) # ?rs"
    by (simp add: service_recs_def comp_def)
  moreover have "paths (service_recs E sv) = ([''ecf''], ecf_attrs sv) # paths ?rs" by (simp add: sr)
  ultimately have p: "parse_text ((?h @ s1) @ t) = fold (\<lambda>(q, as). graft q (PersistNode as [])) (paths (service_recs E sv)) pn_empty"
    if "jtext [] t" for t using that by simp
  have "\<forall>q \<in> set (path_list ?rs). \<not> prefix q [''ecf'']" using paths_below_ecf [OF ok] by blast
  then have "upward (paths (service_recs E sv))"
    using chans_upward [OF ok d] unfolding sr upward_def by (auto simp: path_list_paths)
  then have "attrs_at p (parse_text ((?h @ s1) @ t)) = state_at (paths (service_recs E sv)) p" if "jtext [] t" for p t
    unfolding p [OF that] by (rule attrs_at_fold)
  moreover have "ecf_output E sv w = ((?h @ s1, None), w1)"
    using s1(1) by (simp add: ecf_output_def out_then_def)
  ultimately show thesis using that by blast
qed

text \<open>
  C21. What is written is the state. For a sound service the output of the factory, read by the
  parser, is a tree with exactly these nodes: the factory's with its port, one per channel with
  the channel's properties, one per connection of a proxy with its IOR and its federation
  flag, and the bare nodes above them. Nothing is lost, nothing is added, and no channel or
  proxy overwrites another, in whatever order the sets of the program hold them.
\<close>

theorem service_output_state:
  assumes "service_sound E sv"
  shows "\<exists>s w'. ecf_output E sv w = ((s, None), w') \<and>
    (\<forall>p. attrs_at p (parse_text s) = state_at (paths (service_recs E sv)) p)"
proof -
  obtain s w' where "ecf_output E sv w = ((s, None), w')"
    "\<forall>p t. jtext [] t \<longrightarrow> attrs_at p (parse_text (s @ t)) = state_at (paths (service_recs E sv)) p"
    by (rule output_tree [OF assms, where w = w])
  then show ?thesis using jtext_Nil by (metis append_Nil2)
qed

theorem service_output_state_witness:
  "\<exists>s w'. ecf_output idle_env
      \<lparr>sv_chans = [(3, EventChannel_i\<lparr>ch_poa := Some ''news'', ch_props := PersistNode [(''MaxQueueLength'', ''8'')] [],
         ch_supplier := Some \<lparr>sa_props = pn_empty, sa_poa = ''news'', sa_push = \<lparr>pp_connections =
           [(''o'', Connection idle_env 5 ''news'' ''o'' 3 True)], pp_channelName = ''news'', pp_useLocalQueue = False\<rparr>,
           sa_pull = None, sa_queue = [], sa_nextPull = (0, 0)\<rparr>\<rparr>)], sv_store = [(3, ())], sv_port = 11169,
       sv_endPointNoListen = []\<rparr> (init_world True) = ((s, None), w') \<and>
    attrs_at [''ecf'', ''news''] (parse_text s) = Some [(''MaxQueueLength'', ''8'')] \<and>
    attrs_at [''ecf'', ''news'', ''SupplierAdmin'', ''ProxyPushConsumer'', ''o''] (parse_text s) =
      Some [(''IOR'', ''xxx''), (''proxy'', ''1'')] \<and>
    attrs_at [''ecf'', ''old''] (parse_text s) = None"
proof -
  let ?sa = "\<lparr>sa_props = pn_empty, sa_poa = ''news'', sa_push = \<lparr>pp_connections =
           [(''o'', Connection idle_env 5 ''news'' ''o'' 3 True)], pp_channelName = ''news'', pp_useLocalQueue = False\<rparr>,
           sa_pull = None, sa_queue = [], sa_nextPull = (0, 0)\<rparr>"
  let ?c = "EventChannel_i\<lparr>ch_poa := Some ''news'', ch_props := PersistNode [(''MaxQueueLength'', ''8'')] [],
         ch_supplier := Some ?sa\<rparr>"
  let ?sv = "\<lparr>sv_chans = [(3, ?c)], sv_store = [(3, ())], sv_port = 11169, sv_endPointNoListen = []\<rparr>"
  have io: "no_space (replicate n (CHR ''x''))" for n by (induction n) (simp_all add: c_space_def)
  then have ios: "\<forall>t. no_space (env_object_to_string idle_env t)" by (simp add: idle_env_def)
  have xxx: "env_object_to_string idle_env 3 = ''xxx''" by (simp add: idle_env_def numeral_3_eq_3)
  have st: "stored ?sv = [(3, ?c)]" by (simp add: stored_def List.map_filter_def)
  have ppc: "ppc_ok idle_env (sa_push ?sa)"
    by (simp add: ppc_ok_def Connection_def)
  have "sa_sound idle_env ''news'' ?sa"
    using ppc by (simp add: sa_sound_def plain_name_def c_space_def)
  then have c: "chan_sound idle_env ?c"
    by (simp add: chan_sound_def poa_name_def plain_name_def c_space_def attr_ok_def EventChannel_i_def)
  have snd: "service_sound idle_env ?sv"
    using c ios by (simp add: service_sound_def st)
  have cr: "chan_recs idle_env ?c = [(''ecf/news'', [(''MaxQueueLength'', ''8'')]),
      (proxy_key (''news'', ppc_name, ''o''), [(''IOR'', ''xxx''), (''proxy'', ''1'')])]"
    by (simp add: chan_recs_def sa_recs_def poa_name_def EventChannel_i_def proxy_attrs_def Connection_def xxx)
  have key: "split_slash (proxy_key (''news'', ppc_name, ''o'')) =
      [''ecf'', ''news'', ''SupplierAdmin'', ''ProxyPushConsumer'', ''o'']" by (simp add: proxy_key_def)
  have recs: "paths (service_recs idle_env ?sv) = [([''ecf''], [(''port'', show_int 11169)]),
      ([''ecf'', ''news''], [(''MaxQueueLength'', ''8'')]),
      ([''ecf'', ''news'', ''SupplierAdmin'', ''ProxyPushConsumer'', ''o''], [(''IOR'', ''xxx''), (''proxy'', ''1'')])]"
    unfolding service_recs_def st by (simp add: cr key ecf_attrs_def)
  from service_output_state [OF snd, of "init_world True"] show ?thesis
    unfolding recs state_at_def by auto
qed

end
