(* ===== verification/Omni_Events_Log.thy ===== *)
theory Omni_Events_Log
  imports Service_State
begin

text \<open>
  \<^verbatim>\<open>omniEventsLog.h\<close> and \<^verbatim>\<open>omniEventsLog.cc\<close>: the logfile and its checkpoints. The files are a
  small model of a POSIX directory: names are links to numbered files with contents, and any
  call may fail, as a parameter decides from the calls made so far. A checkpoint is a
  sequence of steps, one per call to the operating system, so that a crash between two of
  them leaves one of the states the sequence goes through.
\<close>

section \<open>Files\<close>

datatype fcall = FOpen string bool | FWrite string | FUnlink string | FLink string string

record disk =
  d_names :: "string \<Rightarrow> nat option"
  d_data :: "nat \<Rightarrow> string"
  d_next :: nat
  d_calls :: "fcall list"

text \<open>What the operating system decides: whether the next call fails, and how much of a failed write is done.\<close>

record os =
  os_fails :: "fcall list \<Rightarrow> bool"
  os_written :: "fcall list \<Rightarrow> nat"

definition f_call :: "fcall \<Rightarrow> disk \<Rightarrow> disk" where
  "f_call c d = d\<lparr>d_calls := d_calls d @ [c]\<rparr>"

definition fileExists :: "string \<Rightarrow> disk \<Rightarrow> bool" where
  "fileExists f d \<longleftrightarrow> d_names d f \<noteq> None"

definition contents :: "string \<Rightarrow> disk \<Rightarrow> string option" where
  "contents f d = map_option (d_data d) (d_names d f)"

text \<open>
  \<^verbatim>\<open>openOfstream\<close>: the stream is opened for writing, and the file is made if it does not exist.
  With \<^verbatim>\<open>FLAG_TRUNCATE\<close> its contents are thrown away. \<open>None\<close> is the exception \<^verbatim>\<open>IOError\<close>.
\<close>

definition openOfstream :: "os \<Rightarrow> string \<Rightarrow> bool \<Rightarrow> disk \<Rightarrow> nat option \<times> disk" where
  "openOfstream S f trunc d =
     (let d1 = f_call (FOpen f trunc) d
      in if os_fails S (d_calls d) then (None, d1)
         else case d_names d f of
                Some i \<Rightarrow> (Some i, if trunc then d1\<lparr>d_data := (d_data d)(i := [])\<rparr> else d1)
              | None \<Rightarrow>
                  (Some (d_next d), d1\<lparr>d_names := (d_names d)(f \<mapsto> d_next d),
                     d_data := (d_data d)(d_next d := []), d_next := Suc (d_next d)\<rparr>))"

text \<open>Writing through an open stream: the failure of a write is seen when the stream is closed.\<close>

definition f_write :: "os \<Rightarrow> nat \<Rightarrow> string \<Rightarrow> disk \<Rightarrow> bool \<times> disk" where
  "f_write S i s d =
     (let d1 = f_call (FWrite s) d
      in if os_fails S (d_calls d)
         then (False, d1\<lparr>d_data := (d_data d)(i := d_data d i @ take (os_written S (d_calls d)) s)\<rparr>)
         else (True, d1\<lparr>d_data := (d_data d)(i := d_data d i @ s)\<rparr>))"

definition f_unlink :: "os \<Rightarrow> string \<Rightarrow> disk \<Rightarrow> bool \<times> disk" where
  "f_unlink S f d =
     (let d1 = f_call (FUnlink f) d
      in if os_fails S (d_calls d) \<or> d_names d f = None then (False, d1)
         else (True, d1\<lparr>d_names := (d_names d)(f := None)\<rparr>))"

definition f_link :: "os \<Rightarrow> string \<Rightarrow> string \<Rightarrow> disk \<Rightarrow> bool \<times> disk" where
  "f_link S f g d =
     (let d1 = f_call (FLink f g) d
      in if os_fails S (d_calls d) \<or> d_names d f = None \<or> d_names d g \<noteq> None then (False, d1)
         else (True, d1\<lparr>d_names := (d_names d)(g := d_names d f)\<rparr>))"

section \<open>Names\<close>

record log_names =
  activeFilename :: string
  backupFilename :: string
  checkpointFilename :: string

definition OMNIEVENTS_LOG_DEFAULT_LOCATION :: string where
  "OMNIEVENTS_LOG_DEFAULT_LOCATION = ''/var/lib/omniEvents''"

definition setFilename :: "string \<Rightarrow> string \<Rightarrow> string \<Rightarrow> string \<Rightarrow> string \<Rightarrow> string" where
  "setFilename logdir sep logname hostname ext = logdir @ sep @ logname @ hostname @ ext"

text \<open>
  The directory is the option \<^verbatim>\<open>-l\<close>, else the environment variable, else the default. The name
  of the host comes from the system. The first character of an empty name is the terminator.
\<close>

definition initializeFileNames :: "string option \<Rightarrow> string option \<Rightarrow> string option \<Rightarrow> exn + log_names" where
  "initializeFileNames option variable host =
     (let logdir = (case option of Some l \<Rightarrow> l | None \<Rightarrow>
                      (case variable of Some l \<Rightarrow> l | None \<Rightarrow> OMNIEVENTS_LOG_DEFAULT_LOCATION));
          logname = ''omnievents-''
      in case host of
           None \<Rightarrow> Inl (ProcessExit 1)
         | Some hostname \<Rightarrow>
             if logdir = [] \<or> hd logdir \<noteq> CHR ''/'' then Inl (ProcessExit 1)
             else (let sep = (if last logdir \<noteq> CHR ''/'' then ''/'' else [])
                   in Inr \<lparr>activeFilename = setFilename logdir sep logname hostname ''.log'',
                           backupFilename = setFilename logdir sep logname hostname ''.bak'',
                           checkpointFilename = setFilename logdir sep logname hostname ''.ckp''\<rparr>))"

lemma initializeFileNames_distinct:
  "initializeFileNames option variable host = Inr N \<Longrightarrow>
   distinct [activeFilename N, backupFilename N, checkpointFilename N]"
  by (auto simp: initializeFileNames_def setFilename_def Let_def split: option.splits if_splits)

section \<open>Start\<close>

definition bootstrap :: "int \<Rightarrow> string option \<Rightarrow> pnode" where
  "bootstrap port endPointNoListen =
     pn_update [''ecf''] (\<lambda>ecf.
        (let ecf1 = addattr_long ''port'' port ecf
         in case endPointNoListen of
              None \<Rightarrow> ecf1
            | Some ep \<Rightarrow> if ep = [] then ecf1 else addattr (''endPointNoListen='' @ ep) ecf1))
       (addnode ''ecf'' pn_empty)"

text \<open>\<^verbatim>\<open>parse\<close>: the logfile must exist, hold a factory, and give it a port.\<close>

definition log_check :: "string \<Rightarrow> exn + pnode" where
  "log_check s =
     (let initialState = parse_text s
      in case child ''ecf'' initialState of
           None \<Rightarrow> Inl (ProcessExit 1)
         | Some ecf \<Rightarrow> if attrLong ''port'' (-1) ecf \<le> 0 then Inl (ProcessExit 1) else Inr initialState)"

definition log_parse :: "log_names \<Rightarrow> disk \<Rightarrow> exn + pnode" where
  "log_parse N d = (case contents (activeFilename N) d of
      None \<Rightarrow> Inl (ProcessExit 1) | Some s \<Rightarrow> log_check s)"

text \<open>
  \<^verbatim>\<open>incarnateFactory\<close>: the logfile is opened for appending first; if that fails the file is
  unlinked and the process ends.
\<close>

record log_state =
  lg_stream :: nat
  lg_base :: string
  lg_disk :: disk
  lg_service :: service
  lg_world :: world
  lg_locked :: bool
  lg_first :: bool

definition incarnateFactory :: "os \<Rightarrow> env \<Rightarrow> log_names \<Rightarrow> addr \<Rightarrow> pnode \<Rightarrow> disk \<times> world
    \<Rightarrow> (exn + log_state) \<times> disk" where
  "incarnateFactory S E N self initialState dw = (case dw of (d, w) \<Rightarrow>
     (case openOfstream S (activeFilename N) False d of
        (None, d1) \<Rightarrow> (Inl (ProcessExit 1), snd (f_unlink S (activeFilename N) d1))
      | (Some i, d1) \<Rightarrow>
          (case child ''ecf'' initialState of
             None \<Rightarrow> (Inl AssertFail, d1)
           | Some ecf \<Rightarrow>
               (case EventChannelFactory_i E self ecf (w\<lparr>w_log := Some [], w_checkpoint := True\<rparr>) of
                  (Some e, sv, w1) \<Rightarrow> (Inl e, d1)
                | (None, sv, w1) \<Rightarrow>
                    (Inr \<lparr>lg_stream = i, lg_base = d_data d1 i, lg_disk = d1\<lparr>d_data := (d_data d1)(i := d_data d1 i @ the (w_log w1))\<rparr>,
                       lg_service = sv, lg_world = w1, lg_locked = False, lg_first = True\<rparr>, d1)))))"

text \<open>
  A write under \<^verbatim>\<open>WriteLock\<close>: it waits while the lock is held (\<open>None\<close>); its destructor flushes
  the stream, so that the text is in the file when the lock is released.
\<close>

definition write_lock :: "(world \<Rightarrow> outres \<times> world) \<Rightarrow> log_state \<Rightarrow> (exn option \<times> log_state) option" where
  "write_lock out st =
     (if lg_locked st then None
      else case log_write out (lg_world st) of (ex, w1) \<Rightarrow>
        Some (ex, st\<lparr>lg_world := w1, lg_disk := (lg_disk st)\<lparr>d_data := (d_data (lg_disk st))
          (lg_stream st := lg_base st @ the (w_log w1))\<rparr>\<rparr>))"

section \<open>Checkpoints\<close>

text \<open>\<^verbatim>\<open>sscanf(itbc,"%d",...)\<close>: optional space, optional sign, at least one digit.\<close>

definition scan_int :: "string \<Rightarrow> int option" where
  "scan_int s = (let r = dropWhile c_space s;
       d = (if r \<noteq> [] \<and> hd r \<in> {CHR ''+'', CHR ''-''} then tl r else r)
     in if takeWhile is_dec d = [] then None else Some (c_atol s))"

definition idle_time :: "string option \<Rightarrow> int" where
  "idle_time itbc = (case itbc of None \<Rightarrow> 15 * 60
     | Some s \<Rightarrow> (case scan_int s of None \<Rightarrow> 15 * 60 | Some n \<Rightarrow> n))"

text \<open>
  Where the worker thread is: between two rounds; with the lock, about to open the checkpoint
  file, to write it, to clean up after a failure, and to do each of the steps that make the
  checkpoint the active log; or gone, because the process ended or an exception left the loop.
\<close>

datatype ckpc =
    CkIdle | CkPrepare | CkWrite nat | CkAbandon | CkUnlinkBackup | CkLinkBackup | CkUnlinkActive
  | CkLinkActive | CkUnlinkCheckpoint | CkReopen | CkExit | CkKilled exn

text \<open>\<^verbatim>\<open>output\<close>: the factory, then an empty line.\<close>

definition log_out :: "env \<Rightarrow> service \<Rightarrow> world \<Rightarrow> outres \<times> world" where
  "log_out E sv w = out_then (ecf_output E sv w) (\<lambda>w1. ((nl, None), w1))"

lemma out_then_exn: "snd (fst r) = Some e \<Longrightarrow> snd (fst (out_then r f)) = Some e"
  by (auto simp: out_then_def split: prod.splits option.splits)

lemma out_then_exn2: "snd (fst (f w)) = Some e \<Longrightarrow> snd (fst (out_then ((s, None), w) f)) = Some e"
  by (auto simp: out_then_def split: prod.splits option.splits)

text \<open>The head of the loop: the first checkpoint is taken at once, a later one if it is needed.\<close>

definition ck_begin :: "log_state \<Rightarrow> ckpc \<times> log_state" where
  "ck_begin st =
     (if lg_first st then (CkPrepare, st\<lparr>lg_first := False, lg_locked := True\<rparr>)
      else if w_checkpoint (lg_world st) then (CkPrepare, st\<lparr>lg_locked := True\<rparr>)
      else (CkIdle, st))"

definition ck_write :: "os \<Rightarrow> env \<Rightarrow> nat \<Rightarrow> log_state \<Rightarrow> ckpc \<times> log_state" where
  "ck_write S E i st =
     (case log_out E (lg_service st) (lg_world st) of ((txt, ex), w1) \<Rightarrow>
      case f_write S i txt (lg_disk st) of (ok, d1) \<Rightarrow>
        (case ex of Some e \<Rightarrow> CkKilled e | None \<Rightarrow> if ok then CkUnlinkBackup else CkAbandon,
         st\<lparr>lg_world := w1, lg_disk := d1\<rparr>))"

definition ck_call :: "bool \<times> disk \<Rightarrow> ckpc \<Rightarrow> log_state \<Rightarrow> ckpc \<times> log_state" where
  "ck_call r after st = (case r of (ok, d) \<Rightarrow> (if ok then after else CkExit, st\<lparr>lg_disk := d\<rparr>))"

definition ck_reopen :: "os \<Rightarrow> log_names \<Rightarrow> log_state \<Rightarrow> ckpc \<times> log_state" where
  "ck_reopen S N st =
     (case openOfstream S (activeFilename N) False (lg_disk st) of
        (None, d) \<Rightarrow> (CkExit, st\<lparr>lg_disk := d\<rparr>)
      | (Some i, d) \<Rightarrow>
          (CkIdle, st\<lparr>lg_disk := d, lg_stream := i, lg_base := d_data d i, lg_locked := False,
             lg_world := (lg_world st)\<lparr>w_log := Some [], w_checkpoint := False\<rparr>\<rparr>))"

definition ck_step :: "os \<Rightarrow> env \<Rightarrow> log_names \<Rightarrow> ckpc \<times> log_state \<Rightarrow> ckpc \<times> log_state" where
  "ck_step S E N ps = (case ps of (pc, st) \<Rightarrow>
     (case pc of
        CkIdle \<Rightarrow> ck_begin st
      | CkPrepare \<Rightarrow>
          (case openOfstream S (checkpointFilename N) True (lg_disk st) of
             (None, d) \<Rightarrow> (CkAbandon, st\<lparr>lg_disk := d\<rparr>)
           | (Some i, d) \<Rightarrow> (CkWrite i, st\<lparr>lg_disk := d\<rparr>))
      | CkWrite i \<Rightarrow> ck_write S E i st
      | CkAbandon \<Rightarrow> (CkIdle, st\<lparr>lg_disk := snd (f_unlink S (checkpointFilename N) (lg_disk st)), lg_locked := False\<rparr>)
      | CkUnlinkBackup \<Rightarrow> (CkLinkBackup, st\<lparr>lg_disk := snd (f_unlink S (backupFilename N) (lg_disk st))\<rparr>)
      | CkLinkBackup \<Rightarrow> ck_call (f_link S (activeFilename N) (backupFilename N) (lg_disk st)) CkUnlinkActive st
      | CkUnlinkActive \<Rightarrow> ck_call (f_unlink S (activeFilename N) (lg_disk st)) CkLinkActive st
      | CkLinkActive \<Rightarrow> ck_call (f_link S (checkpointFilename N) (activeFilename N) (lg_disk st)) CkUnlinkCheckpoint st
      | CkUnlinkCheckpoint \<Rightarrow> ck_call (f_unlink S (checkpointFilename N) (lg_disk st)) CkReopen st
      | CkReopen \<Rightarrow> ck_reopen S N st
      | CkExit \<Rightarrow> (pc, st)
      | CkKilled e \<Rightarrow> (pc, st)))"

section \<open>A crash during a checkpoint\<close>

text \<open>The states of one round: the steps after the lock was taken, until the round is over.\<close>

definition ck_over :: "ckpc \<Rightarrow> bool" where
  "ck_over pc \<longleftrightarrow> (case pc of CkIdle \<Rightarrow> True | CkExit \<Rightarrow> True | CkKilled _ \<Rightarrow> True | _ \<Rightarrow> False)"

inductive ck_reach :: "os \<Rightarrow> env \<Rightarrow> log_names \<Rightarrow> ckpc \<times> log_state \<Rightarrow> ckpc \<times> log_state \<Rightarrow> bool" for S E N s0 where
  start: "ck_reach S E N s0 s0"
| step: "ck_reach S E N s0 s \<Longrightarrow> \<not> ck_over (fst s) \<Longrightarrow> ck_reach S E N s0 (ck_step S E N s)"

definition names_ok :: "log_names \<Rightarrow> bool" where
  "names_ok N \<longleftrightarrow> distinct [activeFilename N, backupFilename N, checkpointFilename N]"

text \<open>The logfile holds \<open>old\<close>, and the checkpoint file, if there is one, is another file.\<close>

definition log_sound :: "log_names \<Rightarrow> string \<Rightarrow> disk \<Rightarrow> bool" where
  "log_sound N old d \<longleftrightarrow> (\<exists>i. d_names d (activeFilename N) = Some i \<and> d_data d i = old \<and>
     d_names d (checkpointFilename N) \<noteq> Some i \<and> i \<noteq> d_next d)"

definition both_files :: "log_names \<Rightarrow> string \<Rightarrow> string \<Rightarrow> disk \<Rightarrow> bool" where
  "both_files N old new d \<longleftrightarrow> (\<exists>i j. d_names d (activeFilename N) = Some i \<and> d_data d i = old \<and>
     d_names d (checkpointFilename N) = Some j \<and> d_data d j = new \<and> i \<noteq> j)"

definition with_backup :: "log_names \<Rightarrow> string \<Rightarrow> disk \<Rightarrow> bool" where
  "with_backup N old d \<longleftrightarrow> contents (backupFilename N) d = Some old"

definition recoverable :: "log_names \<Rightarrow> string \<Rightarrow> string \<Rightarrow> disk \<Rightarrow> bool" where
  "recoverable N old new d \<longleftrightarrow> contents (activeFilename N) d = Some old \<or> contents (activeFilename N) d = Some new \<or>
     contents (activeFilename N) d = None \<and> contents (backupFilename N) d = Some old \<and>
     contents (checkpointFilename N) d = Some new"

definition log_text :: "env \<Rightarrow> log_state \<Rightarrow> string" where
  "log_text E st = fst (fst (log_out E (lg_service st) (lg_world st)))"

definition ck_inv :: "env \<Rightarrow> log_names \<Rightarrow> string \<Rightarrow> string \<Rightarrow> ckpc \<times> log_state \<Rightarrow> bool" where
  "ck_inv E N old new ps \<longleftrightarrow> (case ps of (pc, st) \<Rightarrow> let d = lg_disk st in
     case pc of
       CkPrepare \<Rightarrow> log_sound N old d \<and> log_text E st = new
     | CkWrite j \<Rightarrow> both_files N old [] d \<and> d_names d (checkpointFilename N) = Some j \<and> log_text E st = new
     | CkAbandon \<Rightarrow> contents (activeFilename N) d = Some old
     | CkUnlinkBackup \<Rightarrow> both_files N old new d
     | CkLinkBackup \<Rightarrow> both_files N old new d
     | CkUnlinkActive \<Rightarrow> both_files N old new d \<and> with_backup N old d
     | CkLinkActive \<Rightarrow> contents (activeFilename N) d = None \<and> with_backup N old d \<and>
           contents (checkpointFilename N) d = Some new
     | CkUnlinkCheckpoint \<Rightarrow> contents (activeFilename N) d = Some new \<and> with_backup N old d
     | CkReopen \<Rightarrow> contents (activeFilename N) d = Some new \<and> with_backup N old d
     | CkIdle \<Rightarrow> recoverable N old new d
     | CkExit \<Rightarrow> recoverable N old new d
     | CkKilled e \<Rightarrow> contents (activeFilename N) d = Some old)"

lemma both_files_active: "both_files N old new d \<Longrightarrow> contents (activeFilename N) d = Some old"
  by (auto simp: both_files_def contents_def)

lemma log_sound_active: "log_sound N old d \<Longrightarrow> contents (activeFilename N) d = Some old"
  by (auto simp: log_sound_def contents_def)

lemma open_checkpoint:
  assumes "openOfstream S (checkpointFilename N) True d = (r, d')" and "log_sound N old d" and "names_ok N"
  shows "case r of None \<Rightarrow> contents (activeFilename N) d' = Some old
    | Some j \<Rightarrow> both_files N old [] d' \<and> d_names d' (checkpointFilename N) = Some j"
  using assms
  by (auto simp: openOfstream_def Let_def log_sound_def names_ok_def both_files_def contents_def f_call_def
      split: if_splits option.splits)

lemma write_checkpoint:
  assumes "f_write S j s d = (ok, d')" and "both_files N old [] d" and "d_names d (checkpointFilename N) = Some j"
  shows "contents (activeFilename N) d' = Some old \<and> (ok \<longrightarrow> both_files N old s d')"
  using assms by (auto simp: f_write_def Let_def both_files_def contents_def f_call_def split: if_splits)

lemma unlink_other:
  assumes "f_unlink S f d = (ok, d')" and "g \<noteq> f"
  shows "d_names d' g = d_names d g \<and> d_data d' = d_data d \<and> contents g d' = contents g d"
  using assms by (auto simp: f_unlink_def Let_def contents_def f_call_def split: if_splits)

lemma unlink_self:
  assumes "f_unlink S f d = (ok, d')"
  shows "if ok then contents f d' = None else d_names d' = d_names d \<and> d_data d' = d_data d"
  using assms by (auto simp: f_unlink_def Let_def contents_def f_call_def split: if_splits)

lemma link_cases:
  assumes "f_link S f g d = (ok, d')"
  shows "d_data d' = d_data d \<and> (if ok then d_names d' = (d_names d)(g := d_names d f) \<and> d_names d f \<noteq> None
    else d_names d' = d_names d)"
  using assms by (auto simp: f_link_def Let_def f_call_def split: if_splits)

lemma reopen_same:
  assumes "openOfstream S f False d = (r, d')" and "d_names d f \<noteq> None"
  shows "d_names d' = d_names d \<and> d_data d' = d_data d \<and> (r = None \<or> r = d_names d f)"
  using assms by (auto simp: openOfstream_def Let_def f_call_def split: if_splits option.splits)

lemma contents_cong: "d_names d' = d_names d \<Longrightarrow> d_data d' = d_data d \<Longrightarrow> contents f d' = contents f d"
  by (simp add: contents_def)

lemma ck_step_inv:
  assumes "names_ok N" and "ck_inv E N old new (pc, st)" and "\<not> ck_over pc"
  shows "ck_inv E N old new (ck_step S E N (pc, st))"
proof -
  let ?d = "lg_disk st" and ?a = "activeFilename N" and ?b = "backupFilename N" and ?c = "checkpointFilename N"
  have dist: "?a \<noteq> ?b" "?a \<noteq> ?c" "?b \<noteq> ?c" "?b \<noteq> ?a" "?c \<noteq> ?a" "?c \<noteq> ?b" using assms(1) by (auto simp: names_ok_def)
  show ?thesis
  proof (cases pc)
    case CkPrepare
    obtain r d where o: "openOfstream S ?c True ?d = (r, d)" by force
    show ?thesis using CkPrepare assms open_checkpoint [OF o _ assms(1)] o
      by (cases r) (auto simp: ck_step_def ck_inv_def log_text_def Let_def)
  next
    case (CkWrite j)
    obtain s ex w1 where t: "log_out E (lg_service st) (lg_world st) = ((s, ex), w1)" by (metis prod.collapse)
    obtain ok d where w: "f_write S j s ?d = (ok, d)" by force
    have "s = new" using CkWrite assms(2) t by (simp add: ck_inv_def Let_def log_text_def)
    then show ?thesis using CkWrite assms(2) write_checkpoint [OF w] t w
      by (auto simp: ck_step_def ck_write_def ck_inv_def Let_def split: option.splits)
  next
    case CkAbandon
    obtain ok d where u: "f_unlink S ?c ?d = (ok, d)" by force
    show ?thesis using CkAbandon assms(2) unlink_other [OF u dist(2)] u
      by (simp add: ck_step_def ck_inv_def Let_def recoverable_def)
  next
    case CkUnlinkBackup
    obtain ok d where u: "f_unlink S ?b ?d = (ok, d)" by force
    show ?thesis using CkUnlinkBackup assms(2) unlink_other [OF u dist(1)] unlink_other [OF u dist(6)] u
      by (simp add: ck_step_def ck_inv_def Let_def both_files_def)
  next
    case CkLinkBackup
    obtain ok d where l: "f_link S ?a ?b ?d = (ok, d)" by force
    show ?thesis using CkLinkBackup assms(2) link_cases [OF l] l dist
      by (cases ok) (auto simp: ck_step_def ck_call_def ck_inv_def Let_def both_files_def with_backup_def
          recoverable_def contents_def)
  next
    case CkUnlinkActive
    obtain ok d where u: "f_unlink S ?a ?d = (ok, d)" by force
    show ?thesis using CkUnlinkActive assms(2) unlink_self [OF u] unlink_other [OF u dist(4)] unlink_other [OF u dist(5)] u
      by (cases ok) (auto simp: ck_step_def ck_call_def ck_inv_def Let_def both_files_def with_backup_def
          recoverable_def contents_def)
  next
    case CkLinkActive
    obtain ok d where l: "f_link S ?c ?a ?d = (ok, d)" by force
    show ?thesis using CkLinkActive assms(2) link_cases [OF l] l dist
      by (cases ok) (auto simp: ck_step_def ck_call_def ck_inv_def Let_def with_backup_def recoverable_def contents_def)
  next
    case CkUnlinkCheckpoint
    obtain ok d where u: "f_unlink S ?c ?d = (ok, d)" by force
    show ?thesis using CkUnlinkCheckpoint assms(2) unlink_other [OF u dist(2)] unlink_other [OF u dist(3)] u
      by (cases ok) (auto simp: ck_step_def ck_call_def ck_inv_def Let_def with_backup_def recoverable_def)
  next
    case CkReopen
    obtain r d where o: "openOfstream S ?a False ?d = (r, d)" by force
    have "d_names ?d ?a \<noteq> None" using CkReopen assms(2) by (auto simp: ck_inv_def Let_def contents_def)
    then have "contents ?a d = contents ?a ?d" using reopen_same [OF o] contents_cong by blast
    then show ?thesis using CkReopen assms(2) o
      by (cases r) (auto simp: ck_step_def ck_reopen_def ck_inv_def Let_def recoverable_def)
  qed (use assms(3) in \<open>simp_all add: ck_over_def\<close>)
qed

lemma ck_inv_recoverable: "ck_inv E N old new (pc, st) \<Longrightarrow> recoverable N old new (lg_disk st)"
  by (cases pc) (auto simp: ck_inv_def Let_def recoverable_def with_backup_def dest: both_files_active log_sound_active)

lemma ck_reach_recoverable:
  assumes "names_ok N" and "log_sound N old (lg_disk st)" and "ck_reach S E N (CkPrepare, st) (pc, st')"
  shows "recoverable N old (log_text E st) (lg_disk st')"
proof -
  have "ck_inv E N old (log_text E st) s" if "ck_reach S E N (CkPrepare, st) s" for s
    using that
  proof induction
    case start
    then show ?case using assms(2) by (simp add: ck_inv_def)
  next
    case (step s)
    then show ?case using ck_step_inv [OF assms(1)] by (cases s) auto
  qed
  from this [OF assms(3)] show ?thesis by (rule ck_inv_recoverable)
qed

text \<open>
  C17. A crash during a checkpoint. Whatever calls to the operating system fail, and wherever
  the process stops between two of them, the state of the service is not lost: the logfile
  holds all of the old or all of the new state, or it is missing and the backup holds the old
  and the checkpoint file the new one. So the next start reads the old or the new state, or
  refuses to start; it never starts from something else.
\<close>

theorem checkpoint_crash_safe:
  assumes "names_ok N" and "log_sound N old (lg_disk st)"
    and "ck_reach S E N (CkPrepare, st) (pc, st')"
  shows "recoverable N old (log_text E st) (lg_disk st') \<and>
    log_parse N (lg_disk st') \<in> {log_check old, log_check (log_text E st), Inl (ProcessExit 1)} \<and>
    (contents (activeFilename N) (lg_disk st') = None \<longrightarrow>
      contents (backupFilename N) (lg_disk st') = Some old)"
  using ck_reach_recoverable [OF assms] by (auto simp: recoverable_def log_parse_def)

theorem checkpoint_crash_safe_witness:
  "let N = \<lparr>activeFilename = ''a'', backupFilename = ''b'', checkpointFilename = ''c''\<rparr>;
       d = \<lparr>d_names = [''a'' \<mapsto> 0], d_data = (\<lambda>_. ''ecf port=7 ;;''), d_next = 1, d_calls = []\<rparr>;
       sv = \<lparr>sv_chans = [], sv_store = [], sv_port = 7, sv_endPointNoListen = []\<rparr>;
       st = \<lparr>lg_stream = 0, lg_base = [], lg_disk = d, lg_service = sv, lg_world = init_world True, lg_locked = True,
             lg_first = False\<rparr>;
       S = \<lparr>os_fails = (\<lambda>cs. length cs = 1), os_written = (\<lambda>_. 3)\<rparr>
   in log_sound N ''ecf port=7 ;;'' d \<and>
      recoverable N ''ecf port=7 ;;'' (log_text idle_env st)
        (lg_disk (snd (ck_step S idle_env N (ck_step S idle_env N (CkPrepare, st)))))"
proof -
  let ?N = "\<lparr>activeFilename = ''a'', backupFilename = ''b'', checkpointFilename = ''c''\<rparr>"
  let ?d = "\<lparr>d_names = [''a'' \<mapsto> 0], d_data = (\<lambda>_. ''ecf port=7 ;;''), d_next = 1, d_calls = []\<rparr>"
  let ?sv = "\<lparr>sv_chans = [], sv_store = [], sv_port = 7, sv_endPointNoListen = []\<rparr>"
  let ?st = "\<lparr>lg_stream = 0, lg_base = [], lg_disk = ?d, lg_service = ?sv, lg_world = init_world True, lg_locked = True,
             lg_first = False\<rparr>"
  let ?S = "\<lparr>os_fails = (\<lambda>cs. length cs = 1), os_written = (\<lambda>_. 3)\<rparr>"
  have n: "names_ok ?N" by (simp add: names_ok_def)
  have d: "log_sound ?N ''ecf port=7 ;;'' (lg_disk ?st)" by (simp add: log_sound_def)
  let ?s1 = "ck_step ?S idle_env ?N (CkPrepare, ?st)"
  have r1: "ck_reach ?S idle_env ?N (CkPrepare, ?st) ?s1"
    using ck_reach.step [OF ck_reach.start, of "(CkPrepare, ?st)"] by (simp add: ck_over_def)
  have "fst ?s1 = CkWrite 1" by (simp add: ck_step_def openOfstream_def)
  then have r2: "ck_reach ?S idle_env ?N (CkPrepare, ?st) (ck_step ?S idle_env ?N ?s1)"
    using ck_reach.step [OF r1] by (simp add: ck_over_def)
  obtain pc st' where s2: "ck_step ?S idle_env ?N ?s1 = (pc, st')" by force
  from checkpoint_crash_safe [OF n d r2 [unfolded s2]] d show ?thesis unfolding Let_def s2 by simp
qed

section \<open>A checkpoint without failures\<close>

lemma open_truncate_ok:
  assumes "\<And>cs. \<not> os_fails S cs" and "log_sound N old d" and "d_names d (activeFilename N) = Some i" and "names_ok N"
  obtains j d' where "openOfstream S (checkpointFilename N) True d = (Some j, d')" "j \<noteq> i"
    "d_names d' = (d_names d)(checkpointFilename N \<mapsto> j)" "d_data d' = (d_data d)(j := [])"
proof (cases "d_names d (checkpointFilename N)")
  case None
  then show thesis using assms that [of "d_next d"]
    by (simp add: openOfstream_def Let_def f_call_def log_sound_def)
next
  case (Some j)
  then show thesis using assms that [of j]
    by (simp add: openOfstream_def Let_def f_call_def log_sound_def fun_upd_idem)
qed

lemma unlink_ok:
  assumes "\<And>cs. \<not> os_fails S cs"
  obtains d' where "f_unlink S f d = (d_names d f \<noteq> None, d')" "d_names d' = (d_names d)(f := None)" "d_data d' = d_data d"
  using assms that by (cases "d_names d f") (auto simp: f_unlink_def Let_def f_call_def fun_upd_idem)

lemma link_ok:
  assumes "\<And>cs. \<not> os_fails S cs" and "d_names d f = Some k" and "d_names d g = None"
  obtains d' where "f_link S f g d = (True, d')" "d_names d' = (d_names d)(g \<mapsto> k)" "d_data d' = d_data d"
  using assms that by (auto simp: f_link_def Let_def f_call_def)

text \<open>Up to the last but one call the checkpoint file and the new logfile are the same file.\<close>

lemma ck_six_steps:
  assumes "\<And>cs. \<not> os_fails S cs" and "names_ok N" and "log_sound N old (lg_disk st)"
    and "snd (fst (log_out E (lg_service st) (lg_world st))) = None"
  obtains i j d w1 where "(ck_step S E N ^^ 6) (CkPrepare, st) = (CkUnlinkCheckpoint, st\<lparr>lg_disk := d, lg_world := w1\<rparr>)"
    "d_names d = (d_names (lg_disk st))(checkpointFilename N \<mapsto> j, backupFilename N \<mapsto> i, activeFilename N \<mapsto> j)"
    "d_data d i = old" "d_data d j = log_text E st"
proof -
  let ?a = "activeFilename N" and ?b = "backupFilename N" and ?c = "checkpointFilename N" and ?d = "lg_disk st"
  have dist: "?a \<noteq> ?b" "?a \<noteq> ?c" "?b \<noteq> ?c" "?b \<noteq> ?a" "?c \<noteq> ?a" "?c \<noteq> ?b" using assms(2) by (auto simp: names_ok_def)
  obtain i where i: "d_names ?d ?a = Some i" "d_data ?d i = old" using assms(3) by (auto simp: log_sound_def)
  obtain s w1 where out: "log_out E (lg_service st) (lg_world st) = ((s, None), w1)"
    using assms(4) by (metis prod.collapse)
  then have new: "log_text E st = s" by (simp add: log_text_def)
  obtain j d1 where 1: "openOfstream S ?c True ?d = (Some j, d1)" "j \<noteq> i"
    "d_names d1 = (d_names ?d)(?c \<mapsto> j)" "d_data d1 = (d_data ?d)(j := [])"
    by (rule open_truncate_ok [OF assms(1,3) i(1) assms(2)])
  define d2 where "d2 = (f_call (FWrite s) d1)\<lparr>d_data := (d_data d1)(j := s)\<rparr>"
  have 2: "f_write S j s d1 = (True, d2)" using assms(1) 1(4) by (simp add: f_write_def d2_def Let_def)
  have n2: "d_names d2 = (d_names ?d)(?c \<mapsto> j)" "d_data d2 = (d_data ?d)(j := s)"
    using 1(3,4) by (simp_all add: d2_def f_call_def)
  obtain d3 where 3: "f_unlink S ?b d2 = (d_names d2 ?b \<noteq> None, d3)" "d_names d3 = (d_names d2)(?b := None)" "d_data d3 = d_data d2"
    by (rule unlink_ok [OF assms(1)])
  obtain d4 where 4: "f_link S ?a ?b d3 = (True, d4)" "d_names d4 = (d_names d3)(?b \<mapsto> i)" "d_data d4 = d_data d3"
    using link_ok [OF assms(1), of d3 ?a i ?b] 3(2) n2(1) i(1) dist by auto
  obtain d5 where 5: "f_unlink S ?a d4 = (d_names d4 ?a \<noteq> None, d5)" "d_names d5 = (d_names d4)(?a := None)" "d_data d5 = d_data d4"
    by (rule unlink_ok [OF assms(1)])
  have o5: "d_names d4 ?a \<noteq> None" using 4(2) 3(2) n2(1) i(1) dist by simp
  obtain d6 where 6: "f_link S ?c ?a d5 = (True, d6)" "d_names d6 = (d_names d5)(?a \<mapsto> j)" "d_data d6 = d_data d5"
    using link_ok [OF assms(1), of d5 ?c j ?a] 5(2) 4(2) 3(2) n2(1) dist by auto
  let ?sw = "\<lambda>d. st\<lparr>lg_disk := d, lg_world := w1\<rparr>"
  have "ck_step S E N (CkPrepare, st) = (CkWrite j, st\<lparr>lg_disk := d1\<rparr>)" by (simp add: ck_step_def 1)
  moreover have "ck_step S E N (CkWrite j, st\<lparr>lg_disk := d1\<rparr>) = (CkUnlinkBackup, ?sw d2)"
    by (simp add: ck_step_def ck_write_def out 2)
  moreover have "ck_step S E N (CkUnlinkBackup, ?sw d2) = (CkLinkBackup, ?sw d3)" by (simp add: ck_step_def 3)
  moreover have "ck_step S E N (CkLinkBackup, ?sw d3) = (CkUnlinkActive, ?sw d4)" by (simp add: ck_step_def ck_call_def 4)
  moreover have "ck_step S E N (CkUnlinkActive, ?sw d4) = (CkLinkActive, ?sw d5)" using o5 by (simp add: ck_step_def ck_call_def 5)
  moreover have "ck_step S E N (CkLinkActive, ?sw d5) = (CkUnlinkCheckpoint, ?sw d6)" by (simp add: ck_step_def ck_call_def 6)
  ultimately have "(ck_step S E N ^^ 6) (CkPrepare, st) = (CkUnlinkCheckpoint, ?sw d6)"
    by (simp add: eval_nat_numeral)
  moreover have "d_names d6 = (d_names ?d)(?c \<mapsto> j, ?b \<mapsto> i, ?a \<mapsto> j)" "d_data d6 i = old" "d_data d6 j = log_text E st"
    using 6(2,3) 5(2,3) 4(2,3) 3(2,3) n2 dist i(2) 1(2) new by (auto simp: fun_eq_iff)
  ultimately show thesis using that by blast
qed

text \<open>
  A checkpoint that nothing disturbs: eight steps after the lock was taken the lock is free
  again, the logfile holds exactly the state of the service and is open for further records,
  the backup holds the old logfile, the checkpoint file is gone, and no further checkpoint is
  needed until the next record is written.
\<close>

lemma ck_eight_steps:
  assumes "\<And>cs. \<not> os_fails S cs" and "names_ok N" and "log_sound N old (lg_disk st)"
    and "snd (fst (log_out E (lg_service st) (lg_world st))) = None"
  shows "\<exists>st'. (ck_step S E N ^^ 8) (CkPrepare, st) = (CkIdle, st') \<and>
    contents (activeFilename N) (lg_disk st') = Some (log_text E st) \<and>
    contents (backupFilename N) (lg_disk st') = Some old \<and> contents (checkpointFilename N) (lg_disk st') = None \<and>
    \<not> lg_locked st' \<and> \<not> w_checkpoint (lg_world st') \<and>
    d_names (lg_disk st') (activeFilename N) = Some (lg_stream st') \<and>
    lg_base st' = log_text E st \<and> w_log (lg_world st') = Some []"
proof -
  let ?a = "activeFilename N" and ?b = "backupFilename N" and ?c = "checkpointFilename N"
  have dist: "?a \<noteq> ?b" "?a \<noteq> ?c" "?b \<noteq> ?c" using assms(2) by (auto simp: names_ok_def)
  obtain i j d w1 where 6: "(ck_step S E N ^^ 6) (CkPrepare, st) = (CkUnlinkCheckpoint, st\<lparr>lg_disk := d, lg_world := w1\<rparr>)"
    "d_names d = (d_names (lg_disk st))(?c \<mapsto> j, ?b \<mapsto> i, ?a \<mapsto> j)" "d_data d i = old" "d_data d j = log_text E st"
    by (rule ck_six_steps [OF assms])
  obtain d7 where 7: "f_unlink S ?c d = (d_names d ?c \<noteq> None, d7)" "d_names d7 = (d_names d)(?c := None)" "d_data d7 = d_data d"
    by (rule unlink_ok [OF assms(1)])
  define d8 where "d8 = f_call (FOpen ?a False) d7"
  have 8: "openOfstream S ?a False d7 = (Some j, d8)"
    using assms(1) 7(2) 6(2) dist by (simp add: openOfstream_def d8_def Let_def)
  have n8: "d_names d8 = d_names d7" "d_data d8 = d_data d7" by (simp_all add: d8_def f_call_def)
  let ?sw = "\<lambda>d. st\<lparr>lg_disk := d, lg_world := w1\<rparr>"
  let ?fin = "?sw d8\<lparr>lg_stream := j, lg_base := log_text E st, lg_locked := False,
    lg_world := w1\<lparr>w_log := Some [], w_checkpoint := False\<rparr>\<rparr>"
  have "ck_step S E N (CkUnlinkCheckpoint, ?sw d) = (CkReopen, ?sw d7)"
    using 6(2) dist by (simp add: ck_step_def ck_call_def 7)
  moreover have "ck_step S E N (CkReopen, ?sw d7) = (CkIdle, ?fin)"
    using 7 6 n8 by (simp add: ck_step_def ck_reopen_def 8)
  moreover have "(ck_step S E N ^^ 8) (CkPrepare, st) = ck_step S E N (ck_step S E N ((ck_step S E N ^^ 6) (CkPrepare, st)))"
    by (simp add: eval_nat_numeral)
  ultimately have "(ck_step S E N ^^ 8) (CkPrepare, st) = (CkIdle, ?fin)" by (simp only: 6(1))
  moreover have "contents ?a d8 = Some (log_text E st)" "contents ?b d8 = Some old" "contents ?c d8 = None" "d_names d8 ?a = Some j"
    using n8 7(2,3) 6(2-4) dist by (auto simp: contents_def)
  ultimately show ?thesis by (intro exI [of _ ?fin]) simp
qed

lemma jtext_nl: "jtext [] nl"
  by (simp add: jtext_def ends_space_def nl_def c_space_def)

text \<open>What \<^verbatim>\<open>output\<close> writes is accepted by \<^verbatim>\<open>parse\<close>: it starts with the factory and its port.\<close>

lemma split_ecf: "split_slash ''ecf'' = [''ecf'']"
  by code_simp

lemma state_at_ecf: "state_at (paths (service_recs E sv)) [''ecf''] = Some (ecf_attrs sv)"
  by (simp add: service_recs_def state_at_def split_ecf)

lemma atol_show_nat: "i < 2 ^ 32 \<Longrightarrow> 0 \<le> i \<Longrightarrow> c_atol (show_int i) = i"
  by (rule atol_show_int) (simp_all add: long_min_def long_max_def)

lemma check_state:
  assumes "attrs_at [''ecf''] (parse_text s) = Some (ecf_attrs sv)" and "sv_port sv \<noteq> 0"
  shows "log_check s = Inr (parse_text s)"
proof -
  from assms(1) obtain ecf where e: "child ''ecf'' (parse_text s) = Some ecf" "pn_attr ecf = ecf_attrs sv"
    by (auto simp: attrs_at_def split: option.splits)
  have "uint (sv_port sv) < 2 ^ 32" "0 \<le> uint (sv_port sv)" using uint_bounded [of "sv_port sv"] by simp_all
  then have "c_atol (show_int (uint (sv_port sv))) = uint (sv_port sv)"
    by (intro atol_show_nat)
  then have "attrLong ''port'' (-1) ecf = uint (sv_port sv)" using e(2) by (simp add: attrLong_def ecf_attrs_def)
  moreover have "0 < uint (sv_port sv)" 
    using assms(2) uint_ge_0 [of "sv_port sv"] by (metis less_le uint_0_iff)
  ultimately show ?thesis using e(1) by (simp add: log_check_def Let_def)
qed

lemma ck_restart:
  assumes "\<And>cs. \<not> os_fails S cs" and "names_ok N" and "log_sound N old (lg_disk st)"
    and "service_sound E (lg_service st)" and "sv_port (lg_service st) \<noteq> 0"
  shows "\<exists>st' T. (ck_step S E N ^^ 8) (CkPrepare, st) = (CkIdle, st') \<and> log_parse N (lg_disk st') = Inr T \<and>
    (\<forall>p. attrs_at p T = state_at (paths (service_recs E (lg_service st))) p)"
proof -
  obtain s w' where out: "ecf_output E (lg_service st) (lg_world st) = ((s, None), w')"
    "\<forall>p t. jtext [] t \<longrightarrow> attrs_at p (parse_text (s @ t)) = state_at (paths (service_recs E (lg_service st))) p"
    by (rule output_tree [OF assms(4), where w = "lg_world st"])
  have t: "log_text E st = s @ nl" and ok: "snd (fst (log_out E (lg_service st) (lg_world st))) = None"
    using out(1) by (simp_all add: log_text_def log_out_def out_then_def)
  have a: "attrs_at p (parse_text (s @ nl)) = state_at (paths (service_recs E (lg_service st))) p" for p
    using out(2) jtext_nl by blast
  then have "log_check (s @ nl) = Inr (parse_text (s @ nl))"
    using assms(5) by (intro check_state [of _ "lg_service st"]) (simp_all add: state_at_ecf)
  then show ?thesis using ck_eight_steps [OF assms(1-3) ok] a t by (auto simp: log_parse_def)
qed

text \<open>
  C18. Checkpoint and restart. A checkpoint that nothing disturbs leaves a logfile that \<^verbatim>\<open>parse()\<close>
  accepts, whatever the logfile held before, and the tree it gives is the state of the
  service: exactly its records, at their paths, with their attributes.
\<close>

theorem checkpoint_restart:
  assumes "\<And>cs. \<not> os_fails S cs" and "names_ok N" and "log_sound N old (lg_disk st)"
    and "service_sound E (lg_service st)" and "sv_port (lg_service st) \<noteq> 0"
  shows "\<exists>st' T. (ck_step S E N ^^ 8) (CkPrepare, st) = (CkIdle, st') \<and> log_parse N (lg_disk st') = Inr T \<and>
    (\<forall>p. attrs_at p T = state_at (paths (service_recs E (lg_service st))) p)"
  by (rule ck_restart [OF assms])

text \<open>A state for concrete runs: a service without channels, and its logfile.\<close>

definition demo_names :: log_names where
  "demo_names = \<lparr>activeFilename = ''a'', backupFilename = ''b'', checkpointFilename = ''c''\<rparr>"

definition demo_log :: "nat option \<Rightarrow> log_state" where
  "demo_log ckp = \<lparr>lg_stream = 0, lg_base = ''ecf port=7 ;;'', lg_disk = \<lparr>d_names = [''a'' \<mapsto> 0](''c'' := ckp),
     d_data = (\<lambda>_. ''ecf port=7 ;;''), d_next = 5, d_calls = []\<rparr>,
     lg_service = \<lparr>sv_chans = [], sv_store = [], sv_port = 7, sv_endPointNoListen = []\<rparr>,
     lg_world = init_world True, lg_locked = True, lg_first = False\<rparr>"

lemma demo_log_out: "log_out idle_env (lg_service (demo_log k)) w = ((''ecf port=7 ;;'' @ nl @ nl, None), w)"
proof -
  have "show_int 7 = ''7''" by code_simp
  then show ?thesis
    by (simp add: log_out_def ecf_output_def out_then_def store_output_def stored_def demo_log_def List.map_filter_def)
qed

lemma demo_sound: "names_ok demo_names" "k \<noteq> Some 0 \<Longrightarrow> log_sound demo_names ''ecf port=7 ;;'' (lg_disk (demo_log k))"
  by (simp_all add: names_ok_def demo_names_def log_sound_def demo_log_def)

theorem checkpoint_restart_witness:
  "\<exists>st' T. (ck_step \<lparr>os_fails = (\<lambda>_. False), os_written = (\<lambda>_. 0)\<rparr> idle_env demo_names ^^ 8) (CkPrepare, demo_log None) =
      (CkIdle, st') \<and> log_parse demo_names (lg_disk st') = Inr T \<and> attrs_at [''ecf''] T = Some [(''port'', ''7'')]"
proof -
  have "no_space (replicate n (CHR ''x''))" for n by (induction n) (simp_all add: c_space_def)
  then have "service_sound idle_env (lg_service (demo_log None))"
    by (simp add: service_sound_def demo_log_def stored_def List.map_filter_def idle_env_def)
  moreover have "sv_port (lg_service (demo_log None)) \<noteq> 0" by (simp add: demo_log_def)
  moreover have "ecf_attrs (lg_service (demo_log None)) = [(''port'', ''7'')]"
  proof -
    have "show_int 7 = ''7''" by code_simp
    then show ?thesis by (simp add: ecf_attrs_def demo_log_def)
  qed
  ultimately show ?thesis
    using checkpoint_restart [of "\<lparr>os_fails = (\<lambda>_. False), os_written = (\<lambda>_. 0)\<rparr>" demo_names "''ecf port=7 ;;''"
        "demo_log None" idle_env] demo_sound(1) demo_sound(2) [of None] by (auto simp: state_at_ecf)
qed

section \<open>Checkpoints that fail\<close>

text \<open>
  An abandoned checkpoint: if the checkpoint file cannot be opened, or the service cannot
  be written to it in full, the round ends after at most three steps with the logfile as it
  was, the lock free, and the service and the stream of the records untouched.
\<close>

lemma checkpoint_abandoned:
  assumes "names_ok N" and "log_sound N old (lg_disk st)"
    and "snd (fst (log_out E (lg_service st) (lg_world st))) = None"
    and "fst (openOfstream S (checkpointFilename N) True (lg_disk st)) = None \<or>
      (\<exists>i d. openOfstream S (checkpointFilename N) True (lg_disk st) = (Some i, d) \<and>
         \<not> fst (f_write S i (log_text E st) d))"
  shows "\<exists>n st'. n \<le> 3 \<and> (ck_step S E N ^^ n) (CkPrepare, st) = (CkIdle, st') \<and>
    contents (activeFilename N) (lg_disk st') = Some old \<and> \<not> lg_locked st' \<and>
    lg_stream st' = lg_stream st \<and> lg_service st' = lg_service st"
proof -
  have dist: "activeFilename N \<noteq> checkpointFilename N" using assms(1) by (auto simp: names_ok_def)
  obtain s w1 where out: "log_out E (lg_service st) (lg_world st) = ((s, None), w1)"
    using assms(3) by (metis prod.collapse)
  then have new: "log_text E st = s" by (simp add: log_text_def)
  obtain r d where o: "openOfstream S (checkpointFilename N) True (lg_disk st) = (r, d)" by force
  have clean: "\<exists>st'. ck_step S E N (CkAbandon, st1) = (CkIdle, st') \<and>
      contents (activeFilename N) (lg_disk st') = contents (activeFilename N) (lg_disk st1) \<and> \<not> lg_locked st' \<and>
      lg_stream st' = lg_stream st1 \<and> lg_service st' = lg_service st1" for st1
    using unlink_other [OF _ dist, of S "lg_disk st1"]
    by (cases "f_unlink S (checkpointFilename N) (lg_disk st1)") (simp add: ck_step_def)
  show ?thesis
  proof (cases r)
    case None
    then have 1: "ck_step S E N (CkPrepare, st) = (CkAbandon, st\<lparr>lg_disk := d\<rparr>)" by (simp add: ck_step_def o)
    have "contents (activeFilename N) d = Some old" using open_checkpoint [OF o assms(2,1)] None by simp
    then show ?thesis using clean [of "st\<lparr>lg_disk := d\<rparr>"] 1
      by (intro exI [of _ "2::nat"]) (auto simp: eval_nat_numeral)
  next
    case (Some i)
    obtain ok d2 where w: "f_write S i s d = (ok, d2)" by force
    have nok: "\<not> ok" using assms(4) o Some w new by auto
    have b: "both_files N old [] d" "d_names d (checkpointFilename N) = Some i"
      using open_checkpoint [OF o assms(2,1)] Some by simp_all
    have "ck_step S E N (CkPrepare, st) = (CkWrite i, st\<lparr>lg_disk := d\<rparr>)" by (simp add: ck_step_def o Some)
    moreover have "ck_step S E N (CkWrite i, st\<lparr>lg_disk := d\<rparr>) = (CkAbandon, st\<lparr>lg_disk := d2, lg_world := w1\<rparr>)"
      using nok w by (simp add: ck_step_def ck_write_def out)
    moreover have "contents (activeFilename N) d2 = Some old" using write_checkpoint [OF w b] by simp
    ultimately show ?thesis using clean [of "st\<lparr>lg_disk := d2, lg_world := w1\<rparr>"]
      by (intro exI [of _ "3::nat"]) (auto simp: eval_nat_numeral)
  qed
qed

text \<open>
  A checkpoint that ends in an exception. An exception of \<^verbatim>\<open>output()\<close>, for instance of a pull
  supplier whose servant the POA does not know any more, leaves \<^verbatim>\<open>checkpoint()\<close> with the lock of
  the logfile held, and ends the thread that holds it: the lock is never free again, and every
  later record of the program waits for ever.
\<close>

lemma checkpoint_exception_locks:
  assumes "lg_locked st" and "openOfstream S (checkpointFilename N) True (lg_disk st) = (Some i, d)"
    and "snd (fst (log_out E (lg_service st) (lg_world st))) = Some e"
  shows "fst ((ck_step S E N ^^ (n + 2)) (CkPrepare, st)) = CkKilled e \<and>
    lg_locked (snd ((ck_step S E N ^^ (n + 2)) (CkPrepare, st))) \<and>
    write_lock out (snd ((ck_step S E N ^^ (n + 2)) (CkPrepare, st))) = None"
proof -
  obtain s w1 where out: "log_out E (lg_service st) (lg_world st) = ((s, Some e), w1)"
    using assms(3) by (metis prod.collapse)
  obtain ok d2 where w: "f_write S i s d = (ok, d2)" by force
  let ?fin = "(CkKilled e, st\<lparr>lg_disk := d2, lg_world := w1\<rparr>)"
  have "(ck_step S E N ^^ 2) (CkPrepare, st) = ?fin"
    by (simp add: eval_nat_numeral ck_step_def assms(2) ck_write_def out w)
  moreover have "(ck_step S E N ^^ n) ?fin = ?fin" by (induction n) (simp_all add: ck_step_def)
  ultimately have "(ck_step S E N ^^ (n + 2)) (CkPrepare, st) = ?fin" by (simp only: funpow_add comp_apply)
  then show ?thesis using assms(1) by (simp add: write_lock_def)
qed

text \<open>
  C22. A crash just before the checkpoint file is unlinked, and the next start. The logfile and
  the checkpoint file are then two names of one file. The service starts from it, but its first
  checkpoint opens the checkpoint file to truncate it, and so empties the logfile: until that
  checkpoint is over a crash leaves a logfile that \<^verbatim>\<open>parse()\<close> refuses, and the service does not
  start again by itself.
\<close>

theorem stale_checkpoint_truncates:
  assumes "\<And>cs. \<not> os_fails S cs" and "names_ok N" and "log_sound N old (lg_disk st)"
    and "snd (fst (log_out E (lg_service st) (lg_world st))) = None"
  shows "\<exists>st1. (ck_step S E N ^^ 6) (CkPrepare, st) = (CkUnlinkCheckpoint, st1) \<and>
    log_parse N (lg_disk st1) = log_check (log_text E st) \<and>
    (\<exists>st2 j. ck_step S E N (CkPrepare, st1) = (CkWrite j, st2) \<and>
       contents (activeFilename N) (lg_disk st2) = Some [] \<and> log_parse N (lg_disk st2) = Inl (ProcessExit 1))"
proof -
  let ?a = "activeFilename N" and ?b = "backupFilename N" and ?c = "checkpointFilename N"
  have dist: "?a \<noteq> ?b" "?a \<noteq> ?c" "?b \<noteq> ?c" using assms(2) by (auto simp: names_ok_def)
  obtain i j d w1 where 6: "(ck_step S E N ^^ 6) (CkPrepare, st) = (CkUnlinkCheckpoint, st\<lparr>lg_disk := d, lg_world := w1\<rparr>)"
    "d_names d = (d_names (lg_disk st))(?c \<mapsto> j, ?b \<mapsto> i, ?a \<mapsto> j)" "d_data d i = old" "d_data d j = log_text E st"
    by (rule ck_six_steps [OF assms])
  let ?st1 = "st\<lparr>lg_disk := d, lg_world := w1\<rparr>"
  define d2 where "d2 = (f_call (FOpen ?c True) d)\<lparr>d_data := (d_data d)(j := [])\<rparr>"
  have o: "openOfstream S ?c True d = (Some j, d2)"
    using assms(1) 6(2) dist by (simp add: openOfstream_def Let_def d2_def)
  then have st2: "ck_step S E N (CkPrepare, ?st1) = (CkWrite j, ?st1\<lparr>lg_disk := d2\<rparr>)" by (simp add: ck_step_def)
  have c2: "contents ?a d2 = Some []" using 6(2) by (simp add: contents_def d2_def f_call_def)
  have "log_check [] = Inl (ProcessExit 1)" by code_simp
  then have p2: "log_parse N d2 = Inl (ProcessExit 1)" using c2 by (simp add: log_parse_def)
  have "contents ?a d = Some (log_text E st)" using 6(2,4) by (simp add: contents_def)
  then have "log_parse N d = log_check (log_text E st)" by (simp add: log_parse_def)
  then show ?thesis using 6(1) st2 c2 p2 by (intro exI [of _ ?st1]) simp
qed

theorem stale_checkpoint_truncates_witness:
  "\<exists>st1. (ck_step \<lparr>os_fails = (\<lambda>_. False), os_written = (\<lambda>_. 0)\<rparr> idle_env demo_names ^^ 6) (CkPrepare, demo_log None) =
      (CkUnlinkCheckpoint, st1) \<and>
    (\<exists>st2 j. ck_step \<lparr>os_fails = (\<lambda>_. False), os_written = (\<lambda>_. 0)\<rparr> idle_env demo_names (CkPrepare, st1) = (CkWrite j, st2) \<and>
       contents ''a'' (lg_disk st2) = Some [])"
proof -
  have "activeFilename demo_names = ''a''" by (simp add: demo_names_def)
  then show ?thesis
    using stale_checkpoint_truncates [of "\<lparr>os_fails = (\<lambda>_. False), os_written = (\<lambda>_. 0)\<rparr>" demo_names "''ecf port=7 ;;''"
        "demo_log None" idle_env] demo_sound(1) demo_sound(2) [of None]
    by (auto simp: demo_log_out)
qed

section \<open>Start-up\<close>

text \<open>
  A database that cannot be opened for writing is deleted. \<^verbatim>\<open>incarnateFactory\<close> unlinks the
  logfile when \<^verbatim>\<open>open\<close> fails, also if it was there before and has just been read: when the
  unlink succeeds the process ends and the name of the file is gone; when it fails, the file is
  untouched.
\<close>

lemma unwritable_log_is_unlinked:
  assumes "os_fails S (d_calls d)" and "d_names d (activeFilename N) = Some i"
  shows "\<exists>d'. incarnateFactory S E N self p (d, w) = (Inl (ProcessExit 1), d') \<and>
    contents (activeFilename N) d' =
      (if os_fails S (d_calls d @ [FOpen (activeFilename N) False]) then Some (d_data d i) else None) \<and>
    log_parse N d' = (if os_fails S (d_calls d @ [FOpen (activeFilename N) False])
      then log_check (d_data d i) else Inl (ProcessExit 1))"
  using assms
  by (simp add: incarnateFactory_def openOfstream_def f_unlink_def f_call_def contents_def log_parse_def Let_def)

lemma bootstrap_ecf:
  assumes "0 < port" and "port < 2 ^ 31"
  shows "\<exists>ecf. child ''ecf'' (bootstrap port ep) = Some ecf \<and> (\<forall>d. attrLong ''port'' d ecf = port) \<and>
    attrString ''endPointNoListen'' [] ecf = (case ep of None \<Rightarrow> [] | Some e \<Rightarrow> e) \<and> pn_child ecf = []"
proof -
  have "to_int32 port = port" using assms by (simp add: to_int32_def signed_take_bit_int_eq_self)
  moreover have "c_atol (show_int port) = port" using assms by (intro atol_show_int) (simp_all add: long_min_def long_max_def)
  ultimately show ?thesis
    by (simp add: bootstrap_def addnode_def split_ecf pn_empty_def child_def addattr_long_def addattr_def Let_def
        attrLong_def attrString_def map_of_smap_set split: option.split)
qed

text \<open>
  The first start of a service. If the logfile does not exist, its description is made by
  \<^verbatim>\<open>bootstrap\<close> from the port and the end point of the command line. The factory that
  \<^verbatim>\<open>incarnateFactory\<close> makes from it has that port, that end point and no channels, the worker
  takes a checkpoint at once, and when that is over the logfile is one that \<^verbatim>\<open>parse()\<close> accepts,
  holding the port and the end point and nothing else: a second start finds the same service.
\<close>

lemma first_start:
  assumes "\<And>cs. \<not> os_fails S cs" and "names_ok N" and "d_names d (activeFilename N) = None"
    and "d_names d (checkpointFilename N) \<noteq> Some (d_next d)"
    and "0 < port" and "port < 65536" and "no_space ep" and "\<forall>t. no_space (env_object_to_string E t)"
    and "env_activate E (w_trace w) INSPOA ''omniEvents'' self = None"
  shows "\<exists>st st1 st' T. fst (incarnateFactory S E N self (bootstrap port (Some ep)) (d, w)) = Inr st \<and>
    lg_service st = \<lparr>sv_chans = [], sv_store = [], sv_port = word_of_int port, sv_endPointNoListen = ep\<rparr> \<and>
    ck_begin st = (CkPrepare, st1) \<and> (ck_step S E N ^^ 8) (CkPrepare, st1) = (CkIdle, st') \<and>
    log_parse N (lg_disk st') = Inr T \<and> attrs_at [''ecf''] T = Some (ecf_attrs (lg_service st)) \<and>
    (\<forall>p. attrs_at p T \<noteq> None \<longrightarrow> p = [] \<or> p = [''ecf''])"
proof -
  let ?a = "activeFilename N" and ?sv = "\<lparr>sv_chans = [], sv_store = [], sv_port = word_of_int port, sv_endPointNoListen = ep\<rparr>"
  obtain ecf where b: "child ''ecf'' (bootstrap port (Some ep)) = Some ecf" "attrLong ''port'' 11169 ecf = port"
    "attrString ''endPointNoListen'' [] ecf = ep" "pn_child ecf = []"
    using bootstrap_ecf [of port "Some ep"] assms(5,6) by auto
  define d1 where "d1 = (f_call (FOpen ?a False) d)\<lparr>d_names := (d_names d)(?a \<mapsto> d_next d),
    d_data := (d_data d)(d_next d := []), d_next := Suc (d_next d)\<rparr>"
  have o: "openOfstream S ?a False d = (Some (d_next d), d1)"
    using assms(1,3) by (simp add: openOfstream_def Let_def d1_def)
  let ?w1 = "orb_call (PoaActivate INSPOA ''omniEvents'' self) (w\<lparr>w_log := Some [], w_checkpoint := True\<rparr>)"
  have f: "EventChannelFactory_i E self ecf (w\<lparr>w_log := Some [], w_checkpoint := True\<rparr>) = (None, ?sv, ?w1)"
    using b assms(9) by (simp add: EventChannelFactory_i_def then_do_def activateObjectWithId_def Let_def)
  have lg: "w_log ?w1 = Some []" by (simp add: orb_call_def)
  define st where "st = \<lparr>lg_stream = d_next d, lg_base = [], lg_disk = d1, lg_service = ?sv, lg_world = ?w1,
    lg_locked = False, lg_first = True\<rparr>"
  have inc: "fst (incarnateFactory S E N self (bootstrap port (Some ep)) (d, w)) = Inr st"
    by (simp add: incarnateFactory_def o b(1) f lg st_def d1_def fun_upd_idem)
  let ?st1 = "st\<lparr>lg_first := False, lg_locked := True\<rparr>"
  have sound: "log_sound N [] (lg_disk ?st1)" "service_sound E (lg_service ?st1)" "sv_port (lg_service ?st1) \<noteq> 0"
  proof -
    show "log_sound N [] (lg_disk ?st1)" using assms(2,4) by (auto simp: log_sound_def st_def d1_def names_ok_def)
    show "service_sound E (lg_service ?st1)" using assms(7,8) by (simp add: service_sound_def st_def stored_def List.map_filter_def)
    have "(word_of_int port :: ulong) \<noteq> 0" using assms(5,6) by (simp add: word_of_int_eq_0_iff zdvd_not_zless)
    then show "sv_port (lg_service ?st1) \<noteq> 0" by (simp add: st_def)
  qed
  obtain st' T where r: "(ck_step S E N ^^ 8) (CkPrepare, ?st1) = (CkIdle, st')" "log_parse N (lg_disk st') = Inr T"
    "\<forall>p. attrs_at p T = state_at (paths (service_recs E (lg_service ?st1))) p"
    using ck_restart [OF assms(1,2) sound] by blast
  have recs: "service_recs E (lg_service ?st1) = [(''ecf'', ecf_attrs ?sv)]"
    by (simp add: service_recs_def st_def stored_def List.map_filter_def)
  have "prefix p [''ecf''] \<longleftrightarrow> p = [] \<or> p = [''ecf'']" for p by (cases p) auto
  then have T: "attrs_at p T = (if p = [''ecf''] then Some (ecf_attrs ?sv) else if p = [] then Some [] else None)" for p
    unfolding r(3) [rule_format] recs by (simp add: split_ecf state_at_def)
  show ?thesis
    using inc r(1,2) T by (intro exI [of _ st] exI [of _ ?st1] exI [of _ st'] exI [of _ T]) (simp add: ck_begin_def st_def)
qed

end
