(* ===== verification/Daemon_Unix.thy ===== *)
theory Daemon_Unix
  imports Persist_Node Corba_Orb "HOL-Library.Sublist"
begin

text \<open>
  \<^verbatim>\<open>daemon.h\<close>, \<^verbatim>\<open>daemon_unix.h\<close> and \<^verbatim>\<open>daemon_unix.cc\<close>: the program as a daemon. The state is that of
  the child process; the parent only waits for the status that the child writes to the pipe.
  What the operating system answers comes from a parameter, from the calls made so far. The
  platform is one with \<^verbatim>\<open>LOG_PERROR\<close> and with omniORB 4; whether it has \<^verbatim>\<open>on_exit\<close> is a
  parameter too.
\<close>

section \<open>State\<close>

datatype dcall =
    DOnExit | DPipe | DFork | DSetsid | DStat string | DKill int | DWritePid string | DUnlink string
  | DChdir | DOpen string | DNotify int

datatype errno = ENOENT | ESRCH | EOther nat

record dos =
  dp_fails :: "dcall list \<Rightarrow> dcall \<Rightarrow> bool"
  dp_errno :: "dcall list \<Rightarrow> errno"
  dp_regular :: "string \<Rightarrow> bool"
  dp_getpid :: int
  dp_has_on_exit :: bool

record daemon =
  dm_tracefile :: "string option"
  dm_foreground :: bool
  dm_pidfile :: "string option"
  dm_havePidfile :: bool
  dm_haveParent :: bool
  dm_haveSyslog :: bool
  dm_handler :: bool
  dm_files :: "string \<Rightarrow> string option"
  dm_pipe :: "int list"
  dm_streams :: "string option"
  dm_calls :: "dcall list"

definition Daemon :: "(string \<Rightarrow> string option) \<Rightarrow> daemon" where
  "Daemon files = \<lparr>dm_tracefile = None, dm_foreground = False, dm_pidfile = None, dm_havePidfile = False,
     dm_haveParent = False, dm_haveSyslog = False, dm_handler = False, dm_files = files, dm_pipe = [],
     dm_streams = None, dm_calls = []\<rparr>"

definition tracefile :: "string \<Rightarrow> daemon \<Rightarrow> daemon" where
  "tracefile val st = st\<lparr>dm_tracefile := Some val\<rparr>"

definition foreground :: "bool \<Rightarrow> daemon \<Rightarrow> daemon" where
  "foreground val st = st\<lparr>dm_foreground := val\<rparr>"

text \<open>The first character of an empty name is the terminator.\<close>

definition pidfile :: "string \<Rightarrow> daemon \<Rightarrow> daemon" where
  "pidfile val st = st\<lparr>dm_pidfile := Some (if val = [] \<or> hd val \<noteq> CHR ''/'' then ''/var/run/'' @ val else val)\<rparr>"

definition d_call :: "dcall \<Rightarrow> daemon \<Rightarrow> daemon" where
  "d_call c st = st\<lparr>dm_calls := dm_calls st @ [c]\<rparr>"

text \<open>A call whose failure ends the process with status -1.\<close>

definition d_must :: "dos \<Rightarrow> dcall \<Rightarrow> daemon \<Rightarrow> exn option \<times> daemon" where
  "d_must D c st = (if dp_fails D (dm_calls st) c then Some (ProcessExit (-1)) else None, d_call c st)"

section \<open>Operations\<close>

text \<open>\<^verbatim>\<open>openFileFor\<close> for standard input, output and error.\<close>

definition redirectStreamsTo :: "dos \<Rightarrow> string \<Rightarrow> daemon \<Rightarrow> exn option \<times> daemon" where
  "redirectStreamsTo D filename st =
     then_do (then_do (then_do (d_must D (DOpen ''/dev/null'') st) (d_must D (DOpen filename))) (d_must D (DOpen filename)))
       (\<lambda>st1. (None, st1\<lparr>dm_streams := Some filename\<rparr>))"

text \<open>\<^verbatim>\<open>infile>>pidFromFile\<close>: a number in the range of \<^verbatim>\<open>pid_t\<close>, or 0 if there is none.\<close>

definition read_pid :: "string \<Rightarrow> int" where
  "read_pid s = max (- (2 ^ 31)) (min (2 ^ 31 - 1) (c_atol s))"

definition checkPidfileOrShutdown :: "dos \<Rightarrow> daemon \<Rightarrow> exn option \<times> daemon" where
  "checkPidfileOrShutdown D st = (case dm_pidfile st of None \<Rightarrow> (None, st) | Some f \<Rightarrow>
     (let st1 = d_call (DStat f) st;
          fails = dp_fails D (dm_calls st) (DStat f) \<or> dm_files st f = None
      in if fails \<and> dp_errno D (dm_calls st1) \<noteq> ENOENT then (Some (ProcessExit (-1)), st1)
         else if \<not> fails \<and> \<not> dp_regular D f then (Some (ProcessExit (-1)), st1)
         else let pidFromFile = (if fails then 0 else read_pid (the (dm_files st f)))
              in if 0 < pidFromFile
                 then let st2 = d_call (DKill pidFromFile) st1
                      in if \<not> dp_fails D (dm_calls st1) (DKill pidFromFile) then (Some (ProcessExit (-1)), st2)
                         else if dp_errno D (dm_calls st2) \<noteq> ESRCH then (Some (ProcessExit (-1)), st2)
                         else (None, st2)
                 else (None, st1)))"

text \<open>The stream throws no exception: a pidfile that cannot be written goes unnoticed.\<close>

definition writePidfile :: "dos \<Rightarrow> daemon \<Rightarrow> daemon" where
  "writePidfile D st = (case dm_pidfile st of None \<Rightarrow> st | Some f \<Rightarrow>
     (let st1 = (d_call (DWritePid f) st)\<lparr>dm_havePidfile := True\<rparr>
      in if dp_fails D (dm_calls st) (DWritePid f) then st1
         else st1\<lparr>dm_files := (dm_files st)(f \<mapsto> show_int (dp_getpid D) @ nl)\<rparr>))"

text \<open>\<^verbatim>\<open>fork()\<close>, as the child sees it.\<close>

definition daemon_fork :: "dos \<Rightarrow> daemon \<Rightarrow> exn option \<times> daemon" where
  "daemon_fork D st =
     then_do (d_must D DPipe st) (\<lambda>st1. then_do (d_must D DFork st1) (\<lambda>st2.
       d_must D DSetsid (st2\<lparr>dm_haveParent := True\<rparr>)))"

definition daemon_streams :: "dos \<Rightarrow> daemon \<Rightarrow> exn option \<times> daemon" where
  "daemon_streams D st = (case dm_tracefile st of
      Some (c # cs) \<Rightarrow> redirectStreamsTo D (c # cs) st
    | _ \<Rightarrow> (None, st\<lparr>dm_haveSyslog := True\<rparr>))"

definition daemonize :: "dos \<Rightarrow> daemon \<Rightarrow> exn option \<times> daemon" where
  "daemonize D st =
     then_do (d_must D DOnExit st) (\<lambda>st0.
       let st1 = st0\<lparr>dm_handler := True\<rparr>
       in then_do (if dm_foreground st1 then (None, st1) else daemon_fork D st1) (\<lambda>st2.
            then_do (checkPidfileOrShutdown D st2) (\<lambda>st3.
              then_do (d_must D DChdir (writePidfile D st3)) (daemon_streams D))))"

definition notifyParent :: "dos \<Rightarrow> int \<Rightarrow> daemon \<Rightarrow> daemon" where
  "notifyParent D status st =
     (if dp_fails D (dm_calls st) (DNotify status) then d_call (DNotify status) st
      else (d_call (DNotify status) st)\<lparr>dm_pipe := dm_pipe st @ [status]\<rparr>)"

definition tell_parent :: "dos \<Rightarrow> int \<Rightarrow> daemon \<Rightarrow> daemon" where
  "tell_parent D status st = (if dm_haveParent st then notifyParent D status (st\<lparr>dm_haveParent := False\<rparr>) else st)"

definition runningOk :: "dos \<Rightarrow> daemon \<Rightarrow> exn option \<times> daemon" where
  "runningOk D st =
     (let st1 = tell_parent D 0 st
      in if dm_haveSyslog st1 then redirectStreamsTo D ''/dev/null'' st1 else (None, st1))"

definition remove_pidfile :: "dos \<Rightarrow> int \<Rightarrow> daemon \<Rightarrow> int \<times> daemon" where
  "remove_pidfile D status st = (case (dm_havePidfile st, dm_pidfile st) of
      (True, Some f) \<Rightarrow>
        (if dp_fails D (dm_calls st) (DUnlink f) \<or> dm_files st f = None then (-1, (d_call (DUnlink f) st)\<lparr>dm_havePidfile := False\<rparr>)
         else (status, (d_call (DUnlink f) st)\<lparr>dm_files := (dm_files st)(f := None), dm_havePidfile := False\<rparr>))
    | _ \<Rightarrow> (status, st\<lparr>dm_havePidfile := False\<rparr>))"

definition daemon_shutdown :: "dos \<Rightarrow> int \<Rightarrow> daemon \<Rightarrow> daemon" where
  "daemon_shutdown D status st =
     (case remove_pidfile D status st of (status1, st1) \<Rightarrow> tell_parent D status1 (st1\<lparr>dm_haveSyslog := False\<rparr>))"

text \<open>
  The ends of the process: \<^verbatim>\<open>exit(n)\<close> runs the handler, with the status where there is
  \<^verbatim>\<open>on_exit\<close>; a return from \<^verbatim>\<open>main\<close> destroys the object \<^verbatim>\<open>daemon\<close> of \<^verbatim>\<open>main\<close> first; a signal
  runs nothing.
\<close>

datatype ending = Exits int | Returns int | Killed

definition exit_handler :: "dos \<Rightarrow> int \<Rightarrow> daemon \<Rightarrow> daemon" where
  "exit_handler D n st = (if dm_handler st then daemon_shutdown D (if dp_has_on_exit D then n else 0) st else st)"

fun daemon_end :: "dos \<Rightarrow> ending \<Rightarrow> daemon \<Rightarrow> daemon" where
  "daemon_end D (Exits n) st = exit_handler D n st"
| "daemon_end D (Returns n) st = exit_handler D n (daemon_shutdown D 0 st)"
| "daemon_end D Killed st = st"

text \<open>The parent: it exits with what it reads from the pipe, or with -1 if the pipe is closed.\<close>

definition waitForChild :: "int list \<Rightarrow> int" where
  "waitForChild pipe = (case pipe of [] \<Rightarrow> -1 | s # _ \<Rightarrow> s)"

section \<open>The log function\<close>

datatype syslog_priority = LOG_INFO | LOG_ERR

fun log_prefix :: "string \<Rightarrow> string \<Rightarrow> string option" where
  "log_prefix (m # ms) (p # ps) =
     (if m = p \<or> p = CHR '':'' then if ps = [] then Some ms else log_prefix ms ps else None)"
| "log_prefix _ _ = None"

definition daemon_log :: "string \<Rightarrow> syslog_priority \<times> string" where
  "daemon_log message = (case log_prefix message ''omniEvents: '' of
      None \<Rightarrow> (LOG_INFO, message)
    | Some mPos \<Rightarrow>
        (if message ! 10 = CHR ''!'' then (LOG_ERR, mPos)
         else if message ! 10 = CHR '':'' then (LOG_INFO, mPos)
         else (LOG_INFO, message)))"

lemma log_prefix_match:
  "ps \<noteq> [] \<Longrightarrow> log_prefix m ps =
     (if list_all2 (\<lambda>x p. x = p \<or> p = CHR '':'') (take (length ps) m) ps then Some (drop (length ps) m) else None)"
proof (induction m ps rule: log_prefix.induct)
  case (1 m ms p ps)
  then show ?case by (cases "ps = []") auto
qed simp_all

lemma log_prefix_text:
  "log_prefix m ''omniEvents: '' = Some t \<longleftrightarrow> (\<exists>x. m = ''omniEvents'' @ x # CHR '' '' # t)"
proof
  assume "log_prefix m ''omniEvents: '' = Some t"
  moreover have "length ''omniEvents: '' = 12" by simp
  ultimately have l: "list_all2 (\<lambda>x p. x = p \<or> p = CHR '':'') (take 12 m) ''omniEvents: ''" and t: "t = drop 12 m"
    using log_prefix_match [of "''omniEvents: ''" m] by (metis list.discI option.distinct(1) option.inject)+
  from l obtain x where "take 12 m = ''omniEvents'' @ [x, CHR '' '']" by (auto simp: list_all2_Cons2)
  then have "m = (''omniEvents'' @ [x, CHR '' '']) @ drop 12 m" by (metis append_take_drop_id)
  then show "\<exists>x. m = ''omniEvents'' @ x # CHR '' '' # t" using t by auto
qed auto

text \<open>
  The log function: a message is stripped of the name of the program, a colon or an
  exclamation mark, and a blank, exactly if it starts with these, and it is an error exactly if
  the mark is an exclamation mark; any other message is sent whole, as information.
\<close>

lemma daemon_log_strips:
  "daemon_log message = (if prefix ''omniEvents: '' message then (LOG_INFO, drop 12 message)
     else if prefix ''omniEvents! '' message then (LOG_ERR, drop 12 message) else (LOG_INFO, message))"
proof (cases "log_prefix message ''omniEvents: ''")
  case None
  have "\<not> prefix (''omniEvents'' @ [x, CHR '' '']) message" for x
  proof
    assume "prefix (''omniEvents'' @ [x, CHR '' '']) message"
    then obtain t where "message = ''omniEvents'' @ x # CHR '' '' # t" by (auto simp: prefix_def)
    then show False using None log_prefix_text [of message t] by auto
  qed
  from this [of "CHR '':''"] this [of "CHR ''!''"] show ?thesis by (simp add: daemon_log_def None)
next
  case (Some t)
  then obtain x where m: "message = ''omniEvents'' @ x # CHR '' '' # t" using log_prefix_text by blast
  show ?thesis unfolding daemon_log_def Some unfolding m by auto
qed

section \<open>What the parent is told\<close>

text \<open>The calls that only fail where a disk or a pipe fails.\<close>

definition files_work :: "dos \<Rightarrow> bool" where
  "files_work D \<longleftrightarrow> (\<forall>cs f n. \<not> dp_fails D cs (DUnlink f) \<and> \<not> dp_fails D cs (DWritePid f) \<and> \<not> dp_fails D cs (DNotify n))"

definition daemon_fresh :: "daemon \<Rightarrow> bool" where
  "daemon_fresh st \<longleftrightarrow> \<not> dm_havePidfile st \<and> \<not> dm_haveParent st \<and> \<not> dm_handler st \<and> dm_pipe st = []"

text \<open>The child after the fork, before it has told its parent anything.\<close>

definition child_ok :: "daemon \<Rightarrow> bool" where
  "child_ok st \<longleftrightarrow> dm_haveParent st \<and> dm_handler st \<and> dm_pipe st = [] \<and>
     (dm_havePidfile st \<longrightarrow> (\<exists>f. dm_pidfile st = Some f \<and> dm_files st f \<noteq> None))"

named_theorems daemon_ops "the definitions of the operations of the daemon"

lemmas [daemon_ops] = d_must_def d_call_def then_do_def Let_def

lemma redirect_keeps:
  "redirectStreamsTo D f st = (ex, st1) \<Longrightarrow> dm_haveParent st1 = dm_haveParent st \<and> dm_handler st1 = dm_handler st \<and>
     dm_pipe st1 = dm_pipe st \<and> dm_havePidfile st1 = dm_havePidfile st \<and> dm_pidfile st1 = dm_pidfile st \<and>
     dm_files st1 = dm_files st \<and> dm_haveSyslog st1 = dm_haveSyslog st"
  by (auto simp: redirectStreamsTo_def daemon_ops split: if_splits)

lemma check_keeps:
  "checkPidfileOrShutdown D st = (ex, st1) \<Longrightarrow> dm_haveParent st1 = dm_haveParent st \<and> dm_handler st1 = dm_handler st \<and>
     dm_pipe st1 = dm_pipe st \<and> dm_havePidfile st1 = dm_havePidfile st \<and> dm_pidfile st1 = dm_pidfile st \<and>
     dm_files st1 = dm_files st"
  by (auto simp: checkPidfileOrShutdown_def daemon_ops split: option.splits if_splits)

lemma streams_keep:
  "daemon_streams D st = (ex, st1) \<Longrightarrow> dm_haveParent st1 = dm_haveParent st \<and> dm_handler st1 = dm_handler st \<and>
     dm_pipe st1 = dm_pipe st \<and> dm_havePidfile st1 = dm_havePidfile st \<and> dm_pidfile st1 = dm_pidfile st \<and>
     dm_files st1 = dm_files st"
  by (auto simp: daemon_streams_def dest: redirect_keeps split: option.splits list.splits)

lemma then_do_SomeE:
  assumes "then_do r f = (ex, s)"
  obtains e where "r = (Some e, s)" "ex = Some e" | t where "r = (None, t)" "f t = (ex, s)"
  using assms by (cases r; cases "fst r") auto

lemma fork_child:
  "daemon_fork D st = (None, st1) \<Longrightarrow> dm_haveParent st1 \<and> dm_handler st1 = dm_handler st \<and> dm_pipe st1 = dm_pipe st \<and>
     dm_havePidfile st1 = dm_havePidfile st \<and> dm_pidfile st1 = dm_pidfile st \<and> dm_files st1 = dm_files st"
  by (auto simp: daemon_fork_def daemon_ops split: if_splits)

lemma daemonize_None:
  assumes "daemonize D st = (None, st1)" and "daemon_fresh st"
  shows "dm_handler st1 \<and> dm_pipe st1 = [] \<and> dm_pidfile st1 = dm_pidfile st \<and> dm_haveParent st1 = (\<not> dm_foreground st) \<and>
    (dm_havePidfile st1 \<longleftrightarrow> dm_pidfile st \<noteq> None) \<and>
    (files_work D \<longrightarrow> dm_files st1 = (case dm_pidfile st of None \<Rightarrow> dm_files st
       | Some f \<Rightarrow> (dm_files st)(f \<mapsto> show_int (dp_getpid D) @ nl)))"
proof -
  let ?st1 = "(d_call DOnExit st)\<lparr>dm_handler := True\<rparr>"
  from assms(1) obtain st2 st3 st4 where
    s: "(if dm_foreground st then (None, ?st1) else daemon_fork D ?st1) = (None, st2)"
    "checkPidfileOrShutdown D st2 = (None, st3)" "d_must D DChdir (writePidfile D st3) = (None, st4)"
    "daemon_streams D st4 = (None, st1)"
    by (auto simp: daemonize_def Let_def d_must_def [of D DOnExit] d_call_def split: if_splits elim!: then_do_SomeE)
  have f: "dm_haveParent st2 = (\<not> dm_foreground st) \<and> dm_handler st2 \<and> dm_pipe st2 = [] \<and> \<not> dm_havePidfile st2 \<and>
      dm_pidfile st2 = dm_pidfile st \<and> dm_files st2 = dm_files st"
    using s(1) assms(2) fork_child [of D ?st1 st2] by (auto simp: daemon_fresh_def d_call_def split: if_splits)
  have w: "st4 = d_call DChdir (writePidfile D st3)" using s(3) by (auto simp: d_must_def split: if_splits)
  show ?thesis using f check_keeps [OF s(2)] streams_keep [OF s(4)] unfolding w
    by (auto simp: writePidfile_def d_call_def files_work_def Let_def split: option.splits)
qed

lemma remove_pidfile_ok:
  assumes "files_work D" and "dm_havePidfile st \<longrightarrow> (\<exists>f. dm_pidfile st = Some f \<and> dm_files st f \<noteq> None)"
    and "remove_pidfile D n st = (m, st1)"
  shows "m = n \<and> dm_haveParent st1 = dm_haveParent st \<and> dm_pipe st1 = dm_pipe st \<and> dm_handler st1 = dm_handler st \<and>
    \<not> dm_havePidfile st1 \<and> dm_pidfile st1 = dm_pidfile st \<and> dm_files st1 = (case dm_pidfile st of
      Some f \<Rightarrow> if dm_havePidfile st then (dm_files st)(f := None) else dm_files st | None \<Rightarrow> dm_files st)"
  using assms by (auto simp: remove_pidfile_def files_work_def d_call_def split: bool.splits option.splits if_splits)

lemma shutdown_tells:
  assumes "files_work D" and "dm_havePidfile st \<longrightarrow> (\<exists>f. dm_pidfile st = Some f \<and> dm_files st f \<noteq> None)"
  shows "dm_pipe (daemon_shutdown D n st) = dm_pipe st @ (if dm_haveParent st then [n] else []) \<and>
    \<not> dm_haveParent (daemon_shutdown D n st) \<and> \<not> dm_havePidfile (daemon_shutdown D n st) \<and>
    dm_handler (daemon_shutdown D n st) = dm_handler st \<and>
    dm_files (daemon_shutdown D n st) = (case dm_pidfile st of
      Some f \<Rightarrow> if dm_havePidfile st then (dm_files st)(f := None) else dm_files st | None \<Rightarrow> dm_files st)"
proof -
  obtain m st1 where r: "remove_pidfile D n st = (m, st1)" by force
  show ?thesis using remove_pidfile_ok [OF assms r] assms(1)
    by (simp add: daemon_shutdown_def r tell_parent_def notifyParent_def files_work_def d_call_def)
qed

text \<open>
  What the parent is told. After a successful fork the parent exits with the status of the
  child's \<^verbatim>\<open>exit()\<close>, where there is \<^verbatim>\<open>on_exit\<close>; with 0 once the child has called \<^verbatim>\<open>runningOk()\<close>,
  whatever happens later; with -1 if the child is killed before. But it also exits with 0 if
  \<^verbatim>\<open>main\<close> returns after a failed start, with whatever status, since the destructor of \<^verbatim>\<open>Daemon\<close>
  runs first and reports 0; and where there is no \<^verbatim>\<open>on_exit\<close>, after every \<^verbatim>\<open>exit()\<close>.
\<close>

lemma start_reported:
  assumes "daemon_fresh st" and "\<not> dm_foreground st" and "daemonize D st = (None, st1)" and "files_work D"
  shows "waitForChild (dm_pipe (daemon_end D (Exits n) st1)) = (if dp_has_on_exit D then n else 0) \<and>
    waitForChild (dm_pipe (daemon_end D (Returns n) st1)) = 0 \<and>
    waitForChild (dm_pipe (daemon_end D Killed st1)) = -1 \<and>
    (\<forall>e. waitForChild (dm_pipe (daemon_end D e (snd (runningOk D st1)))) = 0)"
proof -
  have st1: "dm_handler st1" "dm_pipe st1 = []" "dm_haveParent st1"
    "dm_havePidfile st1 \<longrightarrow> (\<exists>f. dm_pidfile st1 = Some f \<and> dm_files st1 f \<noteq> None)"
    using daemonize_None [OF assms(3,1)] assms(2,4) by auto
  have sd: "dm_pipe (daemon_shutdown D k st1) = [k]" "dm_handler (daemon_shutdown D k st1)"
    "\<not> dm_haveParent (daemon_shutdown D k st1)" "\<not> dm_havePidfile (daemon_shutdown D k st1)" for k
    using shutdown_tells [OF assms(4) st1(4), of k] st1 by auto
  have again: "dm_pipe (daemon_shutdown D k (daemon_shutdown D 0 st1)) = [0]" for k
    using shutdown_tells [OF assms(4), of "daemon_shutdown D 0 st1" k] sd by simp
  let ?r = "snd (runningOk D st1)"
  have r: "dm_pipe ?r = [0] \<and> \<not> dm_haveParent ?r \<and> dm_handler ?r \<and>
      (dm_havePidfile ?r \<longrightarrow> (\<exists>f. dm_pidfile ?r = Some f \<and> dm_files ?r f \<noteq> None))"
  proof -
    define t where "t = tell_parent D 0 st1"
    have "dm_pipe t = [0] \<and> \<not> dm_haveParent t \<and> dm_handler t \<and> dm_havePidfile t = dm_havePidfile st1 \<and>
        dm_pidfile t = dm_pidfile st1 \<and> dm_files t = dm_files st1"
      using st1 assms(4) by (simp add: t_def tell_parent_def notifyParent_def files_work_def d_call_def)
    moreover have "runningOk D st1 = (if dm_haveSyslog t then redirectStreamsTo D ''/dev/null'' t else (None, t))"
      by (simp add: runningOk_def t_def Let_def)
    ultimately show ?thesis using st1(4) redirect_keeps [of D "''/dev/null''" t "fst (runningOk D st1)" ?r]
      by (cases "dm_haveSyslog t") auto
  qed
  have rs: "dm_pipe (daemon_shutdown D k ?r) = [0]" "\<not> dm_haveParent (daemon_shutdown D k ?r)"
    "\<not> dm_havePidfile (daemon_shutdown D k ?r)" for k
    using shutdown_tells [OF assms(4), of ?r k] r by auto
  have rr: "dm_pipe (daemon_shutdown D k (daemon_shutdown D 0 ?r)) = [0]" for k
    using shutdown_tells [OF assms(4), of "daemon_shutdown D 0 ?r" k] rs by simp
  have "waitForChild (dm_pipe (daemon_end D e ?r)) = 0" for e
    using rs rr r sd by (cases e) (simp_all add: exit_handler_def waitForChild_def)
  then show ?thesis using st1 sd again by (simp add: exit_handler_def waitForChild_def)
qed

definition demo_os :: "bool \<Rightarrow> dos" where
  "demo_os running = \<lparr>dp_fails = (\<lambda>cs c. case c of DKill _ \<Rightarrow> \<not> running | _ \<Rightarrow> False),
     dp_errno = (\<lambda>cs. if cs = [] then ENOENT else case last cs of DKill _ \<Rightarrow> ESRCH | _ \<Rightarrow> ENOENT),
     dp_regular = (\<lambda>_. True), dp_getpid = 77, dp_has_on_exit = True\<rparr>"

section \<open>The pidfile\<close>

lemma atol_line: "s \<noteq> [] \<Longrightarrow> \<forall>c \<in> set s. \<not> c_space c \<Longrightarrow> c_atol (s @ nl) = c_atol s"
proof -
  assume s: "s \<noteq> []" "\<forall>c \<in> set s. \<not> c_space c"
  then have d: "dropWhile c_space (s @ nl) = s @ nl" "dropWhile c_space s = s" by (cases s; simp)+
  have "\<not> is_dec (CHR 0x0A)" by (simp add: is_dec_def)
  then have t: "takeWhile is_dec (u @ nl) = takeWhile is_dec u" for u by (induction u) (simp_all add: nl_def)
  show ?thesis unfolding c_atol_def Let_def d using s(1) by (simp add: t)
qed

lemma read_own_pid: "0 < p \<Longrightarrow> p < 2 ^ 31 \<Longrightarrow> read_pid (show_int p @ nl) = p"
proof -
  assume p: "0 < p" "p < 2 ^ 31"
  have "show_int p \<noteq> []" by (simp add: show_int_def)
  then have "c_atol (show_int p @ nl) = c_atol (show_int p)" using atol_line show_int_no_space by blast
  also have "\<dots> = p" using p by (intro atol_show_int) (simp_all add: long_min_def long_max_def)
  finally show ?thesis using p by (simp add: read_pid_def)
qed

text \<open>A process that runs under the pidfile's number stops the start before the file is touched.\<close>

lemma check_running:
  assumes "dm_pidfile st = Some f" and "dm_files st f = Some s" and "\<forall>cs. \<not> dp_fails D cs (DStat f)"
    and "dp_regular D f" and "0 < read_pid s" and "\<forall>cs. \<not> dp_fails D cs (DKill (read_pid s))"
  shows "fst (checkPidfileOrShutdown D st) = Some (ProcessExit (-1))"
  using assms by (simp add: checkPidfileOrShutdown_def Let_def)

lemma fork_any:
  "daemon_fork D st = (ex, st1) \<Longrightarrow> dm_handler st1 = dm_handler st \<and> dm_pidfile st1 = dm_pidfile st \<and>
     dm_files st1 = dm_files st \<and> dm_havePidfile st1 = dm_havePidfile st"
  by (auto simp: daemon_fork_def daemon_ops split: if_splits)

lemma exit_keeps_files: "\<not> dm_havePidfile st \<Longrightarrow> dm_files (exit_handler D n st) = dm_files st"
  by (auto simp: exit_handler_def daemon_shutdown_def remove_pidfile_def tell_parent_def notifyParent_def d_call_def)

text \<open>
  C27. The pidfile. If it names a process that runs, then \<^verbatim>\<open>daemonize()\<close> ends the process and
  the pidfile of the other process is as it was, also after the exit handler. If \<^verbatim>\<open>daemonize()\<close>
  returns, then the pidfile holds the number of this process, for the next start to read, and
  it is gone when the process has returned from \<^verbatim>\<open>main\<close> or called \<^verbatim>\<open>exit()\<close>; no other file is
  changed.
\<close>

theorem pidfile_guards:
  assumes "daemon_fresh st" and "dm_pidfile st = Some f" and "files_work D"
    and "0 < dp_getpid D" and "dp_getpid D < 2 ^ 31" and "e \<noteq> Killed"
  shows "(dp_regular D f \<and> (\<forall>cs. \<not> dp_fails D cs (DStat f)) \<and> (\<exists>s. dm_files st f = Some s \<and> 0 < read_pid s \<and>
        (\<forall>cs. \<not> dp_fails D cs (DKill (read_pid s)))) \<longrightarrow>
      (\<exists>st1. daemonize D st = (Some (ProcessExit (-1)), st1) \<and> dm_files (daemon_end D (Exits (-1)) st1) = dm_files st)) \<and>
    (\<forall>st1. daemonize D st = (None, st1) \<longrightarrow>
      map_option read_pid (dm_files st1 f) = Some (dp_getpid D) \<and>
      dm_files (daemon_end D e st1) = (dm_files st)(f := None))"
proof (intro conjI impI allI)
  assume h: "dp_regular D f \<and> (\<forall>cs. \<not> dp_fails D cs (DStat f)) \<and> (\<exists>s. dm_files st f = Some s \<and> 0 < read_pid s \<and>
        (\<forall>cs. \<not> dp_fails D cs (DKill (read_pid s))))"
  let ?st0 = "d_call DOnExit st" and ?st1 = "(d_call DOnExit st)\<lparr>dm_handler := True\<rparr>"
  obtain ex2 st2 where 2: "(if dm_foreground st then (None, ?st1) else daemon_fork D ?st1) = (ex2, st2)" by force
  have f2: "dm_pidfile st2 = Some f" "dm_files st2 = dm_files st" "\<not> dm_havePidfile st2" "ex2 = None \<or> ex2 = Some (ProcessExit (-1))"
    using 2 assms(1,2) fork_any [of D ?st1 ex2 st2]
    by (auto simp: daemon_fresh_def d_call_def daemon_fork_def d_must_def then_do_def split: if_splits)
  obtain ex3 st3 where 3: "checkPidfileOrShutdown D st2 = (ex3, st3)" by force
  then have 4: "ex3 = Some (ProcessExit (-1))" "dm_files st3 = dm_files st" "\<not> dm_havePidfile st3"
    using h f2 check_keeps [OF 3] check_running [of st2 f _ D] by auto
  have "\<exists>st1. daemonize D st = (Some (ProcessExit (-1)), st1) \<and> dm_files st1 = dm_files st \<and> \<not> dm_havePidfile st1"
  proof (cases "dp_fails D (dm_calls st) DOnExit")
    case True
    then show ?thesis using assms(1) by (simp add: daemonize_def d_must_def then_do_def d_call_def daemon_fresh_def)
  next
    case False
    then show ?thesis using 2 3 4 f2
      by (auto simp: daemonize_def d_must_def [of D DOnExit] then_do_def d_call_def Let_def)
  qed
  then obtain st1 where "daemonize D st = (Some (ProcessExit (-1)), st1)" "dm_files st1 = dm_files st" "\<not> dm_havePidfile st1" by blast
  then show "\<exists>st1. daemonize D st = (Some (ProcessExit (-1)), st1) \<and> dm_files (daemon_end D (Exits (-1)) st1) = dm_files st"
    by (simp add: exit_keeps_files)
next
  fix st1
  assume d: "daemonize D st = (None, st1)"
  note n = daemonize_None [OF d assms(1)]
  have files: "dm_files st1 = (dm_files st)(f \<mapsto> show_int (dp_getpid D) @ nl)" and hv: "dm_havePidfile st1" "dm_pidfile st1 = Some f"
    using n assms(2,3) by auto
  show "map_option read_pid (dm_files st1 f) = Some (dp_getpid D)" using files read_own_pid assms(4,5) by simp
  have sd: "dm_files (daemon_shutdown D k st1) = (dm_files st)(f := None)" "\<not> dm_havePidfile (daemon_shutdown D k st1)" for k
    using shutdown_tells [OF assms(3), of st1 k] hv files by auto
  show "dm_files (daemon_end D e st1) = (dm_files st)(f := None)"
    using assms(6) n sd by (cases e) (simp_all add: exit_keeps_files exit_handler_def [of D _ st1])
qed

theorem pidfile_guards_witness:
  "(let st = (pidfile ''x.pid'' (Daemon [''/var/run/x.pid'' \<mapsto> ''12'']))
    in \<exists>st1. daemonize (demo_os True) st = (Some (ProcessExit (-1)), st1) \<and>
       dm_files (daemon_end (demo_os True) (Exits (-1)) st1) ''/var/run/x.pid'' = Some ''12'')"
proof -
  let ?st = "pidfile ''x.pid'' (Daemon [''/var/run/x.pid'' \<mapsto> ''12''])"
  have p: "dm_pidfile ?st = Some ''/var/run/x.pid''" "dm_files ?st = [''/var/run/x.pid'' \<mapsto> ''12'']"
    by (simp_all add: pidfile_def Daemon_def)
  have a: "daemon_fresh ?st" "files_work (demo_os True)" "0 < dp_getpid (demo_os True)" "dp_getpid (demo_os True) < 2 ^ 31"
    by (simp_all add: daemon_fresh_def pidfile_def Daemon_def files_work_def demo_os_def)
  have r: "read_pid ''12'' = 12" by code_simp
  have "dp_regular (demo_os True) ''/var/run/x.pid'' \<and> (\<forall>cs. \<not> dp_fails (demo_os True) cs (DStat ''/var/run/x.pid'')) \<and>
      (\<exists>s. dm_files ?st ''/var/run/x.pid'' = Some s \<and> 0 < read_pid s \<and> (\<forall>cs. \<not> dp_fails (demo_os True) cs (DKill (read_pid s))))"
    using p(2) r by (simp add: demo_os_def)
  with pidfile_guards [OF a(1) p(1) a(2-4), of "Exits 0", THEN conjunct1] p(2) show ?thesis by auto
qed

end
