(* ===== verification/Omni_Main.thy ===== *)
theory Omni_Main
  imports Omni_Events_Log Iterator_GC Naming Daemon_Unix Getopt
begin

text \<open>
  \<^verbatim>\<open>main.cc\<close> and \<^verbatim>\<open>omniEvents.cc\<close>: the options of the program and its start, from the command
  line to the moment where the service runs. It puts the other parts together: the daemon, the
  logfile, the factory, and the naming service.
\<close>

section \<open>Options\<close>

record options =
  op_endPointNoListen :: "string option"
  op_port :: int
  op_logDir :: "string option"
  op_factoryName :: string
  op_verbose :: bool

definition default_options :: options where
  "default_options = \<lparr>op_endPointNoListen = None, op_port = 0, op_logDir = None,
     op_factoryName = ''EventChannelFactory'', op_verbose = False\<rparr>"

text \<open>\<^verbatim>\<open>usage\<close> prints the help text and ends the process with status 0, also after an error.\<close>

definition usage :: exn where
  "usage = ProcessExit 0"

definition atoi :: "string \<Rightarrow> int" where
  "atoi s = to_int32 (c_atol s)"

definition process_option :: "char \<times> string option \<Rightarrow> options \<times> daemon \<Rightarrow> exn + options \<times> daemon" where
  "process_option co od = (case (co, od) of ((c, optarg), (opts, dm)) \<Rightarrow>
     (if c = CHR ''O'' then Inr od
      else if c = CHR ''a'' then with_optarg optarg (\<lambda>s. Inr (opts\<lparr>op_endPointNoListen := Some s\<rparr>, dm))
      else if c = CHR ''p'' then with_optarg optarg (\<lambda>s.
             if atoi s \<le> 0 then Inl usage else Inr (opts\<lparr>op_port := atoi s\<rparr>, dm))
      else if c = CHR ''l'' then with_optarg optarg (\<lambda>s. Inr (opts\<lparr>op_logDir := Some s\<rparr>, dm))
      else if c = CHR ''P'' then with_optarg optarg (\<lambda>s. Inr (opts, pidfile s dm))
      else if c = CHR ''N'' then with_optarg optarg (\<lambda>s. Inr (opts\<lparr>op_factoryName := s\<rparr>, dm))
      else if c = CHR ''d'' then Inr (opts, foreground True dm)
      else if c = CHR ''f'' then Inr (opts, foreground True dm)
      else if c = CHR ''t'' then with_optarg optarg (\<lambda>s. Inr (opts, tracefile s dm))
      else if c = CHR ''v'' then Inr (opts\<lparr>op_verbose := True\<rparr>, dm)
      else if c = CHR ''V'' then Inl (ProcessExit 0)
      else Inl usage))"

fun process_options :: "(char \<times> string option) list \<Rightarrow> options \<times> daemon \<Rightarrow> exn + options \<times> daemon" where
  "process_options [] od = Inr od"
| "process_options (co # cos) od = (case process_option co od of Inl e \<Rightarrow> Inl e | Inr od1 \<Rightarrow> process_options cos od1)"

section \<open>The initial state\<close>

text \<open>
  The logfile decides if there is one, and an option that contradicts it ends the start. If
  there is none, a backup ends the start too. Only then is a new state made.
\<close>

definition start_state :: "log_names \<Rightarrow> options \<Rightarrow> disk \<Rightarrow> exn + pnode" where
  "start_state N opts d =
     (if fileExists (activeFilename N) d
      then (case log_parse N d of
              Inl e \<Rightarrow> Inl e
            | Inr initialState \<Rightarrow>
                (case child ''ecf'' initialState of
                   None \<Rightarrow> Inl InvalidAccess
                 | Some ecf \<Rightarrow>
                     if op_port opts \<noteq> 0 \<and> op_port opts \<noteq> attrLong ''port'' 0 ecf then Inl (ProcessExit 1)
                     else if op_endPointNoListen opts \<noteq> None \<and>
                             the (op_endPointNoListen opts) \<noteq> attrString ''endPointNoListen'' [] ecf then Inl (ProcessExit 1)
                     else Inr initialState))
      else if fileExists (backupFilename N) d then Inl (ProcessExit 1)
      else Inr (bootstrap (if op_port opts \<noteq> 0 then op_port opts else 11169) (op_endPointNoListen opts)))"

definition start_port :: "options \<Rightarrow> pnode \<Rightarrow> int" where
  "start_port opts initialState = (case child ''ecf'' initialState of
      None \<Rightarrow> 0 | Some ecf \<Rightarrow> to_int32 (attrLong ''port'' (op_port opts) ecf))"

definition start_endPoint :: "pnode \<Rightarrow> string" where
  "start_endPoint initialState = (case child ''ecf'' initialState of
      None \<Rightarrow> [] | Some ecf \<Rightarrow> attrString ''endPointNoListen'' [] ecf)"

section \<open>The ORB\<close>

text \<open>
  \<^verbatim>\<open>resolveInitialReferences\<close>; \<open>None\<close> is a nil reference. The naming service is optional, every
  other failure ends the process. The result is the reference to the naming service.
\<close>

definition resolve_needed :: "(string \<Rightarrow> exn + nat option) \<Rightarrow> string \<Rightarrow> exn + nat" where
  "resolve_needed refs name = (case refs name of
      Inl e \<Rightarrow> Inl e | Inr None \<Rightarrow> Inl OBJECT_NOT_EXIST | Inr (Some r) \<Rightarrow> Inr r)"

definition resolve_optional :: "(string \<Rightarrow> exn + nat option) \<Rightarrow> string \<Rightarrow> exn + nat option" where
  "resolve_optional refs name = (case refs name of
      Inl e \<Rightarrow> if is_corba_exn e then Inr None else Inl e | Inr r \<Rightarrow> Inr r)"

definition resolveInitialReferences :: "(string \<Rightarrow> exn + nat option) \<Rightarrow> exn + naming_context option" where
  "resolveInitialReferences refs =
     (case (case resolve_needed refs ''RootPOA'' of Inl e \<Rightarrow> Inl e | Inr _ \<Rightarrow>
            (case resolve_needed refs ''omniINSPOA'' of Inl e \<Rightarrow> Inl e | Inr _ \<Rightarrow>
            (case resolve_optional refs ''NameService'' of Inl e \<Rightarrow> Inl e | Inr ns \<Rightarrow>
            (case resolve_needed refs ''POACurrent'' of Inl e \<Rightarrow> Inl e | Inr _ \<Rightarrow> Inr ns)))) of
        Inl e \<Rightarrow> Inl (if is_corba_exn e then ProcessExit 1 else e)
      | Inr ns \<Rightarrow> Inr ns)"

text \<open>\<^verbatim>\<open>insertArgs\<close>, for the older ORB: \<open>None\<close> is a slot of the new array that is not yet set.\<close>

definition insertArgs :: "'a list \<Rightarrow> nat \<Rightarrow> nat \<Rightarrow> 'a option list" where
  "insertArgs argv idx nargs = map Some (take idx argv) @ replicate nargs None @ map Some (drop idx argv)"

definition OmniEvents_Orb_bumpTraceLevel :: "int \<Rightarrow> int" where
  "OmniEvents_Orb_bumpTraceLevel traceLevel = (traceLevel + 5) mod 45"

section \<open>The start\<close>

record platform =
  pf_os :: os
  pf_env :: env
  pf_daemon :: dos
  pf_naming :: naming_env
  pf_host :: "string option"
  pf_logdir :: "string option"
  pf_orb_init :: "int \<Rightarrow> string \<Rightarrow> exn option"
  pf_refs :: "string \<Rightarrow> exn + nat option"
  pf_activate :: "exn option"
  pf_factory :: addr
  pf_gc :: addr

record running =
  rn_options :: options
  rn_names :: log_names
  rn_port :: int
  rn_log :: log_state
  rn_naming :: "ns_call list"

definition start_orb :: "platform \<Rightarrow> int \<Rightarrow> string \<Rightarrow> exn + naming_context option" where
  "start_orb P port endPoint =
     (case pf_orb_init P port endPoint of
        Some e \<Rightarrow> Inl e
      | None \<Rightarrow>
          (case resolveInitialReferences (pf_refs P) of
             Inl e \<Rightarrow> Inl e
           | Inr ns \<Rightarrow> (case pf_activate P of Some e \<Rightarrow> Inl e | None \<Rightarrow> Inr ns)))"

text \<open>From the ORB to the entry in the naming service.\<close>

definition start_service :: "platform \<Rightarrow> options \<Rightarrow> log_names \<Rightarrow> pnode \<Rightarrow> disk \<times> world \<Rightarrow> (exn + running) \<times> disk" where
  "start_service P opts N initialState dw =
     (case start_orb P (start_port opts initialState) (start_endPoint initialState) of
        Inl e \<Rightarrow> (Inl e, fst dw)
      | Inr ns \<Rightarrow>
          (case incarnateFactory (pf_os P) (pf_env P) N (pf_factory P) initialState dw of
             (Inl e, d1) \<Rightarrow> (Inl e, d1)
           | (Inr lg, d1) \<Rightarrow>
               (case createGCPOA (pf_env P) RootPOA ''Iterators'' (pf_gc P) (lg_world lg) of
                  (Some e, w1) \<Rightarrow> (Inl e, lg_disk lg)
                | (None, w1) \<Rightarrow>
                    (case str2name (op_factoryName opts) of
                       Inl e \<Rightarrow> (Inl e, lg_disk lg)
                     | Inr name \<Rightarrow>
                         (case bindName2Object (pf_naming P) ns name (env_this (pf_env P) (w_trace w1) (pf_factory P)) [] of
                            (Inl e, tr) \<Rightarrow> (Inl e, lg_disk lg)
                          | (Inr _, tr) \<Rightarrow>
                              (Inr \<lparr>rn_options = opts, rn_names = N, rn_port = start_port opts initialState,
                                 rn_log = lg\<lparr>lg_world := w1\<rparr>, rn_naming = tr\<rparr>, lg_disk lg))))))"

definition main_start :: "platform \<Rightarrow> (char \<times> string option) list \<Rightarrow> daemon \<Rightarrow> disk \<times> world
    \<Rightarrow> (exn + running) \<times> daemon \<times> disk" where
  "main_start P args dm dw =
     (case process_options args (default_options, dm) of
        Inl e \<Rightarrow> (Inl e, dm, fst dw)
      | Inr (opts, dm1) \<Rightarrow>
          (case initializeFileNames (op_logDir opts) (pf_logdir P) (pf_host P) of
             Inl e \<Rightarrow> (Inl e, dm1, fst dw)
           | Inr N \<Rightarrow>
               (case start_state N opts (fst dw) of
                  Inl e \<Rightarrow> (Inl e, dm1, fst dw)
                | Inr initialState \<Rightarrow>
                    (case daemonize (pf_daemon P) dm1 of
                       (Some e, dm2) \<Rightarrow> (Inl e, dm2, fst dw)
                     | (None, dm2) \<Rightarrow>
                         (case start_service P opts N initialState dw of
                            (Inl e, d1) \<Rightarrow> (Inl e, dm2, d1)
                          | (Inr r, d1) \<Rightarrow>
                              (case runningOk (pf_daemon P) dm2 of
                                 (Some e, dm3) \<Rightarrow> (Inl e, dm3, d1)
                               | (None, dm3) \<Rightarrow> (Inr r, dm3, d1)))))))"

text \<open>
  How the process ends after an exception: \<^verbatim>\<open>exit()\<close> as it says; an exception of CORBA is
  caught by \<^verbatim>\<open>main\<close>, which returns 1; anything else aborts.
\<close>

definition main_ending :: "exn \<Rightarrow> ending" where
  "main_ending e = (case e of ProcessExit n \<Rightarrow> Exits n | _ \<Rightarrow> if is_corba_exn e then Returns 1 else Killed)"

section \<open>A restart does not lose the state\<close>

lemma start_state_exists:
  assumes "start_state N opts d = Inr T" and "fileExists (activeFilename N) d"
  shows "log_parse N d = Inr T"
  using assms by (auto simp: start_state_def split: sum.splits option.splits if_splits)

lemma recoverable_start:
  assumes "recoverable N old new d" and "start_state N opts d = Inr T"
  shows "T = parse_text old \<and> log_check old = Inr T \<or> T = parse_text new \<and> log_check new = Inr T"
proof -
  have c: "log_check s = Inr T \<Longrightarrow> T = parse_text s" for s by (auto simp: log_check_def Let_def split: option.splits if_splits)
  show ?thesis
  proof (cases "fileExists (activeFilename N) d")
    case True
    from start_state_exists [OF assms(2) True] assms(1) have "log_check old = Inr T \<or> log_check new = Inr T"
      by (auto simp: log_parse_def recoverable_def)
    then show ?thesis using c by auto
  next
    case False
    then have "fileExists (backupFilename N) d"
      using assms(1) by (auto simp: recoverable_def fileExists_def contents_def)
    then show ?thesis using False assms(2) by (simp add: start_state_def)
  qed
qed

text \<open>
  C26. A restart after a crash. Wherever a checkpoint stops and whatever fails in it, a later
  start with any options either goes on with all of the old or all of the new state of the
  service, read from a logfile that \<^verbatim>\<open>parse()\<close> accepts, or it is refused; it never makes a new,
  empty service in the place of the old one.
\<close>

theorem restart_keeps_state:
  assumes "names_ok N" and "log_sound N old (lg_disk st)" and "ck_reach S E N (CkPrepare, st) (pc, st')"
    and "start_state N opts (lg_disk st') = Inr T"
  shows "T = parse_text old \<and> log_check old = Inr T \<or>
    T = parse_text (log_text E st) \<and> log_check (log_text E st) = Inr T"
  using recoverable_start [OF ck_reach_recoverable [OF assms(1-3)] assms(4)] .

theorem restart_keeps_state_witness:
  "\<exists>pc st' T. ck_reach \<lparr>os_fails = (\<lambda>_. False), os_written = (\<lambda>_. 0)\<rparr> idle_env demo_names (CkPrepare, demo_log None) (pc, st') \<and>
     start_state demo_names default_options (lg_disk st') = Inr T \<and>
     (T = parse_text ''ecf port=7 ;;'' \<or> T = parse_text (log_text idle_env (demo_log None)))"
proof -
  let ?S = "\<lparr>os_fails = (\<lambda>_. False), os_written = (\<lambda>_. 0)\<rparr>"
  let ?s1 = "ck_step ?S idle_env demo_names (CkPrepare, demo_log None)"
  obtain pc st1 where s1: "?s1 = (pc, st1)" by force
  have r: "ck_reach ?S idle_env demo_names (CkPrepare, demo_log None) (pc, st1)"
    using ck_reach.step [OF ck_reach.start, of "(CkPrepare, demo_log None)" ?S idle_env demo_names] s1 by (simp add: ck_over_def)
  have c: "log_parse demo_names (lg_disk st1) = log_check ''ecf port=7 ;;''" "fileExists (activeFilename demo_names) (lg_disk st1)"
    using s1 by (auto simp: ck_step_def openOfstream_def demo_names_def demo_log_def log_parse_def contents_def fileExists_def
        f_call_def Let_def)
  have "log_check ''ecf port=7 ;;'' = Inr (PersistNode [] [(''ecf'', PersistNode [(''port'', ''7'')] [])])" by code_simp
  then obtain T where t: "start_state demo_names default_options (lg_disk st1) = Inr T"
    using c by (auto simp: start_state_def default_options_def child_def)
  show ?thesis using restart_keeps_state [OF demo_sound(1) demo_sound(2) [of None] r t] r t by auto
qed

section \<open>The port\<close>

lemma atoi_range: "- (2 ^ 31) \<le> atoi s \<and> atoi s < 2 ^ 31"
  using signed_take_bit_int_less_exp [of 31 "c_atol s"] signed_take_bit_int_greater_eq_minus_exp [of 31 "c_atol s"]
  by (simp add: atoi_def to_int32_def)

definition port_ok :: "options \<Rightarrow> bool" where
  "port_ok opts \<longleftrightarrow> 0 \<le> op_port opts \<and> op_port opts < 2 ^ 31"

lemma process_option_port:
  "process_option co (opts, dm) = Inr (opts1, dm1) \<Longrightarrow> port_ok opts \<Longrightarrow> port_ok opts1"
  using atoi_range by (auto simp: process_option_def port_ok_def with_optarg_def split: prod.splits if_splits option.splits)

lemma process_options_port:
  "process_options cos (opts, dm) = Inr (opts1, dm1) \<Longrightarrow> port_ok opts \<Longrightarrow> port_ok opts1"
proof (induction cos arbitrary: opts dm)
  case (Cons co cos)
  then obtain od where "process_option co (opts, dm) = Inr od" "process_options cos od = Inr (opts1, dm1)"
    by (auto split: sum.splits)
  then show ?case using Cons.IH Cons.prems(2) process_option_port by (cases od) blast
qed simp

lemma start_state_port:
  assumes "start_state N opts d = Inr T" and "port_ok opts"
  shows "(\<exists>ecf. child ''ecf'' T = Some ecf) \<and>
    (if fileExists (activeFilename N) d
     then log_parse N d = Inr T \<and> (op_port opts \<noteq> 0 \<longrightarrow> start_port opts T = op_port opts)
     else \<not> fileExists (backupFilename N) d \<and> start_port opts T = (if op_port opts = 0 then 11169 else op_port opts))"
proof (cases "fileExists (activeFilename N) d")
  case True
  then obtain ecf where T: "log_parse N d = Inr T" "child ''ecf'' T = Some ecf"
    and p: "op_port opts = 0 \<or> op_port opts = attrLong ''port'' 0 ecf"
    using assms(1) by (auto simp: start_state_def split: sum.splits option.splits if_splits)
  have "attrLong ''port'' (op_port opts) ecf = op_port opts" if "op_port opts \<noteq> 0"
    using p that by (auto simp: attrLong_def split: option.splits)
  then show ?thesis using True T assms(2)
    by (simp add: start_port_def port_ok_def to_int32_def signed_take_bit_int_eq_self)
next
  case False
  let ?p = "if op_port opts \<noteq> 0 then op_port opts else 11169"
  have T: "T = bootstrap ?p (op_endPointNoListen opts)" "\<not> fileExists (backupFilename N) d"
    using False assms(1) by (auto simp: start_state_def split: if_splits)
  have "0 < ?p" "?p < 2 ^ 31" using assms(2) by (auto simp: port_ok_def)
  from bootstrap_ecf [OF this] obtain ecf where e: "child ''ecf'' T = Some ecf" "\<forall>d. attrLong ''port'' d ecf = ?p"
    unfolding T(1) by blast
  have "to_int32 ?p = ?p" using assms(2) by (simp add: port_ok_def to_int32_def signed_take_bit_int_eq_self)
  then show ?thesis using False T(2) e by (simp add: start_port_def)
qed

lemma word_of_to_int32: "(word_of_int (to_int32 x) :: ulong) = word_of_int x"
  by (simp add: to_int32_def word_of_int_eq_iff take_bit_signed_take_bit)

lemma incarnate_channels_port:
  "incarnate_channels E chs sw = (ex, sv1, w1) \<Longrightarrow> sv_port sv1 = sv_port (fst sw)"
  by (induction E chs sw rule: incarnate_channels.induct) (auto simp: Let_def split: prod.splits option.splits)

lemma factory_port:
  "EventChannelFactory_i E self node w = (ex, sv, w1) \<Longrightarrow> sv_port sv = word_of_int (attrLong ''port'' 11169 node)"
  by (auto simp: EventChannelFactory_i_def then_do_def split: prod.splits option.splits dest!: incarnate_channels_port)

lemma incarnate_port:
  "incarnateFactory S E N self T (d, w) = (Inr lg, d1) \<Longrightarrow>
   \<exists>ecf. child ''ecf'' T = Some ecf \<and> sv_port (lg_service lg) = word_of_int (attrLong ''port'' 11169 ecf)"
  by (auto simp: incarnateFactory_def split: prod.splits option.splits dest: factory_port)

lemma start_service_port:
  assumes "start_service P opts N T (d, w) = (Inr r, d1)"
  shows "rn_port r = start_port opts T \<and> rn_options r = opts \<and> rn_names r = N \<and>
    (\<exists>ecf. child ''ecf'' T = Some ecf \<and> sv_port (lg_service (rn_log r)) = word_of_int (attrLong ''port'' 11169 ecf))"
  using assms
  by (auto simp: start_service_def split: prod.splits sum.splits option.splits dest!: incarnate_port)

text \<open>
  The port of a service that runs. Without a logfile (and then there is no backup either)
  it is the port of the command line, or 11169. With a logfile it is the port of the logfile,
  and a port on the command line is the same one. The factory of the service has that port.
\<close>

lemma running_port:
  assumes "main_start P args dm (d, w) = (Inr r, dm', d')"
  shows "(op_port (rn_options r) \<noteq> 0 \<longrightarrow> rn_port r = op_port (rn_options r)) \<and>
    (if fileExists (activeFilename (rn_names r)) d
     then \<exists>T. log_parse (rn_names r) d = Inr T \<and> rn_port r = start_port (rn_options r) T
     else \<not> fileExists (backupFilename (rn_names r)) d \<and>
       rn_port r = (if op_port (rn_options r) = 0 then 11169 else op_port (rn_options r))) \<and>
    sv_port (lg_service (rn_log r)) = word_of_int (rn_port r)"
proof -
  obtain opts dm1 N T dm2 d1 where
    o: "process_options args (default_options, dm) = Inr (opts, dm1)" and st: "start_state N opts d = Inr T"
    and sv: "start_service P opts N T (d, w) = (Inr r, d1)"
    using assms by (auto simp: main_start_def split: sum.splits prod.splits option.splits)
  have ok: "port_ok opts" using process_options_port [OF o] by (simp add: port_ok_def default_options_def)
  note r = start_service_port [OF sv]
  note p = start_state_port [OF st ok]
  obtain ecf where ecf: "child ''ecf'' T = Some ecf" "sv_port (lg_service (rn_log r)) = word_of_int (attrLong ''port'' 11169 ecf)"
    using r by blast
  have same: "attrLong ''port'' 11169 ecf = attrLong ''port'' (op_port opts) ecf"
  proof -
    have "map_of (pn_attr ecf) ''port'' \<noteq> None"
    proof (cases "fileExists (activeFilename N) d")
      case True
      then have "log_parse N d = Inr T" using p by simp
      then show ?thesis using ecf(1)
        by (auto simp: log_parse_def log_check_def Let_def attrLong_def split: option.splits if_splits)
    next
      case False
      let ?p = "if op_port opts \<noteq> 0 then op_port opts else 11169"
      have "0 < ?p" "?p < 2 ^ 31" using ok by (auto simp: port_ok_def)
      from bootstrap_ecf [OF this, of "op_endPointNoListen opts"] have "\<forall>d. attrLong ''port'' d ecf = ?p"
        using False st ecf(1) by (auto simp: start_state_def split: if_splits)
      then have "attrLong ''port'' 1 ecf = attrLong ''port'' 2 ecf" by simp
      then show ?thesis by (cases "map_of (pn_attr ecf) ''port''") (auto simp: attrLong_def)
    qed
    then show ?thesis by (auto simp: attrLong_def)
  qed
  have "(word_of_int (attrLong ''port'' (op_port opts) ecf) :: ulong) = word_of_int (start_port opts T)"
    using ecf(1) by (simp add: start_port_def word_of_to_int32)
  then show ?thesis using r p ecf(2) same by auto
qed

text \<open>A platform for concrete runs: everything works but, if asked for, the start of the ORB.\<close>

definition demo_platform :: "exn option \<Rightarrow> platform" where
  "demo_platform orb = \<lparr>pf_os = \<lparr>os_fails = (\<lambda>_. False), os_written = (\<lambda>_. 0)\<rparr>, pf_env = idle_env, pf_daemon = demo_os False,
     pf_naming = demo_naming, pf_host = Some ''h'', pf_logdir = Some ''/l'', pf_orb_init = (\<lambda>_ _. orb),
     pf_refs = (\<lambda>n. if n = ''NameService'' then Inr None else Inr (Some 1)), pf_activate = None, pf_factory = 3, pf_gc = 4\<rparr>"

definition demo_disk :: disk where
  "demo_disk = \<lparr>d_names = (\<lambda>_. None), d_data = (\<lambda>_. []), d_next = 5, d_calls = []\<rparr>"

lemma demo_options: "process_options [(CHR ''p'', Some ''80'')] (default_options, Daemon (\<lambda>_. None)) =
  Inr (default_options\<lparr>op_port := 80\<rparr>, Daemon (\<lambda>_. None))"
proof -
  have "atoi ''80'' = 80" by code_simp
  then show ?thesis by (simp add: process_option_def with_optarg_def)
qed

lemma demo_names_file: "\<exists>N. initializeFileNames None (Some ''/l'') (Some ''h'') = Inr N"
  by (simp add: initializeFileNames_def Let_def)

lemma demo_start: "start_state N (default_options\<lparr>op_port := 80\<rparr>) demo_disk = Inr (bootstrap 80 None)"
  by (simp add: start_state_def demo_disk_def fileExists_def default_options_def)

lemma demo_daemonize: "\<exists>dm. daemonize (demo_os False) (Daemon (\<lambda>_. None)) = (None, dm) \<and> dm_haveSyslog dm"
  by (simp add: daemonize_def daemon_fork_def checkPidfileOrShutdown_def writePidfile_def daemon_streams_def daemon_ops
      demo_os_def Daemon_def)

lemma demo_incarnate:
  "\<exists>lg d1. incarnateFactory \<lparr>os_fails = (\<lambda>_. False), os_written = (\<lambda>_. 0)\<rparr> idle_env N 3 (bootstrap 80 None)
     (demo_disk, init_world True) = (Inr lg, d1)"
proof -
  obtain ecf where "child ''ecf'' (bootstrap 80 None) = Some ecf" "pn_child ecf = []"
    using bootstrap_ecf [of 80 None] by auto
  then show ?thesis
    by (simp add: incarnateFactory_def openOfstream_def demo_disk_def Let_def EventChannelFactory_i_def then_do_def
        activateObjectWithId_def idle_env_def)
qed

section \<open>A start that fails\<close>

lemma process_option_daemon:
  "process_option co (opts, dm) = Inr (opts1, dm1) \<Longrightarrow> daemon_fresh dm \<Longrightarrow>
   daemon_fresh dm1 \<and> (dm_foreground dm1 \<longrightarrow> dm_foreground dm \<or> fst co \<in> {CHR ''d'', CHR ''f''})"
  by (auto simp: process_option_def with_optarg_def pidfile_def tracefile_def foreground_def daemon_fresh_def
      split: prod.splits if_splits option.splits)

lemma process_options_daemon:
  "process_options cos (opts, dm) = Inr (opts1, dm1) \<Longrightarrow> daemon_fresh dm \<Longrightarrow>
   daemon_fresh dm1 \<and> (dm_foreground dm1 \<longrightarrow> dm_foreground dm \<or> fst ` set cos \<inter> {CHR ''d'', CHR ''f''} \<noteq> {})"
proof (induction cos arbitrary: opts dm)
  case (Cons co cos)
  obtain o1 dm2 where 1: "process_option co (opts, dm) = Inr (o1, dm2)" "process_options cos (o1, dm2) = Inr (opts1, dm1)"
    using Cons.prems(1) by (auto split: sum.splits)
  show ?case using Cons.IH [OF 1(2)] process_option_daemon [OF 1(1) Cons.prems(2)] by auto
qed simp

lemma process_option_exn: "process_option co od = Inl e \<Longrightarrow> \<not> is_corba_exn e"
  by (auto simp: process_option_def with_optarg_def usage_def is_corba_exn_def split: prod.splits if_splits option.splits)

lemma process_options_exn: "process_options cos od = Inl e \<Longrightarrow> \<not> is_corba_exn e"
  by (induction cos od rule: process_options.induct) (auto split: sum.splits dest: process_option_exn)

lemma names_exn: "initializeFileNames o1 v h = Inl e \<Longrightarrow> \<not> is_corba_exn e"
  by (auto simp: initializeFileNames_def Let_def is_corba_exn_def split: option.splits if_splits)

lemma start_state_exn: "start_state N opts d = Inl e \<Longrightarrow> \<not> is_corba_exn e"
  by (auto simp: start_state_def log_parse_def log_check_def Let_def is_corba_exn_def split: option.splits sum.splits if_splits)

lemma must_exn: "d_must D c st = (Some e, st1) \<Longrightarrow> \<not> is_corba_exn e"
  by (auto simp: d_must_def is_corba_exn_def split: if_splits)

lemma redirect_exn: "redirectStreamsTo D f st = (Some e, st1) \<Longrightarrow> \<not> is_corba_exn e"
  by (auto simp: redirectStreamsTo_def elim!: then_do_SomeE dest: must_exn)

lemma daemonize_exn: "daemonize D st = (Some e, st1) \<Longrightarrow> \<not> is_corba_exn e"
  by (auto simp: daemonize_def daemon_fork_def daemon_streams_def Let_def checkPidfileOrShutdown_def is_corba_exn_def [of "ProcessExit _"]
      elim!: then_do_SomeE dest!: must_exn redirect_exn split: if_splits option.splits list.splits)

lemma runningOk_exn: "runningOk D st = (Some e, st1) \<Longrightarrow> \<not> is_corba_exn e"
  by (auto simp: runningOk_def Let_def dest: redirect_exn split: if_splits)

text \<open>
  A failed start is reported as a success. If the start of a daemon in the background ends
  with an exception of CORBA, for instance of \<^verbatim>\<open>ORB_init\<close> because another process has the port,
  then \<^verbatim>\<open>main\<close> returns 1, but the parent process, whose status the user sees, exits with 0: it
  is told so by the destructor of the object \<^verbatim>\<open>daemon\<close> before the exit handler runs.
\<close>

lemma failed_start_looks_ok:
  assumes "main_start P args dm (d, w) = (Inl e, dm', d')" and "is_corba_exn e"
    and "daemon_fresh dm" and "\<not> dm_foreground dm" and "fst ` set args \<inter> {CHR ''d'', CHR ''f''} = {}"
    and "files_work (pf_daemon P)"
  shows "main_ending e = Returns 1 \<and> waitForChild (dm_pipe (daemon_end (pf_daemon P) (main_ending e) dm')) = 0"
proof -
  have main: "main_ending e = Returns 1"
    using assms(2) by (auto simp: main_ending_def is_corba_exn_def split: exn.splits)
  obtain opts dm1 where o: "process_options args (default_options, dm) = Inr (opts, dm1)"
    and dz: "daemonize (pf_daemon P) dm1 = (None, dm')"
    using assms(1,2) by (auto simp: main_start_def split: sum.splits prod.splits option.splits
        dest: process_options_exn names_exn start_state_exn daemonize_exn runningOk_exn)
  have "daemon_fresh dm1" "\<not> dm_foreground dm1" using process_options_daemon [OF o assms(3)] assms(4,5) by auto
  from start_reported [OF this dz assms(6), of 1] show ?thesis using main by simp
qed

end
