(* ===== verification/Service_Run.thy ===== *)
theory Service_Run
  imports Omni_Main
begin

text \<open>
  What follows the start: \<^verbatim>\<open>Orb::run()\<close> in the main thread, with the callbacks of the whole service
  behind it, up to the end of \<^verbatim>\<open>main\<close>; and the report of a failed object, which the log function
  of the daemon takes for an error. The interface between the loop and the callbacks is the
  locale \<open>orb_callbacks\<close>, with the callbacks of the service as its instance. The theorems say
  that the loop, and with it \<^verbatim>\<open>main\<close>, ends after a signal, and what a late callback writes.
\<close>

section \<open>Orb::run\<close>

text \<open>
  The loop, from its turn \<open>n\<close> on. \<open>others\<close> is what signal handlers and all other threads do in
  the five seconds of a turn. \<open>None\<close> is a loop that does not end.
\<close>

partial_function (option) orb_run :: "(nat \<Rightarrow> 's \<times> world \<Rightarrow> 's \<times> world) \<Rightarrow> env
    \<Rightarrow> (addr \<Rightarrow> request \<Rightarrow> any \<Rightarrow> 's \<times> world \<Rightarrow> 's \<times> world) \<Rightarrow> nat \<Rightarrow> 's \<times> world \<Rightarrow> ('s \<times> world) option" where
  "orb_run others E dispatch n sw =
     (if w_shutdown (snd sw) then Some (fst sw, drain_deferred (snd sw))
      else orb_run others E dispatch (Suc n) (run_once E dispatch (others n sw)))"

declare orb_run.simps [code]

text \<open>The destructor releases the requests, not the references on their callbacks.\<close>

definition orb_destructor :: "world \<Rightarrow> world" where
  "orb_destructor w = w\<lparr>w_deferred := []\<rparr>"

text \<open>
  What the loop relies on: a callback neither changes reference counts nor adds requests, and
  it leaves the flag alone that ends the loop.
\<close>

locale orb_callbacks =
  fixes dispatch :: "addr \<Rightarrow> request \<Rightarrow> any \<Rightarrow> 's \<times> world \<Rightarrow> 's \<times> world"
  assumes refs: "w_refs (snd (dispatch a r v sw)) = w_refs (snd sw)"
    and deferred: "w_deferred (snd (dispatch a r v sw)) = w_deferred (snd sw)"
    and flag: "w_shutdown (snd (dispatch a r v sw)) = w_shutdown (snd sw)"
begin

lemma no_refs: "no_refs_change dispatch"
  by (simp add: no_refs_change_def refs)

lemma poll_one_flag: "w_shutdown (snd (snd (poll_one E dispatch req cb sw))) = w_shutdown (snd sw)"
  by (auto simp: poll_one_def poll_response_def flag split: response.splits option.splits)

lemma poll_pass_flag: "w_shutdown (snd (snd (snd (poll_pass E dispatch ds sw)))) = w_shutdown (snd sw)"
proof (induction ds arbitrary: sw)
  case (Cons d ds)
  obtain req cb where d: "d = (req, cb)" by force
  show ?case using Cons.IH poll_one_flag [of E req cb sw]
    by (auto simp: d split: prod.splits) (metis prod.sel(1,2))+
qed simp

lemma fold_remove_ref_flag: "w_shutdown (fold remove_ref as w) = w_shutdown w"
  by (induction as arbitrary: w) auto

lemma run_once_flag: "w_shutdown (snd (run_once E dispatch sw)) = w_shutdown (snd sw)"
  using poll_pass_flag [of E "w_deferred (snd sw)" sw]
  by (auto simp: run_once_def fold_remove_ref_flag split: prod.splits)

lemma run_once_balance: "own_refs (snd (run_once E dispatch sw)) = own_refs (snd sw)"
  by (rule run_once_own_refs [OF no_refs])

end

lemma drain_flag: "w_shutdown (drain_deferred w) = w_shutdown w"
proof -
  have "w_shutdown (fold (\<lambda>(req, cb) v. case cb of Some a \<Rightarrow> remove_ref a v | None \<Rightarrow> v) ds v) = w_shutdown v" for ds v
  proof (induction ds arbitrary: v)
    case (Cons d ds)
    then show ?case by (cases "snd d") (simp_all add: case_prod_beta)
  qed simp
  then show ?thesis by (simp add: drain_deferred_def)
qed

lemma drain_empty: "w_deferred (drain_deferred w) = []"
  by (simp add: drain_deferred_def)

text \<open>
  A signal in turn \<open>k\<close>, and other threads that, like \<^verbatim>\<open>deferredRequest()\<close>, take a reference for
  each request they add.
\<close>

definition signal_at :: "nat \<Rightarrow> (nat \<Rightarrow> 's \<times> world \<Rightarrow> 's \<times> world) \<Rightarrow> bool" where
  "signal_at k others \<longleftrightarrow> (\<forall>n sw. w_shutdown (snd (others n sw)) \<longleftrightarrow> w_shutdown (snd sw) \<or> k \<le> n)"

definition keeps_balance :: "(nat \<Rightarrow> 's \<times> world \<Rightarrow> 's \<times> world) \<Rightarrow> bool" where
  "keeps_balance others \<longleftrightarrow> (\<forall>n sw. own_refs (snd (others n sw)) = own_refs (snd sw))"

context orb_callbacks
begin

lemma run_ends:
  assumes "signal_at k others" and "n \<le> k" and "keeps_balance others"
  shows "\<exists>sw'. orb_run others E dispatch n sw = Some sw' \<and> w_deferred (snd sw') = [] \<and>
    own_refs (snd sw') = own_refs (snd sw) \<and> w_shutdown (snd sw')"
  using assms(2)
proof (induction "k - n" arbitrary: n sw)
  have stop: "w_shutdown (snd sw) \<Longrightarrow> \<exists>sw'. orb_run others E dispatch n sw = Some sw' \<and> w_deferred (snd sw') = [] \<and>
      own_refs (snd sw') = own_refs (snd sw) \<and> w_shutdown (snd sw')" for n sw
    by (subst orb_run.simps) (simp add: drain_deferred_own_refs drain_flag drain_empty)
  let ?next = "\<lambda>n sw. run_once E dispatch (others n sw)"
  have turn: "own_refs (snd (?next n sw)) = own_refs (snd sw)"
      "w_shutdown (snd (?next n sw)) \<longleftrightarrow> w_shutdown (snd sw) \<or> k \<le> n" for n sw
    using assms(1,3) unfolding signal_at_def keeps_balance_def run_once_flag run_once_balance by blast+
  {
    case 0
    show ?case
    proof (cases "w_shutdown (snd sw)")
      case False
      have "orb_run others E dispatch n sw = orb_run others E dispatch (Suc n) (?next n sw)"
        using False by (subst orb_run.simps) simp
      then show ?thesis using stop [of "?next n sw" "Suc n"] turn [of n sw] 0 by simp
    qed (rule stop)
  next
    case (Suc d)
    show ?case
    proof (cases "w_shutdown (snd sw)")
      case False
      have "orb_run others E dispatch n sw = orb_run others E dispatch (Suc n) (?next n sw)"
        using False by (subst orb_run.simps) simp
      then show ?thesis using Suc.hyps(1) [of "Suc n" "?next n sw"] Suc turn(1) [of n sw] by simp
    qed (rule stop)
  }
qed

end

section \<open>The callbacks of the service\<close>

text \<open>
  A callback is an object with a reference count: a connection that was taken out of its table,
  or a proxy that was etherealized, is still there for the requests that name it.
\<close>

record callbacks =
  cb_service :: service
  cb_closed :: "(addr, connection) smap"
  cb_orphans :: "(addr, poaref \<times> pps) smap"

definition ppc_callback :: "addr \<Rightarrow> any \<Rightarrow> ppc \<times> world \<Rightarrow> (ppc \<times> world) option" where
  "ppc_callback a v pw = (case pw of (p, w) \<Rightarrow>
     (case find (\<lambda>oc. cn_addr (snd oc) = a) (pp_connections p) of
        None \<Rightarrow> None
      | Some (oid, c) \<Rightarrow> (case cn_callback v (c, w) of (_, c1, w1) \<Rightarrow>
          Some (p\<lparr>pp_connections := smap_set oid c1 (pp_connections p)\<rparr>, w1))))"

definition pps_mgr_callback :: "env \<Rightarrow> addr \<Rightarrow> any \<Rightarrow> pps_mgr \<times> world \<Rightarrow> (pps_mgr \<times> world) option" where
  "pps_mgr_callback E a v mw = (case mw of (m, w) \<Rightarrow>
     (case map_of (mg_servants m) a of
        None \<Rightarrow> None
      | Some p \<Rightarrow> (case pps_callback E (mg_poa m) a v (p, w) of (_, p1, w1) \<Rightarrow> Some (mg_insert a p1 m, w1))))"

definition ch_callback :: "env \<Rightarrow> addr \<Rightarrow> any \<Rightarrow> channel \<times> world \<Rightarrow> (channel \<times> world) option" where
  "ch_callback E a v cw = (case cw of (c, w) \<Rightarrow>
     (case (case ch_supplier c of None \<Rightarrow> None | Some sa \<Rightarrow>
              map_option (\<lambda>(pp, w1). (c\<lparr>ch_supplier := Some (sa\<lparr>sa_push := pp\<rparr>)\<rparr>, w1)) (ppc_callback a v (sa_push sa, w))) of
        Some cw1 \<Rightarrow> Some cw1
      | None \<Rightarrow>
          (case ch_consumer c of None \<Rightarrow> None | Some ca \<Rightarrow>
             (case ca_push ca of None \<Rightarrow> None | Some m \<Rightarrow>
                map_option (\<lambda>(m1, w1). (c\<lparr>ch_consumer := Some (ca\<lparr>ca_push := Some m1\<rparr>)\<rparr>, w1))
                  (pps_mgr_callback E a v (m, w))))))"

fun chans_callback :: "env \<Rightarrow> addr \<Rightarrow> any \<Rightarrow> (addr, channel) smap \<times> world \<Rightarrow> ((addr, channel) smap \<times> world) option" where
  "chans_callback E a v ([], w) = None"
| "chans_callback E a v ((b, c) # chs, w) = (case ch_callback E a v (c, w) of
      Some (c1, w1) \<Rightarrow> Some ((b, c1) # chs, w1)
    | None \<Rightarrow> map_option (\<lambda>(chs1, w1). ((b, c) # chs1, w1)) (chans_callback E a v (chs, w)))"

definition closed_callback :: "addr \<Rightarrow> any \<Rightarrow> (addr, connection) smap \<times> world \<Rightarrow> ((addr, connection) smap \<times> world) option"
where
  "closed_callback a v lw = (case lw of (l, w) \<Rightarrow>
     (case map_of l a of
        None \<Rightarrow> None
      | Some c \<Rightarrow> (case cn_callback v (c, w) of (_, c1, w1) \<Rightarrow> Some (smap_set a c1 l, w1))))"

definition orphan_callback :: "env \<Rightarrow> addr \<Rightarrow> any \<Rightarrow> (addr, poaref \<times> pps) smap \<times> world
    \<Rightarrow> ((addr, poaref \<times> pps) smap \<times> world) option" where
  "orphan_callback E a v lw = (case lw of (l, w) \<Rightarrow>
     (case map_of l a of
        None \<Rightarrow> None
      | Some (P, p) \<Rightarrow> (case pps_callback E P a v (p, w) of (_, p1, w1) \<Rightarrow> Some (smap_set a (P, p1) l, w1))))"

definition service_callback :: "env \<Rightarrow> addr \<Rightarrow> request \<Rightarrow> any \<Rightarrow> callbacks \<times> world \<Rightarrow> callbacks \<times> world" where
  "service_callback E a req v bw = (case bw of (b, w) \<Rightarrow>
     (case chans_callback E a v (sv_chans (cb_service b), w) of
        Some (chs, w1) \<Rightarrow> (b\<lparr>cb_service := (cb_service b)\<lparr>sv_chans := chs\<rparr>\<rparr>, w1)
      | None \<Rightarrow>
          (case closed_callback a v (cb_closed b, w) of
             Some (l, w1) \<Rightarrow> (b\<lparr>cb_closed := l\<rparr>, w1)
           | None \<Rightarrow>
               (case orphan_callback E a v (cb_orphans b, w) of
                  Some (l, w1) \<Rightarrow> (b\<lparr>cb_orphans := l\<rparr>, w1)
                | None \<Rightarrow> (b, w)))))"

text \<open>A callback only asks the POA for an id and writes to the logfile.\<close>

definition same_refs :: "world \<Rightarrow> world \<Rightarrow> bool" where
  "same_refs w v \<longleftrightarrow> w_refs v = w_refs w \<and> w_deferred v = w_deferred w \<and> w_shutdown v = w_shutdown w"

named_theorems callback_safe "operations that change neither counts, nor requests, nor the flag"

lemma same_refs_refl [simp]: "same_refs w w"
  by (simp add: same_refs_def)

lemma same_refs_orb_call [simp]: "same_refs w (orb_call c v) = same_refs w v"
  by (simp add: same_refs_def)

lemma log_write_safe [callback_safe]:
  assumes "log_write out w = (ex, w1)" and "same_refs w (snd (out w))"
  shows "same_refs w w1"
  using assms by (auto simp: log_write_def log_output_def same_refs_def split: prod.splits option.splits if_splits)

lemma pps_output_world: "snd (pps_output E P a p w) = orb_call (PoaServantToId (pr_name P) a) w"
proof -
  obtain t ex w1 where k: "keyOutput E P a pps_name w = ((t, ex), w1)" by (metis prod.exhaust)
  then have "w1 = orb_call (PoaServantToId (pr_name P) a) w" using keyOutput_world [of E P a pps_name w] by simp
  then show ?thesis using k by (cases ex) (simp_all add: pps_output_def basicOutput_ior_def)
qed

lemma cn_callback_safe [callback_safe]: "cn_callback v (c, w) = (ex, c1, w1) \<Longrightarrow> same_refs w w1"
  by (auto simp: cn_callback_def Let_def split: option.splits if_splits prod.splits dest!: log_write_safe)

lemma pps_callback_safe [callback_safe]: "pps_callback E P a v (p, w) = (ex, p1, w1) \<Longrightarrow> same_refs w w1"
  by (auto simp: pps_callback_def pps_output_world split: option.splits if_splits bool.splits prod.splits
      dest!: log_write_safe)

lemma ppc_callback_safe [callback_safe]: "ppc_callback a v (p, w) = Some (p1, w1) \<Longrightarrow> same_refs w w1"
  by (auto simp: ppc_callback_def split: option.splits prod.splits dest: callback_safe)

lemma pps_mgr_callback_safe [callback_safe]: "pps_mgr_callback E a v (m, w) = Some (m1, w1) \<Longrightarrow> same_refs w w1"
  by (auto simp: pps_mgr_callback_def split: option.splits prod.splits dest: callback_safe)

lemma ch_callback_safe [callback_safe]: "ch_callback E a v (c, w) = Some (c1, w1) \<Longrightarrow> same_refs w w1"
  by (auto simp: ch_callback_def split: option.splits prod.splits dest: callback_safe)

lemma chans_callback_safe [callback_safe]: "chans_callback E a v (chs, w) = Some (chs1, w1) \<Longrightarrow> same_refs w w1"
  by (induction E a v "(chs, w)" arbitrary: chs chs1 rule: chans_callback.induct)
     (auto split: option.splits prod.splits dest: ch_callback_safe)

lemma closed_callback_safe [callback_safe]: "closed_callback a v (l, w) = Some (l1, w1) \<Longrightarrow> same_refs w w1"
  by (auto simp: closed_callback_def split: option.splits prod.splits dest: callback_safe)

lemma orphan_callback_safe [callback_safe]: "orphan_callback E a v (l, w) = Some (l1, w1) \<Longrightarrow> same_refs w w1"
  by (auto simp: orphan_callback_def split: option.splits prod.splits dest: callback_safe)

lemma service_callback_safe: "same_refs (snd bw) (snd (service_callback E a req v bw))"
  by (cases bw) (auto simp: service_callback_def split: option.splits prod.splits dest: callback_safe)

interpretation sc: orb_callbacks "service_callback E" for E
  using service_callback_safe [of _ E] by unfold_locales (auto simp: same_refs_def)

section \<open>A callback that comes too late\<close>

context journal_entry
begin

lemma journal_revived:
  assumes "ok_key k" and "ok_val v" and "ok_val v'" and "\<forall>r \<in> set rs. rec_ok r"
  shows "lookup_path (split_slash (key k)) (parse_text (concat (map rec_text rs) @ enter k v @ leave k @ enter k v'))
         = Some (PersistNode (attrs v') [])"
proof -
  let ?txt = "concat (map rec_text rs) @ enter k v @ leave k @ enter k v'"
  let ?rs = "rs @ [AddRec (key k) (attrs v), DelRec (key k)]"
  let ?rs' = "?rs @ [AddRec (key k) (attrs v')]"
  have app: "text_words (concat (map rec_text rs) @ s) = concat (map rec_tokens rs) @ text_words s" for s
    using assms(4) by (induction rs) (simp_all add: rec_text_words)
  have "text_words (leave k @ s) = rec_tokens (DelRec (key k)) @ text_words s" for s
    unfolding leave_text by (rule rec_text_words [OF leave_ok [OF assms(1)]])
  then have "text_words ?txt = concat (map rec_tokens ?rs')"
    using app enter_words [OF assms(1,2)] enter_words [OF assms(1,3), of "[]"] by simp
  moreover have "ends_space ?txt" using enter_ends [OF assms(1,3)] by (simp add: ends_space_def)
  moreover have "\<forall>r \<in> set ?rs'. rec_ok r" using assms enter_ok leave_ok by auto
  ultimately have "parse_text ?txt = fold apply_rec ?rs' pn_empty" by (intro parse_text_replay)
  then have "parse_text ?txt = apply_rec (AddRec (key k) (attrs v')) (fold apply_rec ?rs pn_empty)" by simp
  then show ?thesis using apply_AddRec [OF attrs_ok [OF assms(3)]]
    by (simp add: lookup_graft del: apply_rec.simps)
qed

end

text \<open>The table of connections together with the connections that were taken out of it.\<close>

definition ppc_closed :: "ppc \<Rightarrow> ppc \<Rightarrow> (addr, connection) smap \<Rightarrow> (addr, connection) smap" where
  "ppc_closed p p' l = fold (\<lambda>(oid, c) m. if map_of (pp_connections p') oid = None then smap_set (cn_addr c) c m else m)
     (pp_connections p) l"

definition ppc_dispatch :: "addr \<Rightarrow> request \<Rightarrow> any \<Rightarrow> (ppc \<times> (addr, connection) smap) \<times> world
    \<Rightarrow> (ppc \<times> (addr, connection) smap) \<times> world" where
  "ppc_dispatch a req v pw = (case pw of ((p, l), w) \<Rightarrow>
     (case ppc_callback a v (p, w) of
        Some (p1, w1) \<Rightarrow> ((p1, l), w1)
      | None \<Rightarrow> (case closed_callback a v (l, w) of Some (l1, w1) \<Rightarrow> ((p, l1), w1) | None \<Rightarrow> ((p, l), w))))"

text \<open>A supplier that is a proxy says so when it is asked.\<close>

definition says_proxy :: "env \<Rightarrow> bool" where
  "says_proxy E \<longleftrightarrow> (\<forall>tr r. req_op r = ''_is_a'' \<longrightarrow> (\<exists>v args. env_poll E tr r = Reply v args \<and> any_boolean v = Some True))"

lemma closed_fold:
  assumes "\<forall>oc \<in> set cs. cn_addr (snd oc) \<noteq> a"
  shows "map_of (fold (\<lambda>(oid, c) m. if map_of m' oid = None then smap_set (cn_addr c) c m else m) cs l) a = map_of l a"
  using assms by (induction cs arbitrary: l) (auto simp: map_of_smap_set)

lemma closed_of_smap_set:
  assumes "\<forall>oc \<in> set m. cn_addr (snd oc) \<noteq> cn_addr c0"
  shows "map_of (fold (\<lambda>(oid, c) m. if map_of m' oid = None then smap_set (cn_addr c) c m else m) (smap_set oid0 c0 m) l)
      (cn_addr c0) = (if map_of m' oid0 = None then Some c0 else map_of l (cn_addr c0))"
  using assms
proof (induction oid0 c0 m arbitrary: l rule: smap_set.induct)
  case (1 k v)
  then show ?case by (simp add: map_of_smap_set)
next
  case (2 k v k' v' m)
  then show ?case by (auto simp: closed_fold map_of_smap_set split: if_splits)
qed

lemma is_a_reply:
  assumes "says_proxy E"
  shows "\<exists>v args. poll_response E (Request n t ''_is_a'' as) w =
    (Reply v args, orb_call (PollResponse (Request n t ''_is_a'' as)) w) \<and> any_boolean v = Some True"
proof -
  have "req_op (Request n t ''_is_a'' as) = ''_is_a''" by (rule request.sel)
  then obtain v args where "env_poll E (w_trace w) (Request n t ''_is_a'' as) = Reply v args" "any_boolean v = Some True"
    using assms unfolding says_proxy_def by meson
  then show ?thesis unfolding poll_response_def by blast
qed

text \<open>One pass of the loop over the answer of a closed connection and an orphan request.\<close>

lemma late_pass:
  assumes "says_proxy E" and "w_deferred w = [(Request n t ''_is_a'' as, Some a), (r, None)]"
    and "find (\<lambda>oc. cn_addr (snd oc) = a) (pp_connections p) = None"
    and "map_of l a = Some c" and "w_log w = Some txt0"
  shows "\<exists>l1 w1. run_once E ppc_dispatch ((p, l), w) = ((p, l1), w1) \<and>
    w_log w1 = Some (txt0 @ cn_output (c\<lparr>cn_isProxy := True\<rparr>))"
proof -
  let ?r = "Request n t ''_is_a'' as"
  let ?w1 = "orb_call (PollResponse ?r) w"
  let ?c1 = "c\<lparr>cn_isProxy := True\<rparr>"
  let ?w2 = "?w1\<lparr>w_log := Some (txt0 @ cn_output ?c1), w_checkpoint := True\<rparr>"
  obtain v args where p: "poll_response E ?r w = (Reply v args, ?w1)" "any_boolean v = Some True"
    using is_a_reply [OF assms(1)] by blast
  have cb: "cn_callback v (c, ?w1) = (None, ?c1, ?w2)"
    using p(2) assms(5) by (simp add: cn_callback_def log_write_def log_output_def Let_def)
  then have d: "ppc_dispatch a ?r v ((p, l), ?w1) = ((p, smap_set a ?c1 l), ?w2)"
    using assms(3,4) by (simp add: ppc_dispatch_def ppc_callback_def closed_callback_def)
  have one: "poll_one E ppc_dispatch ?r (Some a) ((p, l), w) = (Reply v args, (p, smap_set a ?c1 l), ?w2)"
    using p(1) d by (simp add: poll_one_def)
  obtain rsp2 where two: "poll_one E ppc_dispatch r None ((p, smap_set a ?c1 l), ?w2)
      = (rsp2, (p, smap_set a ?c1 l), orb_call (PollResponse r) ?w2)"
    by (cases "env_poll E (w_trace ?w2) r") (simp_all add: poll_one_def poll_response_def)
  show ?thesis using assms(2) one two by (auto simp: run_once_def)
qed

text \<open>
  C39. A connection that comes back. A push supplier that is a proxy itself connects, which sends
  it the question \<^verbatim>\<open>_is_a\<close>, and disconnects before the next pass of \<^verbatim>\<open>Orb::run()\<close>, up to five
  seconds later. The pass finds the answer, and the callback of the closed connection writes its
  record, now marked as federated, behind the one that deleted it: the table has no such
  connection any more, but the logfile has, and a restart would connect it again.
\<close>

theorem late_callback_revives_connection:
  assumes "current_oid E oid" and "oid \<notin> fst ` set (pp_connections p)"
    and "\<forall>oc \<in> set (pp_connections p). cn_addr (snd oc) \<noteq> env_alloc E (w_trace w)"
    and "w_log w = Some (concat (map rec_text rs))" and "\<forall>r \<in> set rs. rec_ok r"
    and "w_deferred w = []" and "\<not> w_shutdown w" and "says_proxy E"
    and "proxy_key_ok (pp_channelName p, ppc_name, oid)" and "no_space (env_object_to_string E s)"
  shows "\<exists>p1 w1 w2 l w3 t2 t3. connect_push_supplier E (Some s) (p, w) = (None, p1, w1) \<and>
    disconnect_push_consumer E (p1, w1) = (None, p, w2) \<and> w_log w2 = Some t2 \<and>
    lookup_path (split_slash (proxy_key (pp_channelName p, ppc_name, oid))) (parse_text t2) = None \<and>
    run_once E ppc_dispatch ((p, ppc_closed p1 p []), w2) = ((p, l), w3) \<and> w_log w3 = Some t3 \<and>
    lookup_path (split_slash (proxy_key (pp_channelName p, ppc_name, oid))) (parse_text t3) =
      Some (PersistNode [(''IOR'', env_object_to_string E s), (''proxy'', ''1'')] [])"
proof -
  let ?k = "(pp_channelName p, ppc_name, oid)" and ?v = "(env_object_to_string E s, False)"
  let ?v' = "(env_object_to_string E s, True)" and ?a = "env_alloc E (w_trace w)"
  let ?c = "Connection E ?a (pp_channelName p) oid s False"
  let ?p1 = "p\<lparr>pp_connections := smap_set oid ?c (pp_connections p)\<rparr>"
  have out: "cn_output ?c = proxy_enter ?k ?v" "cn_output (?c\<lparr>cn_isProxy := True\<rparr>) = proxy_enter ?k ?v'"
    by (simp_all add: cn_output_enter Connection_def)
  obtain w1 n as where c1: "connect_push_supplier E (Some s) (p, w) = (None, ?p1, w1)"
      and l1: "w_log w1 = Some (concat (map rec_text rs) @ proxy_enter ?k ?v)"
      and d1: "w_deferred w1 = [(Request n s ''_is_a'' as, Some ?a)]"
    using map_of_notin [OF assms(2)] assms(4,6,7) out(1)
    by (auto simp: connect_push_supplier_def currentObjectId_ok [OF assms(1)] send_deferred_def Let_def
        log_write_def log_output_def)
  have m1: "map_of (pp_connections ?p1) oid = Some ?c" by (simp add: map_of_smap_set)
  have p: "?p1\<lparr>pp_connections := smap_erase oid (pp_connections ?p1)\<rparr> = p"
    by (simp add: smap_erase_set_new [OF assms(2)])
  obtain w2 r where d: "disconnect_push_consumer E (?p1, w1) = (None, p, w2)"
      and l2: "w_log w2 = Some (concat (map rec_text rs) @ proxy_enter ?k ?v @ proxy_leave ?k)"
      and d2: "w_deferred w2 = [(Request n s ''_is_a'' as, Some ?a), (r, None)]"
    using m1 l1 d1 p
    by (auto simp: disconnect_push_consumer_def currentObjectId_ok [OF assms(1)] send_deferred_def Let_def
        log_write_def log_output_def proxy_leave_def proxy_key_def)
  have ok: "proxy_val_ok ?v" "proxy_val_ok ?v'" using assms(10) by (simp_all add: proxy_val_ok_def)
  have f: "find (\<lambda>oc. cn_addr (snd oc) = ?a) (pp_connections p) = None"
    using assms(3) by (auto simp: find_None_iff)
  have "cn_addr ?c = ?a" by (simp add: Connection_def)
  then have cl: "map_of (ppc_closed ?p1 p []) ?a = Some ?c"
    using closed_of_smap_set [of "pp_connections p" ?c "pp_connections p" oid "[]"] assms(3) map_of_notin [OF assms(2)]
    by (auto simp: ppc_closed_def)
  obtain l w3 where r: "run_once E ppc_dispatch ((p, ppc_closed ?p1 p []), w2) = ((p, l), w3)"
      and l3: "w_log w3 = Some ((concat (map rec_text rs) @ proxy_enter ?k ?v @ proxy_leave ?k) @ proxy_enter ?k ?v')"
    using late_pass [OF assms(8) d2 f cl l2] out(2) by auto
  have "proxy_attrs ?v' = [(''IOR'', env_object_to_string E s), (''proxy'', ''1'')]" by (simp add: proxy_attrs_def)
  then show ?thesis using c1 d l2 r l3 pj.journal_enter_leave [OF assms(9) ok(1) assms(5)]
      pj.journal_revived [OF assms(9) ok assms(5)] by auto
qed

theorem late_callback_revives_connection_witness:
  "\<exists>(E :: env) p1 w1 w2 l w3 t3. connect_push_supplier E (Some 3) (\<lparr>pp_connections = [], pp_channelName = ''c'', pp_useLocalQueue = False\<rparr>, init_world True) = (None, p1, w1) \<and>
    disconnect_push_consumer E (p1, w1) = (None, \<lparr>pp_connections = [], pp_channelName = ''c'', pp_useLocalQueue = False\<rparr>, w2) \<and>
    run_once E ppc_dispatch ((\<lparr>pp_connections = [], pp_channelName = ''c'', pp_useLocalQueue = False\<rparr>,
      ppc_closed p1 \<lparr>pp_connections = [], pp_channelName = ''c'', pp_useLocalQueue = False\<rparr> []), w2) =
      ((\<lparr>pp_connections = [], pp_channelName = ''c'', pp_useLocalQueue = False\<rparr>, l), w3) \<and> w_log w3 = Some t3 \<and>
    lookup_path (split_slash (proxy_key (''c'', ppc_name, ''o''))) (parse_text t3) =
      Some (PersistNode [(''IOR'', ''xxx''), (''proxy'', ''1'')] [])"
proof -
  let ?E = "idle_env\<lparr>env_current_oid := \<lambda>_. Inr ''o'', env_poll := \<lambda>_ _. Reply (Any tk_boolean [] (VBool True)) []\<rparr>"
  let ?p = "\<lparr>pp_connections = [], pp_channelName = ''c'', pp_useLocalQueue = False\<rparr>"
  have o: "current_oid ?E ''o''" by (simp add: current_oid_def idle_env_def)
  have w: "w_log (init_world True) = Some (concat (map rec_text []))" "w_deferred (init_world True) = []"
    "\<not> w_shutdown (init_world True)" by (simp_all add: init_world_def)
  have s: "says_proxy ?E" by (simp add: says_proxy_def any_boolean_def)
  have x: "env_object_to_string ?E 3 = ''xxx''" by (simp add: idle_env_def numeral_3_eq_3)
  have k: "proxy_key_ok (pp_channelName ?p, ppc_name, ''o'')" by (simp add: proxy_key_ok_def c_space_def)
  have n: "no_space (env_object_to_string ?E 3)" unfolding x by (simp add: c_space_def)
  show ?thesis
    using late_callback_revives_connection [OF o _ _ w(1) _ w(2,3) s k n] unfolding x by simp blast
qed

section \<open>The report of a failed object\<close>

text \<open>What \<^verbatim>\<open>reportObjectFailure\<close> reads of an IOR; the profiles that are not for the internet have no host.\<close>

record ior_profile =
  ip_internet :: bool
  ip_object_key :: string
  ip_host :: string
  ip_port :: nat

record ior =
  io_repositoryID :: string
  io_profiles :: "ior_profile list"

definition log_char :: "char \<Rightarrow> char" where
  "log_char c = (if 0x20 \<le> (of_char c :: nat) \<and> (of_char c :: nat) \<le> 0x7E then c else CHR ''.'')"

definition profile_text :: "ior_profile list \<Rightarrow> string" where
  "profile_text ps = (case find ip_internet ps of
      None \<Rightarrow> []
    | Some b \<Rightarrow> [CHR '' '', CHR 0x22] @ map log_char (ip_object_key b) @ CHR 0x22 # '' at '' @ ip_host b @ CHR '':'' # show_int (int (ip_port b)))"

definition threw_text :: "(exn \<Rightarrow> string) \<Rightarrow> (exn \<Rightarrow> string option) \<Rightarrow> exn option \<Rightarrow> string" where
  "threw_text name minor ex = (case ex of
      None \<Rightarrow> '' threw unknown exception'' @ nl
    | Some e \<Rightarrow> '' threw '' @ name e @
        (if is_system_exn e then '' ('' @ (case minor e of None \<Rightarrow> ''??'' | Some m \<Rightarrow> m) @ '')'' else []) @ nl)"

definition failure_messages :: "(exn \<Rightarrow> string) \<Rightarrow> (exn \<Rightarrow> string option) \<Rightarrow> string \<Rightarrow> string \<Rightarrow> ior option \<Rightarrow> exn option
    \<Rightarrow> string list" where
  "failure_messages name minor here sior ior ex =
     (case ior of None \<Rightarrow> [] | Some i \<Rightarrow>
        [''omniEvents! Object failure: '' @ io_repositoryID i @ profile_text (io_profiles i) @ threw_text name minor ex]) @
     [''omniEvents! Object failure detail: '' @ sior @ '' at '' @ here @ nl]"

text \<open>The overload for an object reference, which must not be nil.\<close>

definition reportObjectFailure :: "(exn \<Rightarrow> string) \<Rightarrow> (exn \<Rightarrow> string option) \<Rightarrow> env \<Rightarrow> (objref \<Rightarrow> ior) \<Rightarrow> string
    \<Rightarrow> objref option \<Rightarrow> exn option \<Rightarrow> exn + string list" where
  "reportObjectFailure name minor E ior_of here obj ex = (case obj of
      None \<Rightarrow> Inl AssertFail
    | Some x \<Rightarrow> Inr (failure_messages name minor here (env_object_to_string E x) (Some (ior_of x)) ex))"

text \<open>
  The mark in the text is the one the log function of the daemon looks for: every message of a
  failed object is an error, and comes without the name of the program.
\<close>

lemma failure_logged_as_error:
  assumes "m \<in> set (failure_messages name minor here sior ior ex)"
  shows "daemon_log m = (LOG_ERR, drop 12 m)"
proof -
  have two: "m = ''omniEvents! '' @ rest \<Longrightarrow> daemon_log m = (LOG_ERR, drop 12 m)" for rest
    unfolding daemon_log_strips by simp
  have "\<exists>rest. m = ''omniEvents! '' @ rest"
    using assms by (auto simp: failure_messages_def split: option.splits)
  then show ?thesis using two by blast
qed

lemma log_char_printable: "(of_char (log_char c) :: nat) \<in> {0x20..0x7E}"
  by (simp add: log_char_def)

section \<open>The whole of main\<close>

definition cb_start :: "service \<Rightarrow> callbacks" where
  "cb_start sv = \<lparr>cb_service = sv, cb_closed = [], cb_orphans = []\<rparr>"

text \<open>
  From the first statement to the end of \<^verbatim>\<open>main\<close>. \<open>others\<close> is everything but the main thread,
  with the worker of the logfile among it; \<open>stop\<close> is what the last calls to the ORB throw.
\<close>

definition main_program :: "platform \<Rightarrow> (char \<times> string option) list \<Rightarrow> (nat \<Rightarrow> callbacks \<times> world \<Rightarrow> callbacks \<times> world)
    \<Rightarrow> exn option \<Rightarrow> daemon \<Rightarrow> disk \<times> world \<Rightarrow> (ending \<times> daemon) option" where
  "main_program P args others stop dm dw =
     (case main_start P args dm dw of
        (Inl e, dm1, d1) \<Rightarrow> Some (main_ending e, dm1)
      | (Inr r, dm1, d1) \<Rightarrow>
          (case orb_run others (pf_env P) (service_callback (pf_env P)) 0
                  (cb_start (lg_service (rn_log r)), lg_world (rn_log r)) of
             None \<Rightarrow> None
           | Some bw \<Rightarrow> Some (case stop of None \<Rightarrow> Returns 0 | Some e \<Rightarrow> main_ending e, dm1)))"

definition has_pidfile :: "daemon \<Rightarrow> bool" where
  "has_pidfile st \<longleftrightarrow> (dm_pidfile st \<noteq> None \<longrightarrow> dm_havePidfile st)"

lemma d_must_pid: "d_must D c st = (ex, st1) \<Longrightarrow> dm_pidfile st1 = dm_pidfile st \<and> dm_havePidfile st1 = dm_havePidfile st"
  by (auto simp: daemon_ops)

lemma redirect_pid:
  "redirectStreamsTo D f st = (ex, st1) \<Longrightarrow> dm_pidfile st1 = dm_pidfile st \<and> dm_havePidfile st1 = dm_havePidfile st"
  by (auto simp: redirectStreamsTo_def daemon_ops split: if_splits)

lemma daemon_streams_pid: "daemon_streams D st = (ex, st1) \<Longrightarrow> has_pidfile st \<Longrightarrow> has_pidfile st1"
  by (auto simp: daemon_streams_def has_pidfile_def split: option.splits list.splits dest!: redirect_pid)

lemma daemonize_pid:
  assumes "daemonize D st = (None, st1)"
  shows "has_pidfile st1"
proof -
  obtain st3 ex st4 where m: "d_must D DChdir (writePidfile D st3) = (ex, st4)"
      and s: "daemon_streams D st4 = (None, st1)"
    using assms by (auto simp: daemonize_def then_do_def Let_def split: prod.splits option.splits)
  have "has_pidfile (writePidfile D st3)"
    by (auto simp: has_pidfile_def writePidfile_def d_call_def Let_def split: option.splits)
  then have "has_pidfile st4" using d_must_pid [OF m] by (simp add: has_pidfile_def)
  then show ?thesis using daemon_streams_pid [OF s] by simp
qed

lemma runningOk_pid: "runningOk D st = (ex, st1) \<Longrightarrow> has_pidfile st \<Longrightarrow> has_pidfile st1"
  by (auto simp: runningOk_def has_pidfile_def tell_parent_def notifyParent_def d_call_def Let_def
      split: if_splits dest!: redirect_pid)

lemma main_start_pid: "main_start P args dm dw = (Inr r, dm1, d1) \<Longrightarrow> has_pidfile dm1"
  by (auto simp: main_start_def split: sum.splits prod.splits option.splits dest: daemonize_pid runningOk_pid)

lemma shutdown_pid:
  assumes "has_pidfile st" and "dm_pidfile st = Some f" and "files_work D"
  shows "dm_files (daemon_shutdown D n st) f = None \<and> \<not> dm_havePidfile (daemon_shutdown D n st)"
  using assms
  by (auto simp: daemon_shutdown_def has_pidfile_def remove_pidfile_def tell_parent_def notifyParent_def d_call_def
      files_work_def split: prod.splits if_splits)

lemma returned_pid:
  assumes "has_pidfile st" and "dm_pidfile st = Some f" and "files_work D"
  shows "dm_files (daemon_end D (Returns 0) st) f = None"
proof -
  let ?s = "daemon_shutdown D 0 st"
  have s: "dm_files ?s f = None" "\<not> dm_havePidfile ?s" using shutdown_pid [OF assms] by blast+
  have "dm_files (daemon_shutdown D n ?s) f = None" for n
    using s by (simp add: daemon_shutdown_def [of D n] remove_pidfile_def tell_parent_def notifyParent_def d_call_def)
  then show ?thesis using s(1) by (simp add: exit_handler_def)
qed


lemma demo_service:
  "\<exists>r d1. start_service (demo_platform None) (default_options\<lparr>op_port := 80\<rparr>) N (bootstrap 80 None) (demo_disk, init_world True) = (Inr r, d1)"
proof -
  obtain lg d1 where i: "incarnateFactory (pf_os (demo_platform None)) (pf_env (demo_platform None)) N (pf_factory (demo_platform None))
      (bootstrap 80 None) (demo_disk, init_world True) = (Inr lg, d1)"
    using demo_incarnate [of N] by (auto simp: demo_platform_def)
  have o: "start_orb (demo_platform None) p e = Inr None" for p e
    by (simp add: start_orb_def demo_platform_def resolveInitialReferences_def resolve_needed_def resolve_optional_def)
  obtain w1 where g: "createGCPOA (pf_env (demo_platform None)) RootPOA ''Iterators'' (pf_gc (demo_platform None)) (lg_world lg) = (None, w1)"
    by (simp add: createGCPOA_def demo_platform_def idle_env_def)
  have f: "op_factoryName (default_options\<lparr>op_port := 80\<rparr>) = ''EventChannelFactory''" by (simp add: default_options_def)
  have "str2name ''EventChannelFactory'' = Inr [\<lparr>nc_id = ''EventChannelFactory'', nc_kind = []\<rparr>]" by code_simp
  then obtain nm where n: "str2name (op_factoryName (default_options\<lparr>op_port := 80\<rparr>)) = Inr nm" unfolding f by blast
  have b: "bindName2Object nv None nm obj [] = (Inr 1, [])" for nv obj by (simp add: bindName2Object_def)
  show ?thesis unfolding start_service_def o fst_conv sum.case i prod.case g option.case n b by blast
qed

lemma demo_runs:
  "\<exists>r dm1 d1. main_start (demo_platform None) [(CHR ''p'', Some ''80'')] (Daemon (\<lambda>_. None)) (demo_disk, init_world True) = (Inr r, dm1, d1)"
proof -
  let ?P = "demo_platform None" and ?o = "default_options\<lparr>op_port := 80\<rparr>"
  obtain N where N: "initializeFileNames (op_logDir ?o) (pf_logdir ?P) (pf_host ?P) = Inr N"
    using demo_names_file by (auto simp: demo_platform_def default_options_def)
  obtain dm where dm: "daemonize (pf_daemon ?P) (Daemon (\<lambda>_. None)) = (None, dm)"
    using demo_daemonize by (auto simp: demo_platform_def)
  obtain r d1 where s: "start_service ?P ?o N (bootstrap 80 None) (demo_disk, init_world True) = (Inr r, d1)"
    using demo_service by blast
  obtain dm1 where k: "runningOk (pf_daemon ?P) dm = (None, dm1)"
  proof -
    have "\<not> dp_fails (pf_daemon ?P) cs (DOpen f)" for cs f by (simp add: demo_platform_def demo_os_def)
    then have "fst (runningOk (pf_daemon ?P) dm) = None" by (simp add: runningOk_def redirectStreamsTo_def daemon_ops)
    then show ?thesis using that by (metis prod.collapse)
  qed
  show ?thesis unfolding main_start_def demo_options sum.case prod.case N fst_conv demo_start dm option.case s k by blast
qed


end
