(* ===== verification/Example_Clients.thy ===== *)
theory Example_Clients
  imports Event_Streamer Service_Run
begin

text \<open>
  The four clients of \<^verbatim>\<open>examples/\<close>: \<^verbatim>\<open>pushsupp\<close> and \<^verbatim>\<open>pullsupp\<close> supply consecutive numbers to a
  channel, \<^verbatim>\<open>pushcons\<close> and \<^verbatim>\<open>pullcons\<close> print what they get; each of them disconnects after a number of
  events, sleeps, and connects again, for ever. \<^verbatim>\<open>Example_Runs\<close> says what they do.
\<close>

section \<open>What the clients share\<close>

text \<open>
  Outside a client, besides the remote objects: the POA manager, \<^verbatim>\<open>omni_thread::sleep\<close>, the two
  operations that return an event, and the wait for the signal of a servant (\<open>None\<close> if it does
  not come).
\<close>

record 'w example =
  ex_activate :: "'w \<Rightarrow> (exn + unit) \<times> 'w"
  ex_sleep :: "int \<Rightarrow> 'w \<Rightarrow> 'w"
  ex_pull :: "rcall \<Rightarrow> 'w \<Rightarrow> (exn + any) \<times> 'w"
  ex_try_pull :: "rcall \<Rightarrow> 'w \<Rightarrow> (exn + any \<times> bool) \<times> 'w"
  ex_wait :: "'w \<Rightarrow> 'w option"

record example_options =
  xo_discnum :: int
  xo_refnil :: bool
  xo_sleepInterval :: int
  xo_channelName :: string
  xo_trymode :: bool

definition example_defaults :: example_options where
  "example_defaults = \<lparr>xo_discnum = 0, xo_refnil = False, xo_sleepInterval = 0, xo_channelName = ''EventChannel'',
     xo_trymode = False\<rparr>"

text \<open>The options of all four; \<open>more\<close> are those that only some of them have.\<close>

definition example_option :: "int \<Rightarrow> (example_options \<Rightarrow> char \<Rightarrow> example_options option) \<Rightarrow> example_options
    \<Rightarrow> char \<times> string option \<Rightarrow> exn + example_options" where
  "example_option help extra o1 co = (case co of (c, optarg) \<Rightarrow>
     (if c = CHR ''d'' then with_optarg optarg (\<lambda>s. Inr (o1\<lparr>xo_discnum := atoi s\<rparr>))
      else if c = CHR ''s'' then with_optarg optarg (\<lambda>s. Inr (o1\<lparr>xo_sleepInterval := atoi s\<rparr>))
      else if c = CHR ''n'' then with_optarg optarg (\<lambda>s. Inr (o1\<lparr>xo_channelName := s\<rparr>))
      else case extra o1 c of
             Some o2 \<Rightarrow> Inr o2
           | None \<Rightarrow> Inl (ProcessExit (if c = CHR ''h'' then help else -1))))"

definition no_extra :: "example_options \<Rightarrow> char \<Rightarrow> example_options option" where
  "no_extra o1 c = None"

text \<open>A call that is made again as long as communication fails; \<open>None\<close> if it never ends.\<close>

partial_function (option) retry :: "(rcall \<Rightarrow> 'w \<Rightarrow> (exn + 'a) \<times> 'w) \<Rightarrow> rcall \<Rightarrow> string \<Rightarrow> 'w client \<Rightarrow> ('w, 'a) answer option" where
  "retry f c what t = (case invoke f c t of
      (Inr a, t1) \<Rightarrow> Some (Inr a, t1)
    | (Inl e, t1) \<Rightarrow>
        if e = COMM_FAILURE then retry f c what (cerr (''Caught COMM_FAILURE '' @ what @ ''! Retrying...'' @ nl) t1)
        else Some (Inl e, t1))"

declare retry.simps [code]

definition then_o :: "('w, 'a) answer option \<Rightarrow> ('a \<Rightarrow> 'w client \<Rightarrow> ('w, 'b) answer option) \<Rightarrow> ('w, 'b) answer option" where
  "then_o m f = (case m of None \<Rightarrow> None | Some (Inl e, t) \<Rightarrow> Some (Inl e, t) | Some (Inr a, t) \<Rightarrow> f a t)"

text \<open>An object that must not be nil.\<close>

definition obtain_ref :: "'w remote \<Rightarrow> rcall \<Rightarrow> string \<Rightarrow> string \<Rightarrow> string \<Rightarrow> 'w client \<Rightarrow> ('w, objref) answer option" where
  "obtain_ref R c what nilmsg done t =
     then_o (retry (rm_ref R) c what t) (\<lambda>r t1. Some (case r of
         None \<Rightarrow> exit_with 1 (nilmsg @ nl) t1
       | Some x \<Rightarrow> (Inr x, cout (done @ nl) t1)))"

text \<open>\<^verbatim>\<open>BAD_PARAM\<close> ends the client, \<^verbatim>\<open>AlreadyConnected\<close> is taken for success.\<close>

definition connect_ref :: "'w remote \<Rightarrow> rcall \<Rightarrow> string \<Rightarrow> string \<Rightarrow> string \<Rightarrow> string \<Rightarrow> 'w client \<Rightarrow> ('w, unit) answer option" where
  "connect_ref R c what badmsg already done t =
     map_option (\<lambda>(r, t1). case r of
         Inl e \<Rightarrow> if e = BAD_PARAM then exit_with 1 (badmsg @ nl) t1
                  else if e = AlreadyConnected then (Inr (), cout (done @ nl) (cerr (already @ nl) t1))
                  else (Inl e, t1)
       | Inr _ \<Rightarrow> (Inr (), cout (done @ nl) t1)) (retry (rm_unit R) c what t)"

definition disconnect_ref :: "'w example \<Rightarrow> 'w remote \<Rightarrow> rcall \<Rightarrow> string \<Rightarrow> string \<Rightarrow> int \<Rightarrow> 'w client \<Rightarrow> ('w, unit) answer option" where
  "disconnect_ref X R c what done sleepInterval t =
     then_o (retry (rm_unit R) c what t) (\<lambda>_ t1.
       let t2 = cout (''Sleeping '' @ show_int sleepInterval @ '' seconds.'' @ nl) (cout (done @ nl) t1)
       in Some (Inr (), t2\<lparr>cl_world := ex_sleep X sleepInterval (cl_world t2)\<rparr>))"

text \<open>The root POA, unless the client is a pure one, and the channel; a failure ends the process.\<close>

definition poa_active :: "'w example \<Rightarrow> 'w remote \<Rightarrow> 'w client \<Rightarrow> ('w, unit) answer" where
  "poa_active X R t =
     then_r (invoke (rm_ref R) (RcResolveInitial ''RootPOA'') (doing (''resolve initial reference '' @ quoted ''RootPOA'') t))
       (\<lambda>obj t1.
     then_r (invoke (rm_ref R) (RcNarrow ''PortableServer::POA'' obj) t1) (\<lambda>poa t2.
       if poa = None then (Inl OBJECT_NOT_EXIST, t2)
       else (case ex_activate X (cl_world t2) of
               (r, w) \<Rightarrow> (r, (doing (''activate the RootPOA'' @ [CHR 0x27] @ ''s POAManager'') t2)\<lparr>cl_world := w\<rparr>))))"

definition or_exit :: "'w remote \<Rightarrow> ('w, 'a) answer \<Rightarrow> ('w, 'a) answer" where
  "or_exit R m = (case m of
      (Inr a, t) \<Rightarrow> (Inr a, t)
    | (Inl e, t) \<Rightarrow> (case catch_naming R (Inl e, t) of
          (Inr status, t1) \<Rightarrow> (Inl (ProcessExit status), t1)
        | (Inl e1, t1) \<Rightarrow> (Inl e1, t1)))"

definition open_channel :: "'w example \<Rightarrow> 'w remote \<Rightarrow> bool \<Rightarrow> string \<Rightarrow> string list \<Rightarrow> 'w client \<Rightarrow> ('w, objref) answer" where
  "open_channel X R servant channelName args t = or_exit R
     (then_r (if servant then poa_active X R t else (Inr (), t)) (\<lambda>_.
        events_channel R \<lparr>ev_supplierMode = False, ev_channelName = channelName\<rparr> args))"

section \<open>pushsupp\<close>

definition supp_option :: "example_options \<Rightarrow> char \<times> string option \<Rightarrow> exn + example_options" where
  "supp_option = example_option (-1) (\<lambda>o1 c. if c = CHR ''r'' then Some (o1\<lparr>xo_refnil := True\<rparr>) else None)"

text \<open>One event. What \<^verbatim>\<open>push\<close> raises besides these two is not caught.\<close>

definition pushsupp_push :: "'w remote \<Rightarrow> objref \<Rightarrow> int \<Rightarrow> 'w client \<Rightarrow> ('w, unit) answer" where
  "pushsupp_push R proxy_consumer l t =
     (case invoke (rm_unit R) (RcPush proxy_consumer (any_of_ulong (word_of_int l))) (cout ''Push Supplier: push() called. '' t) of
        (Inr _, t1) \<Rightarrow> (Inr (), cout (''Data : '' @ show_int l @ nl) t1)
      | (Inl e, t1) \<Rightarrow>
          if e = Disconnected then (Inr (), cout (''Failed. Caught Disconnected Exception!'' @ nl) t1)
          else if e = COMM_FAILURE then (Inr (), cout (''Failed. Caught COMM_FAILURE Exception!'' @ nl) t1)
          else (Inl e, t1))"

partial_function (option) pushsupp_pushes :: "'w remote \<Rightarrow> int \<Rightarrow> objref \<Rightarrow> int \<Rightarrow> int \<Rightarrow> 'w client \<Rightarrow> ('w, int) answer option" where
  "pushsupp_pushes R discnum proxy_consumer i l t =
     (if discnum = 0 \<or> i < discnum
      then (case pushsupp_push R proxy_consumer l t of
              (Inl e, t1) \<Rightarrow> Some (Inl e, t1)
            | (Inr _, t1) \<Rightarrow> pushsupp_pushes R discnum proxy_consumer (i + 1) (l + 1) t1)
      else Some (Inr l, t))"

declare pushsupp_pushes.simps [code]

definition pushsupp_cycle :: "'w example \<Rightarrow> 'w remote \<Rightarrow> example_options \<Rightarrow> objref \<Rightarrow> objref \<Rightarrow> int \<Rightarrow> 'w client
    \<Rightarrow> ('w, int) answer option" where
  "pushsupp_cycle X R o1 self supplier_admin l t =
     then_o (obtain_ref R (RcObtainPushConsumer supplier_admin) ''Exception obtaining Proxy Push Consumer''
         ''Supplier Admin returned nil proxy_consumer!'' ''Obtained ProxyPushConsumer.'' t) (\<lambda>proxy_consumer t1.
     then_o (connect_ref R (RcConnectPushSupplier proxy_consumer (if xo_refnil o1 then None else Some self))
         ''Exception connecting Push Supplier'' ''Caught BAD_PARAM Exception connecting Push Supplier!''
         ''Proxy Push Consumer already connected!'' ''Connected Push Supplier.'' t1) (\<lambda>_ t2.
     then_o (pushsupp_pushes R (xo_discnum o1) proxy_consumer 0 l t2) (\<lambda>l1 t3.
     then_o (disconnect_ref X R (RcDisconnect ''disconnect_push_consumer'' proxy_consumer) ''Exception disconnecting Push Supplier''
         ''ProxyPushConsumer disconnected.'' (xo_sleepInterval o1) t3) (\<lambda>_ t4. Some (Inr l1, t4)))))"

partial_function (option) pushsupp_loop :: "'w example \<Rightarrow> 'w remote \<Rightarrow> example_options \<Rightarrow> objref \<Rightarrow> objref \<Rightarrow> int \<Rightarrow> 'w client
    \<Rightarrow> ('w, int) answer option" where
  "pushsupp_loop X R o1 self supplier_admin l t = (case pushsupp_cycle X R o1 self supplier_admin l t of
      None \<Rightarrow> None
    | Some (Inl e, t1) \<Rightarrow> Some (Inl e, t1)
    | Some (Inr l1, t1) \<Rightarrow> pushsupp_loop X R o1 self supplier_admin l1 t1)"

definition pushsupp_main :: "'w example \<Rightarrow> 'w remote \<Rightarrow> objref \<Rightarrow> example_options \<Rightarrow> string list \<Rightarrow> 'w client
    \<Rightarrow> ('w, int) answer option" where
  "pushsupp_main X R self o1 args t =
     then_o (Some (open_channel X R (\<not> xo_refnil o1) (xo_channelName o1) args t)) (\<lambda>channel t1.
     then_o (obtain_ref R (RcForSuppliers channel) ''Exception obtaining Supplier Admin'' ''Event Channel returned nil Supplier Admin!''
         ''Obtained SupplierAdmin.'' t1) (\<lambda>supplier_admin t2. pushsupp_loop X R o1 self supplier_admin 0 t2))"

definition pushsupp :: "'w example \<Rightarrow> 'w remote \<Rightarrow> objref \<Rightarrow> string list \<Rightarrow> 'w client \<Rightarrow> ('w, int) answer option" where
  "pushsupp X R self argv t =
     run_tool ''d:rs:n:h'' supp_option example_defaults (pushsupp_main X R self) (\<lambda>e. Some (Inl e, t)) argv t"

section \<open>pullsupp\<close>

text \<open>The servant: \<^verbatim>\<open>pull\<close> and \<^verbatim>\<open>try_pull\<close> return the next number and count; the second result is the post of \<^verbatim>\<open>connect_cond\<close>.\<close>

record pull_supplier =
  us_i :: int
  us_disconnect :: int
  us_l :: ulong

definition Supplier_i :: "int \<Rightarrow> pull_supplier" where
  "Supplier_i disconnect = \<lparr>us_i = 0, us_disconnect = disconnect, us_l = 0\<rparr>"

definition us_count :: "pull_supplier \<Rightarrow> bool \<times> pull_supplier" where
  "us_count u =
     (if us_disconnect u > 0 \<and> us_i u = us_disconnect u then (True, u\<lparr>us_i := 1\<rparr>)
      else (False, u\<lparr>us_i := us_i u + 1\<rparr>))"

definition us_pull :: "pull_supplier \<Rightarrow> (any \<times> bool) \<times> pull_supplier" where
  "us_pull u = (case us_count (u\<lparr>us_l := us_l u + 1\<rparr>) of (posted, u1) \<Rightarrow> ((any_of_ulong (us_l u), posted), u1))"

definition us_try_pull :: "pull_supplier \<Rightarrow> (any \<times> bool \<times> bool) \<times> pull_supplier" where
  "us_try_pull u = (case us_count (u\<lparr>us_l := us_l u + 1\<rparr>) of (posted, u1) \<Rightarrow> ((any_of_ulong (us_l u), True, posted), u1))"

definition us_text :: "string \<Rightarrow> ulong \<Rightarrow> string" where
  "us_text name l = ''Pull Supplier: '' @ name @ ''() called. Data : '' @ show_int (uint l) @ nl"

definition pullsupp_cycle :: "'w example \<Rightarrow> 'w remote \<Rightarrow> example_options \<Rightarrow> objref \<Rightarrow> objref \<Rightarrow> 'w client
    \<Rightarrow> ('w, unit) answer option" where
  "pullsupp_cycle X R o1 self supplier_admin t =
     then_o (obtain_ref R (RcObtainPullConsumer supplier_admin) ''exception obtaining Proxy Pull Consumer''
         ''Supplier Admin returned nil proxy_consumer!'' ''Obtained ProxyPullConsumer.'' t) (\<lambda>proxy_consumer t1.
     then_o (connect_ref R (RcConnectPullSupplier proxy_consumer (Some self)) ''exception connecting Pull Supplier''
         ''Caught BAD_PARAM Exception connecting Pull Supplier!'' ''Pull Supplier already connected!''
         ''Connected Pull Supplier.'' t1) (\<lambda>_ t2.
     case ex_wait X (cl_world t2) of
       None \<Rightarrow> None
     | Some w \<Rightarrow> disconnect_ref X R (RcDisconnect ''disconnect_pull_consumer'' proxy_consumer) ''exception disconnecting Pull Supplier''
         ''Disconnected Pull Supplier.'' (xo_sleepInterval o1) (t2\<lparr>cl_world := w\<rparr>)))"

partial_function (option) pullsupp_loop :: "'w example \<Rightarrow> 'w remote \<Rightarrow> example_options \<Rightarrow> objref \<Rightarrow> objref \<Rightarrow> 'w client
    \<Rightarrow> ('w, int) answer option" where
  "pullsupp_loop X R o1 self supplier_admin t = (case pullsupp_cycle X R o1 self supplier_admin t of
      None \<Rightarrow> None
    | Some (Inl e, t1) \<Rightarrow> Some (Inl e, t1)
    | Some (Inr _, t1) \<Rightarrow> pullsupp_loop X R o1 self supplier_admin t1)"

definition pullsupp_main :: "'w example \<Rightarrow> 'w remote \<Rightarrow> objref \<Rightarrow> example_options \<Rightarrow> string list \<Rightarrow> 'w client
    \<Rightarrow> ('w, int) answer option" where
  "pullsupp_main X R self o1 args t =
     then_o (Some (open_channel X R True (xo_channelName o1) args t)) (\<lambda>channel t1.
     then_o (obtain_ref R (RcForSuppliers channel) ''exception obtaining Supplier Admin'' ''Event Channel returned nil Supplier Admin!''
         ''Obtained SupplierAdmin.'' t1) (\<lambda>supplier_admin t2. pullsupp_loop X R o1 self supplier_admin t2))"

definition pullsupp :: "'w example \<Rightarrow> 'w remote \<Rightarrow> objref \<Rightarrow> string list \<Rightarrow> 'w client \<Rightarrow> ('w, int) answer option" where
  "pullsupp X R self argv t =
     run_tool ''d:s:n:h'' (example_option (-1) no_extra) example_defaults (pullsupp_main X R self) (\<lambda>e. Some (Inl e, t)) argv t"


section \<open>pushcons\<close>

text \<open>
  The servant counts every call in the static \<^verbatim>\<open>i\<close>, but compares it with the number of events
  only if the event is a number; the second result is the signal to the main thread.
\<close>

record push_consumer =
  uc_i :: "32 word"
  uc_disconnect :: int

definition Consumer_i :: "int \<Rightarrow> push_consumer" where
  "Consumer_i disconnect = \<lparr>uc_i = 0, uc_disconnect = disconnect\<rparr>"

definition uc_push :: "any \<Rightarrow> push_consumer \<Rightarrow> (string \<times> string \<times> bool) \<times> push_consumer" where
  "uc_push data u =
     (let u1 = u\<lparr>uc_i := uc_i u + 1\<rparr>
      in case any_ulong data of
           Some l \<Rightarrow>
             (let text = ''Push Consumer: push() called. Data : '' @ show_int (uint l) @ nl
              in if sint (uc_i u1) = uc_disconnect u then ((text, [], True), u1\<lparr>uc_i := 0\<rparr>) else ((text, [], False), u1))
         | None \<Rightarrow> (([], ''Push Consumer: push() called. UNEXPECTED TYPE'' @ nl, False), u1))"

definition pushcons_cycle :: "'w example \<Rightarrow> 'w remote \<Rightarrow> example_options \<Rightarrow> objref \<Rightarrow> objref \<Rightarrow> 'w client
    \<Rightarrow> ('w, unit) answer option" where
  "pushcons_cycle X R o1 self consumer_admin t =
     then_o (obtain_ref R (RcObtainPushSupplier consumer_admin) ''Exception obtaining Push Supplier''
         ''Consumer Admin returned nil proxy_supplier!'' ''Obtained ProxyPushSupplier.'' t) (\<lambda>proxy_supplier t1.
     then_o (connect_ref R (RcConnectPushConsumer proxy_supplier (Some self)) ''exception connecting Push Consumer''
         ''Caught BAD_PARAM Exception connecting Push Consumer!'' ''Proxy Push Supplier already connected!''
         ''Connected Push Consumer.'' t1) (\<lambda>_ t2.
     case ex_wait X (cl_world t2) of
       None \<Rightarrow> None
     | Some w \<Rightarrow> disconnect_ref X R (RcDisconnect ''disconnect_push_supplier'' proxy_supplier) ''Exception disconnecting Push Consumer''
         ''Disconnected Push Consumer.'' (xo_sleepInterval o1) (t2\<lparr>cl_world := w\<rparr>)))"

partial_function (option) pushcons_loop :: "'w example \<Rightarrow> 'w remote \<Rightarrow> example_options \<Rightarrow> objref \<Rightarrow> objref \<Rightarrow> 'w client
    \<Rightarrow> ('w, int) answer option" where
  "pushcons_loop X R o1 self consumer_admin t = (case pushcons_cycle X R o1 self consumer_admin t of
      None \<Rightarrow> None
    | Some (Inl e, t1) \<Rightarrow> Some (Inl e, t1)
    | Some (Inr _, t1) \<Rightarrow> pushcons_loop X R o1 self consumer_admin t1)"

definition pushcons_main :: "'w example \<Rightarrow> 'w remote \<Rightarrow> objref \<Rightarrow> example_options \<Rightarrow> string list \<Rightarrow> 'w client
    \<Rightarrow> ('w, int) answer option" where
  "pushcons_main X R self o1 args t =
     then_o (Some (open_channel X R True (xo_channelName o1) args t)) (\<lambda>channel t1.
     then_o (obtain_ref R (RcForConsumers channel) ''exception obtaining Consumer Admin'' ''Event Channel returned nil Consumer Admin!''
         ''Obtained ConsumerAdmin.'' t1) (\<lambda>consumer_admin t2. pushcons_loop X R o1 self consumer_admin t2))"

definition pushcons :: "'w example \<Rightarrow> 'w remote \<Rightarrow> objref \<Rightarrow> string list \<Rightarrow> 'w client \<Rightarrow> ('w, int) answer option" where
  "pushcons X R self argv t =
     run_tool ''hd:s:n:'' (example_option 0 no_extra) example_defaults (pushcons_main X R self) (\<lambda>e. Some (Inl e, t)) argv t"

section \<open>pullcons\<close>

definition cons_option :: "example_options \<Rightarrow> char \<times> string option \<Rightarrow> exn + example_options" where
  "cons_option = example_option (-1) (\<lambda>o1 c. if c = CHR ''r'' then Some (o1\<lparr>xo_refnil := True\<rparr>)
     else if c = CHR ''t'' then Some (o1\<lparr>xo_trymode := True\<rparr>) else None)"

text \<open>What is printed of an event: 0 if it is not a number.\<close>

definition data_text :: "any \<Rightarrow> string" where
  "data_text data = show_int (case any_ulong data of None \<Rightarrow> 0 | Some l \<Rightarrow> uint l) @ nl"

definition pullcons_try :: "'w example \<Rightarrow> 'w remote \<Rightarrow> objref \<Rightarrow> 'w client \<Rightarrow> ('w, unit) answer" where
  "pullcons_try X R proxy_supplier t = (case invoke (ex_try_pull X) (RcTryPull proxy_supplier) t of
      (Inr (data, hasEvent), t1) \<Rightarrow>
        (Inr (), cout (''Consumer: try_pull() called. Data : '' @ (if hasEvent then data_text data else ''None'' @ nl)) t1)
    | (Inl e, t1) \<Rightarrow>
        if \<not> is_corba_exn e then (Inl e, t1)
        else (Inr (), cerr (if e = Disconnected then ''Failed. Caught Disconnected Exception !'' @ nl
                 else if e = COMM_FAILURE then ''Failed. Caught COMM_FAILURE Exception !'' @ nl
                 else ''CORBA exception, unable to try_pull(): '' @ rm_name R e @ nl) (cout nl t1)))"

definition pullcons_pull :: "'w example \<Rightarrow> 'w remote \<Rightarrow> objref \<Rightarrow> 'w client \<Rightarrow> ('w, unit) answer" where
  "pullcons_pull X R proxy_supplier t =
     (case invoke (ex_pull X) (RcPull proxy_supplier) (cout ''Pull Consumer: pull() called. '' t) of
        (Inr data, t1) \<Rightarrow> (Inr (), cout (''Data : '' @ data_text data) t1)
      | (Inl e, t1) \<Rightarrow>
          if \<not> is_corba_exn e then (Inl e, t1)
          else if e = TRANSIENT
          then (let t2 = cout (''caught TRANSIENT.'' @ nl) t1 in (Inr (), t2\<lparr>cl_world := ex_sleep X 1 (cl_world t2)\<rparr>))
          else exit_with 1 (if e = Disconnected then ''Failed. Caught Disconnected exception!'' @ nl
                 else if e = COMM_FAILURE then ''Failed. Caught COMM_FAILURE exception!'' @ nl
                 else if is_system_exn e then ''System exception, unable to pull():'' @ sys_text R e @ nl
                 else ''CORBA exception, unable to pull(): '' @ rm_name R e @ nl) (cout nl t1))"

partial_function (option) pullcons_pulls :: "'w example \<Rightarrow> 'w remote \<Rightarrow> example_options \<Rightarrow> objref \<Rightarrow> int \<Rightarrow> 'w client
    \<Rightarrow> ('w, unit) answer option" where
  "pullcons_pulls X R o1 proxy_supplier i t =
     (if xo_discnum o1 = 0 \<or> i < xo_discnum o1
      then (case (if xo_trymode o1 then pullcons_try X R proxy_supplier t else pullcons_pull X R proxy_supplier t) of
              (Inl e, t1) \<Rightarrow> Some (Inl e, t1)
            | (Inr _, t1) \<Rightarrow> pullcons_pulls X R o1 proxy_supplier (i + 1) t1)
      else Some (Inr (), t))"

declare pullcons_pulls.simps [code]

definition pullcons_cycle :: "'w example \<Rightarrow> 'w remote \<Rightarrow> example_options \<Rightarrow> objref \<Rightarrow> objref \<Rightarrow> 'w client
    \<Rightarrow> ('w, unit) answer option" where
  "pullcons_cycle X R o1 self consumer_admin t =
     then_o (obtain_ref R (RcObtainPullSupplier consumer_admin) ''Exception obtaining Pull Supplier''
         ''Consumer Admin returned nil Proxy Supplier!'' ''Obtained ProxyPullSupplier.'' t) (\<lambda>proxy_supplier t1.
     then_o (connect_ref R (RcConnectPullConsumer proxy_supplier (if xo_refnil o1 then None else Some self))
         ''Exception connecting Pull Consumer'' ''Caught BAD_PARAM exception connecting Pull Consumer!''
         ''Proxy Pull Supplier already connected!'' ''Connected Pull Consumer.'' t1) (\<lambda>_ t2.
     then_o (pullcons_pulls X R o1 proxy_supplier 0 t2) (\<lambda>_ t3.
     disconnect_ref X R (RcDisconnect ''disconnect_pull_supplier'' proxy_supplier) ''exception disconnecting Pull Consumer''
         ''Disconnected Pull Consumer.'' (xo_sleepInterval o1) t3)))"

partial_function (option) pullcons_loop :: "'w example \<Rightarrow> 'w remote \<Rightarrow> example_options \<Rightarrow> objref \<Rightarrow> objref \<Rightarrow> 'w client
    \<Rightarrow> ('w, int) answer option" where
  "pullcons_loop X R o1 self consumer_admin t = (case pullcons_cycle X R o1 self consumer_admin t of
      None \<Rightarrow> None
    | Some (Inl e, t1) \<Rightarrow> Some (Inl e, t1)
    | Some (Inr _, t1) \<Rightarrow> pullcons_loop X R o1 self consumer_admin t1)"

definition pullcons_main :: "'w example \<Rightarrow> 'w remote \<Rightarrow> objref \<Rightarrow> example_options \<Rightarrow> string list \<Rightarrow> 'w client
    \<Rightarrow> ('w, int) answer option" where
  "pullcons_main X R self o1 args t =
     then_o (Some (open_channel X R (\<not> xo_refnil o1) (xo_channelName o1) args t)) (\<lambda>channel t1.
     then_o (obtain_ref R (RcForConsumers channel) ''exception obtaining Consumer Admin'' ''Event Channel returned nil Consumer Admin!''
         ''Obtained Consumer Admin.'' t1) (\<lambda>consumer_admin t2. pullcons_loop X R o1 self consumer_admin t2))"

definition pullcons :: "'w example \<Rightarrow> 'w remote \<Rightarrow> objref \<Rightarrow> string list \<Rightarrow> 'w client \<Rightarrow> ('w, int) answer option" where
  "pullcons X R self argv t =
     run_tool ''td:rs:n:h'' cons_option example_defaults (pullcons_main X R self) (\<lambda>e. Some (Inl e, t)) argv t"

end
