(* ===== verification/Example_Runs.thy ===== *)
theory Example_Runs
  imports Example_Clients
begin

text \<open>
  Runs of the four example clients: what \<^verbatim>\<open>pushsupp\<close> sends in any number of cycles of its endless
  loop, what of it a push proxy sends to its consumer when the objects it talks to are the model
  of the channel, and after how many events \<^verbatim>\<open>pullsupp\<close> and \<^verbatim>\<open>pushcons\<close> really disconnect.
\<close>

section \<open>What the clients do\<close>

text \<open>Communication fails only a finite number of times.\<close>

inductive recovers :: "(rcall \<Rightarrow> 'w \<Rightarrow> (exn + 'a) \<times> 'w) \<Rightarrow> rcall \<Rightarrow> 'w \<Rightarrow> bool" for f c where
  answers: "fst (f c w) \<noteq> Inl COMM_FAILURE \<Longrightarrow> recovers f c w"
| again: "f c w = (Inl COMM_FAILURE, w1) \<Longrightarrow> recovers f c w1 \<Longrightarrow> recovers f c w"

definition faults_end :: "'w remote \<Rightarrow> bool" where
  "faults_end R \<longleftrightarrow> (\<forall>c w. recovers (rm_ref R) c w \<and> recovers (rm_unit R) c w)"

text \<open>The numbers of the events that a list of calls pushes.\<close>

fun offered_by :: "rcall \<Rightarrow> any list" where
  "offered_by (RcPush p a) = [a]"
| "offered_by _ = []"

definition offered :: "rcall list \<Rightarrow> any list" where
  "offered cs = concat (map offered_by cs)"

lemma offered_append [simp]: "offered (cs @ ds) = offered cs @ offered ds"
  by (simp add: offered_def)

lemma offered_simps [simp]: "offered [] = []" "offered (c # cs) = offered_by c @ offered cs"
  by (simp_all add: offered_def)

lemma client_simps [simp]:
  "cl_calls (cout s t) = cl_calls t" "cl_calls (cerr s t) = cl_calls t"
  "cl_world (cout s t) = cl_world t" "cl_world (cerr s t) = cl_world t"
  by (simp_all add: cout_def cerr_def)

lemma invoke_cases:
  obtains r w where "f c (cl_world t) = (r, w)" "invoke f c t = (r, t\<lparr>cl_world := w, cl_calls := cl_calls t @ [c]\<rparr>)"
  by (cases "f c (cl_world t)") (simp add: invoke_def)

definition numbers :: "int \<Rightarrow> nat \<Rightarrow> any list" where
  "numbers l k = map (\<lambda>j. any_of_ulong (word_of_int (l + int j))) [0..<k]"

lemma numbers_0 [simp]: "numbers l 0 = []"
  by (simp add: numbers_def)

lemma numbers_append: "numbers l k @ numbers (l + int k) m = numbers l (k + m)"
  by (induction m) (simp_all add: numbers_def add.assoc)

lemma numbers_1: "numbers l (Suc 0) = [any_of_ulong (word_of_int l)]"
  by (simp add: numbers_def)

text \<open>
  A part of a client that returns, and pushes the numbers from \<open>l\<close> on: \<open>n\<close> of them unless it
  ends with an exception, which it does not if it is \<open>safe\<close>. \<open>I\<close> is an invariant of the client
  and its world.
\<close>

definition offers :: "bool \<Rightarrow> ('w client \<Rightarrow> bool) \<Rightarrow> ('w, 'a) answer option \<Rightarrow> 'w client \<Rightarrow> int \<Rightarrow> nat \<Rightarrow> ('a \<Rightarrow> bool) \<Rightarrow> bool" where
  "offers safe I m t l n Q \<longleftrightarrow> (I t \<longrightarrow> (\<exists>r t1 k. m = Some (r, t1) \<and> I t1 \<and>
     offered (cl_calls t1) = offered (cl_calls t) @ numbers l k \<and>
     (case r of Inl e \<Rightarrow> \<not> safe | Inr a \<Rightarrow> k = n \<and> Q a)))"

lemma offers_quiet:
  assumes "m = Some (r, t1)" and "offered (cl_calls t1) = offered (cl_calls t)" and "I t \<Longrightarrow> I t1"
    and "I t \<Longrightarrow> safe \<Longrightarrow> \<exists>a. r = Inr a"
  shows "offers safe I m t l 0 (\<lambda>_. True)"
  unfolding offers_def using assms by (intro impI exI [of _ r] exI [of _ t1] exI [of _ 0]) (auto split: sum.split)

lemma offers_then:
  assumes "offers safe I m t l n Q" and "\<And>a t1. Q a \<Longrightarrow> offers safe I (f a t1) t1 (l + int n) n' Q'"
  shows "offers safe I (then_o m f) t l (n + n') Q'"
  unfolding offers_def
proof
  assume "I t"
  then obtain r t1 k where m: "m = Some (r, t1)" "I t1" "offered (cl_calls t1) = offered (cl_calls t) @ numbers l k"
    and r: "case r of Inl e \<Rightarrow> \<not> safe | Inr a \<Rightarrow> k = n \<and> Q a" using assms(1) unfolding offers_def by blast
  show "\<exists>r t1 k. then_o m f = Some (r, t1) \<and> I t1 \<and> offered (cl_calls t1) = offered (cl_calls t) @ numbers l k \<and>
     (case r of Inl e \<Rightarrow> \<not> safe | Inr a \<Rightarrow> k = n + n' \<and> Q' a)"
  proof (cases r)
    case (Inl e)
    then show ?thesis using m r unfolding then_o_def
      by (intro exI [of _ "Inl e"] exI [of _ t1] exI [of _ k]) simp
  next
    case (Inr a)
    then have "Q a" "k = n" using r by simp_all
    from assms(2) [OF this(1), of t1] m(2) obtain r' t2 k' where f: "f a t1 = Some (r', t2)" "I t2"
      "offered (cl_calls t2) = offered (cl_calls t1) @ numbers (l + int n) k'"
      "case r' of Inl e \<Rightarrow> \<not> safe | Inr a \<Rightarrow> k' = n' \<and> Q' a" unfolding offers_def by blast
    have "offered (cl_calls t2) = offered (cl_calls t) @ numbers l (n + k')"
      using m(3) f(3) \<open>k = n\<close> by (simp add: numbers_append [symmetric])
    then show ?thesis using m(1) f Inr unfolding then_o_def
      by (intro exI [of _ r'] exI [of _ t2] exI [of _ "n + k'"]) (simp split: sum.splits)
  qed
qed

lemma quiet_then:
  "offers safe I m t l 0 Q \<Longrightarrow> (\<And>a t1. Q a \<Longrightarrow> offers safe I (f a t1) t1 l n Q') \<Longrightarrow> offers safe I (then_o m f) t l n Q'"
  using offers_then [of safe I m t l 0 Q f n Q'] by simp

lemma offers_then_quiet:
  "offers safe I m t l n Q \<Longrightarrow> (\<And>a t1. Q a \<Longrightarrow> offers safe I (f a t1) t1 (l + int n) 0 Q') \<Longrightarrow> offers safe I (then_o m f) t l n Q'"
  using offers_then [of safe I m t l n Q f 0 Q'] by simp

lemma offers_done: "Q a \<Longrightarrow> offers safe I (Some (Inr a, t)) t l 0 Q"
  unfolding offers_def by (intro impI exI [of _ "Inr a"] exI [of _ t] exI [of _ 0]) simp

lemma pushsupp_pushes_step:
  "discnum = 0 \<or> i < discnum \<Longrightarrow> pushsupp_pushes R discnum p i l t =
     then_o (Some (pushsupp_push R p l t)) (\<lambda>_ t1. pushsupp_pushes R discnum p (i + 1) (l + 1) t1)"
  by (subst pushsupp_pushes.simps) (simp add: then_o_def)

text \<open>The cycles of the endless loop, a number of them.\<close>

fun pushsupp_cycles :: "'w example \<Rightarrow> 'w remote \<Rightarrow> example_options \<Rightarrow> objref \<Rightarrow> objref \<Rightarrow> nat \<Rightarrow> int \<Rightarrow> 'w client
    \<Rightarrow> ('w, int) answer option" where
  "pushsupp_cycles X R o1 self admin 0 l t = Some (Inr l, t)"
| "pushsupp_cycles X R o1 self admin (Suc n) l t =
     then_o (pushsupp_cycle X R o1 self admin l t) (pushsupp_cycles X R o1 self admin n)"

lemma then_o_assoc: "then_o (then_o m f) g = then_o m (\<lambda>a t. then_o (f a t) g)"
  by (auto simp: then_o_def split: option.splits sum.splits)

lemma pushsupp_loop_cycles:
  "pushsupp_loop X R o1 self admin l t =
   then_o (pushsupp_cycles X R o1 self admin n l t) (pushsupp_loop X R o1 self admin)"
proof (induction n arbitrary: l t)
  case 0
  then show ?case by (simp add: then_o_def)
next
  case (Suc n)
  have "pushsupp_loop X R o1 self admin l t = then_o (pushsupp_cycle X R o1 self admin l t) (pushsupp_loop X R o1 self admin)"
    by (subst pushsupp_loop.simps) (simp add: then_o_def)
  then show ?case unfolding pushsupp_cycles.simps then_o_assoc Suc.IH [symmetric] .
qed

text \<open>
  What a client needs of the objects it talks to and of an invariant: communication fails only a
  finite number of times, calls, output and sleep keep the invariant, and if the objects are
  \<open>safe\<close>, every call has a result.
\<close>

locale client_inv =
  fixes X :: "'w example" and R :: "'w remote" and I :: "'w client \<Rightarrow> bool" and safe :: bool
  assumes faults: "faults_end R"
    and call_ref: "I t \<Longrightarrow> offered_by c = [] \<Longrightarrow> I (snd (invoke (rm_ref R) c t))"
    and call_unit: "I t \<Longrightarrow> \<forall>e \<in> set (offered_by c). any_kind e = tk_ulong \<Longrightarrow> I (snd (invoke (rm_unit R) c t))"
    and printed: "I t \<Longrightarrow> I (cout s t) \<and> I (cerr s t)"
    and safe_ref: "safe \<Longrightarrow> I t \<Longrightarrow> \<exists>x w. rm_ref R c (cl_world t) = (Inr (Some x), w)"
    and safe_unit: "safe \<Longrightarrow> I t \<Longrightarrow> \<forall>e \<in> set (offered_by c). any_kind e = tk_ulong \<Longrightarrow> \<exists>w. rm_unit R c (cl_world t) = (Inr (), w)"
    and asleep: "I t \<Longrightarrow> I (t\<lparr>cl_world := ex_sleep X n (cl_world t)\<rparr>)"
begin

lemma retry_returns:
  assumes "recovers f c w" and "cl_world t = w" and "offered_by c = []"
    and inv: "\<And>t. I t \<Longrightarrow> I (snd (invoke f c t)) \<and> (safe \<longrightarrow> good (fst (f c (cl_world t))))"
  shows "\<exists>r t1. retry f c what t = Some (r, t1) \<and> r \<noteq> Inl COMM_FAILURE \<and>
    offered (cl_calls t1) = offered (cl_calls t) \<and> (I t \<longrightarrow> I t1 \<and> (safe \<longrightarrow> good r))"
  using assms(1,2)
proof (induction arbitrary: t rule: recovers.induct)
  case (answers w)
  obtain r w1 where i: "f c (cl_world t) = (r, w1)" "invoke f c t = (r, t\<lparr>cl_world := w1, cl_calls := cl_calls t @ [c]\<rparr>)"
    by (rule invoke_cases)
  then have "r \<noteq> Inl COMM_FAILURE" using answers by auto
  then show ?case using i inv [of t] assms(3) by (subst retry.simps) (cases r; simp)
next
  case (again w w1)
  let ?t0 = "t\<lparr>cl_world := w1, cl_calls := cl_calls t @ [c]\<rparr>"
  let ?t1 = "cerr (''Caught COMM_FAILURE '' @ what @ ''! Retrying...'' @ nl) ?t0"
  have i: "invoke f c t = (Inl COMM_FAILURE, ?t0)" using again by (simp add: invoke_def)
  then have "I t \<longrightarrow> I ?t1" using inv [of t] printed [of ?t0] by simp
  moreover have "retry f c what t = retry f c what ?t1" by (subst retry.simps) (simp add: i)
  moreover have "cl_world ?t1 = w1" "offered (cl_calls ?t1) = offered (cl_calls t)" using assms(3) by simp_all
  ultimately show ?case using again.IH [of ?t1] by auto
qed

lemma obtain_ref_offers:
  assumes "offered_by c = []"
  shows "offers safe I (obtain_ref R c what nilmsg done t) t l 0 (\<lambda>_. True)"
proof -
  have "recovers (rm_ref R) c (cl_world t)" using faults by (simp add: faults_end_def)
  moreover have "I t \<Longrightarrow> I (snd (invoke (rm_ref R) c t)) \<and> (safe \<longrightarrow> (\<exists>x. fst (rm_ref R c (cl_world t)) = Inr (Some x)))" for t
    using call_ref [OF _ assms] safe_ref [of t c] by fastforce
  ultimately have "\<exists>r t1. retry (rm_ref R) c what t = Some (r, t1) \<and> r \<noteq> Inl COMM_FAILURE \<and>
      offered (cl_calls t1) = offered (cl_calls t) \<and> (I t \<longrightarrow> I t1 \<and> (safe \<longrightarrow> (\<exists>x. r = Inr (Some x))))"
    by (rule retry_returns [OF _ refl assms])
  then obtain r t1 where r: "retry (rm_ref R) c what t = Some (r, t1)" "offered (cl_calls t1) = offered (cl_calls t)"
      "I t \<longrightarrow> I t1 \<and> (safe \<longrightarrow> (\<exists>x. r = Inr (Some x)))" by blast
  show ?thesis
  proof (cases r)
    case (Inl e)
    then have "obtain_ref R c what nilmsg done t = Some (Inl e, t1)" using r(1) by (simp add: obtain_ref_def then_o_def)
    then show ?thesis by (rule offers_quiet) (use r Inl in auto)
  next
    case (Inr x)
    show ?thesis
    proof (cases x)
      case None
      then have "obtain_ref R c what nilmsg done t = Some (Inl (ProcessExit 1), cerr (nilmsg @ nl) t1)"
        using r(1) Inr by (simp add: obtain_ref_def then_o_def exit_with_def)
      then show ?thesis by (rule offers_quiet) (use r Inr None printed in auto)
    next
      case (Some y)
      then have "obtain_ref R c what nilmsg done t = Some (Inr y, cout (done @ nl) t1)"
        using r(1) Inr by (simp add: obtain_ref_def then_o_def)
      then show ?thesis by (rule offers_quiet) (use r printed in auto)
    qed
  qed
qed

lemma retry_unit_returns:
  assumes "offered_by c = []"
  shows "\<exists>r t1. retry (rm_unit R) c what t = Some (r, t1) \<and> offered (cl_calls t1) = offered (cl_calls t) \<and>
    (I t \<longrightarrow> I t1 \<and> (safe \<longrightarrow> r = Inr ()))"
proof -
  have "recovers (rm_unit R) c (cl_world t)" using faults by (simp add: faults_end_def)
  moreover have "I t \<Longrightarrow> I (snd (invoke (rm_unit R) c t)) \<and> (safe \<longrightarrow> fst (rm_unit R c (cl_world t)) = Inr ())" for t
    using call_unit [of t c] safe_unit [of t c] assms by fastforce
  ultimately have "\<exists>r t1. retry (rm_unit R) c what t = Some (r, t1) \<and> r \<noteq> Inl COMM_FAILURE \<and>
      offered (cl_calls t1) = offered (cl_calls t) \<and> (I t \<longrightarrow> I t1 \<and> (safe \<longrightarrow> r = Inr ()))"
    by (rule retry_returns [OF _ refl assms])
  then show ?thesis by blast
qed

lemma connect_ref_offers:
  assumes "offered_by c = []"
  shows "offers safe I (connect_ref R c what badmsg already done t) t l 0 (\<lambda>_. True)"
proof -
  obtain r t1 where r: "retry (rm_unit R) c what t = Some (r, t1)" "offered (cl_calls t1) = offered (cl_calls t)"
      "I t \<longrightarrow> I t1 \<and> (safe \<longrightarrow> r = Inr ())"
    using retry_unit_returns [OF assms, of what t] by blast
  show ?thesis
  proof (cases r)
    case (Inl e)
    have "\<exists>r1 t2. connect_ref R c what badmsg already done t = Some (r1, t2) \<and> offered (cl_calls t2) = offered (cl_calls t1) \<and>
        (I t1 \<longrightarrow> I t2)"
      using r(1) Inl printed by (simp add: connect_ref_def exit_with_def)
    then obtain r1 t2 where c: "connect_ref R c what badmsg already done t = Some (r1, t2)"
      "offered (cl_calls t2) = offered (cl_calls t1)" "I t1 \<longrightarrow> I t2" by blast
    show ?thesis by (rule offers_quiet [OF c(1)]) (use r c Inl in auto)
  next
    case (Inr u)
    then have "connect_ref R c what badmsg already done t = Some (Inr (), cout (done @ nl) t1)"
      using r(1) by (simp add: connect_ref_def)
    then show ?thesis by (rule offers_quiet) (use r printed in auto)
  qed
qed

lemma disconnect_ref_offers:
  assumes "offered_by c = []"
  shows "offers safe I (disconnect_ref X R c what done s t) t l 0 (\<lambda>_. True)"
proof -
  obtain r t1 where r: "retry (rm_unit R) c what t = Some (r, t1)" "offered (cl_calls t1) = offered (cl_calls t)"
      "I t \<longrightarrow> I t1 \<and> (safe \<longrightarrow> r = Inr ())"
    using retry_unit_returns [OF assms, of what t] by blast
  let ?t2 = "cout (''Sleeping '' @ show_int s @ '' seconds.'' @ nl) (cout (done @ nl) t1)"
  have "I t \<longrightarrow> I (?t2\<lparr>cl_world := ex_sleep X s (cl_world ?t2)\<rparr>)" using r(3) printed asleep by blast
  then show ?thesis
  proof (cases r)
    case (Inl e)
    then have "disconnect_ref X R c what done s t = Some (Inl e, t1)" using r(1) by (simp add: disconnect_ref_def then_o_def)
    then show ?thesis by (rule offers_quiet) (use r Inl in auto)
  next
    case (Inr u)
    then have "disconnect_ref X R c what done s t = Some (Inr (), ?t2\<lparr>cl_world := ex_sleep X s (cl_world ?t2)\<rparr>)"
      using r(1) by (simp add: disconnect_ref_def then_o_def Let_def)
    then show ?thesis
      by (rule offers_quiet) (use r \<open>I t \<longrightarrow> I (?t2\<lparr>cl_world := ex_sleep X s (cl_world ?t2)\<rparr>)\<close> in auto)
  qed
qed

lemma pushsupp_push_offers: "offers safe I (Some (pushsupp_push R p l t)) t l 1 (\<lambda>_. True)"
proof -
  let ?c = "RcPush p (any_of_ulong (word_of_int l))" and ?t = "cout ''Push Supplier: push() called. '' t"
  obtain r w where i: "invoke (rm_unit R) ?c ?t = (r, ?t\<lparr>cl_world := w, cl_calls := cl_calls t @ [?c]\<rparr>)"
    by (rule invoke_cases [of "rm_unit R" ?c ?t]) simp
  have "I t \<longrightarrow> I (?t\<lparr>cl_world := w, cl_calls := cl_calls t @ [?c]\<rparr>)"
    using call_unit [of ?t ?c] printed [of t] i by (simp add: any_of_ulong_def)
  moreover have "I t \<longrightarrow> safe \<longrightarrow> r = Inr ()"
    using safe_unit [of ?t ?c] printed [of t] i by (auto simp: any_of_ulong_def invoke_def)
  moreover obtain r1 t1 where p: "pushsupp_push R p l t = (r1, t1)" by force
  ultimately have "cl_calls t1 = cl_calls t @ [?c]" "I t \<longrightarrow> I t1 \<and> (safe \<longrightarrow> r1 = Inr ())"
    using i printed by (auto simp: pushsupp_push_def split: sum.splits if_splits)
  then show ?thesis using p unfolding offers_def
    by (intro impI exI [of _ r1] exI [of _ t1] exI [of _ 1]) (auto simp: numbers_1 split: sum.split)
qed

lemma pushsupp_pushes_offers:
  assumes "i \<le> discnum" and "0 < discnum"
  shows "offers safe I (pushsupp_pushes R discnum p i l t) t l (nat (discnum - i)) (\<lambda>l1. l1 = l + (discnum - i))"
  using assms(1)
proof (induction "nat (discnum - i)" arbitrary: i l t)
  case 0
  then have "pushsupp_pushes R discnum p i l t = Some (Inr l, t)"
    using assms(2) by (subst pushsupp_pushes.simps) simp
  then show ?case using 0 offers_done [of "\<lambda>l1. l1 = l + (discnum - i)" l safe I t l] by simp
next
  case (Suc d)
  then have lt: "i < discnum" and d: "d = nat (discnum - (i + 1))" "nat (discnum - i) = 1 + nat (discnum - (i + 1))" by linarith+
  have "offers safe I (pushsupp_pushes R discnum p (i + 1) (l + 1) t1) t1 (l + int 1) (nat (discnum - (i + 1)))
      (\<lambda>l1. l1 = l + (discnum - i))" for t1
    using Suc.hyps(1) [OF d(1), of "l + 1" t1] lt by (simp add: algebra_simps)
  from offers_then [OF pushsupp_push_offers this] show ?case
    using lt d(2) by (simp add: pushsupp_pushes_step)
qed

lemma pushsupp_cycle_offers:
  assumes "0 < xo_discnum o1"
  shows "offers safe I (pushsupp_cycle X R o1 self admin l t) t l (nat (xo_discnum o1)) (\<lambda>l1. l1 = l + xo_discnum o1)"
proof -
  have push: "offers safe I (pushsupp_pushes R (xo_discnum o1) p 0 l t2) t2 l (nat (xo_discnum o1)) (\<lambda>l1. l1 = l + xo_discnum o1)"
    for p t2 using pushsupp_pushes_offers [of 0 "xo_discnum o1" p l t2] assms by simp
  have disc: "offers safe I (then_o (disconnect_ref X R (RcDisconnect s p) what fin n t3) (\<lambda>_ t4. Some (Inr l1, t4))) t3 l' 0
      (\<lambda>l2. l2 = l1)" for s p what fin n t3 l1 l'
    by (rule quiet_then [OF disconnect_ref_offers ]) (simp_all add: offers_done)
  have pd: "offers safe I (then_o (pushsupp_pushes R (xo_discnum o1) p 0 l t2) (\<lambda>l1 t3.
      then_o (disconnect_ref X R (RcDisconnect s p) what fin n t3) (\<lambda>_ t4. Some (Inr l1, t4)))) t2 l
      (nat (xo_discnum o1)) (\<lambda>l1. l1 = l + xo_discnum o1)" for s p what fin n t2
  proof (rule offers_then_quiet [OF push])
    fix l1 t3
    assume "l1 = l + xo_discnum o1"
    then show "offers safe I (then_o (disconnect_ref X R (RcDisconnect s p) what fin n t3) (\<lambda>_ t4. Some (Inr l1, t4))) t3
        (l + int (nat (xo_discnum o1))) 0 (\<lambda>l1. l1 = l + xo_discnum o1)" using disc [of s p what fin n t3 l1] by simp
  qed
  show ?thesis unfolding pushsupp_cycle_def
    by (rule quiet_then [OF obtain_ref_offers ], simp, rule quiet_then [OF connect_ref_offers ], simp, rule pd)
qed

lemma pushsupp_cycles_offers:
  assumes "0 < xo_discnum o1"
  shows "offers safe I (pushsupp_cycles X R o1 self admin n l t) t l (n * nat (xo_discnum o1)) (\<lambda>l1. l1 = l + int n * xo_discnum o1)"
proof (induction n arbitrary: l t)
  case 0
  then show ?case by (simp add: offers_done)
next
  case (Suc n)
  have "offers safe I (pushsupp_cycles X R o1 self admin n l1 t1) t1 (l + int (nat (xo_discnum o1))) (n * nat (xo_discnum o1))
      (\<lambda>l2. l2 = l + int (Suc n) * xo_discnum o1)" if "l1 = l + xo_discnum o1" for l1 t1
    using Suc.IH [of l1 t1] that assms by (simp add: algebra_simps)
  from offers_then [OF pushsupp_cycle_offers [OF assms] this] show ?case by simp
qed

end

lemma client_inv_any: "faults_end R \<Longrightarrow> client_inv X R (\<lambda>_. True) False"
  by unfold_locales simp_all

text \<open>
  What \<^verbatim>\<open>pushsupp -d NUM\<close> sends. Whatever the objects answer, if communication does not fail
  for ever, any number of cycles of its endless loop come to an end; the events offered to the
  channel are then consecutive numbers, none twice and none left out, NUM in each cycle that
  is not ended by an exception, over all disconnections and failed pushes.
\<close>

lemma pushsupp_numbers:
  assumes "faults_end R" and "0 < xo_discnum o1"
  shows "\<exists>r t1 k. pushsupp_cycles X R o1 self admin n l t = Some (r, t1) \<and>
    offered (cl_calls t1) = offered (cl_calls t) @ numbers l k \<and>
    (case r of Inl e \<Rightarrow> True | Inr l1 \<Rightarrow> k = n * nat (xo_discnum o1) \<and> l1 = l + int n * xo_discnum o1)"
proof -
  have "offers False (\<lambda>_. True) (pushsupp_cycles X R o1 self admin n l t) t l (n * nat (xo_discnum o1))
      (\<lambda>l1. l1 = l + int n * xo_discnum o1)"
    by (rule client_inv.pushsupp_cycles_offers [OF client_inv_any [OF assms(1)] assms(2)])
  then show ?thesis unfolding offers_def not_False_eq_True by simp
qed

section \<open>pushsupp on a channel\<close>

text \<open>
  The model of the channel in the place of the remote objects: a push is a push into the channel,
  before which its thread makes a cycle or not, as \<open>cw_cycles\<close> says; all other calls succeed.
\<close>

record chan_world =
  cw_chan :: channel
  cw_world :: world
  cw_cycles :: "bool list"

definition chan_cycle :: "env \<Rightarrow> chan_world \<Rightarrow> chan_world" where
  "chan_cycle E w = (case cw_cycles w of
      [] \<Rightarrow> w
    | b # bs \<Rightarrow>
        if b then (case ch_transfer E (cw_chan w, cw_world w) of (_, c, v) \<Rightarrow> \<lparr>cw_chan = c, cw_world = v, cw_cycles = bs\<rparr>)
        else w\<lparr>cw_cycles := bs\<rparr>)"

definition chan_unit :: "env \<Rightarrow> rcall \<Rightarrow> chan_world \<Rightarrow> (exn + unit) \<times> chan_world" where
  "chan_unit E c w = (case c of
      RcPush p e \<Rightarrow>
        (case ch_push e (cw_chan (chan_cycle E w)) of
           (None, c1) \<Rightarrow> (Inr (), (chan_cycle E w)\<lparr>cw_chan := c1\<rparr>)
         | (Some x, c1) \<Rightarrow> (Inl x, (chan_cycle E w)\<lparr>cw_chan := c1\<rparr>))
    | _ \<Rightarrow> (Inr (), w))"

definition chan_remote :: "env \<Rightarrow> chan_world remote" where
  "chan_remote E = \<lparr>rm_ref = (\<lambda>c w. (Inr (Some 1), w)), rm_unit = chan_unit E, rm_bool = (\<lambda>c w. (Inr True, w)),
     rm_text = (\<lambda>c w. (Inr [], w)), rm_list = (\<lambda>c w. (Inr ([], None), w)), rm_next = (\<lambda>c w. (Inr None, w)),
     rm_name = (\<lambda>e. []), rm_minor = (\<lambda>e. None)\<rparr>"

definition chan_example :: "chan_world example" where
  "chan_example = \<lparr>ex_activate = (\<lambda>w. (Inr (), w)), ex_sleep = (\<lambda>n w. w), ex_pull = (\<lambda>c w. (Inl Disconnected, w)),
     ex_try_pull = (\<lambda>c w. (Inl Disconnected, w)), ex_wait = (\<lambda>w. Some w)\<rparr>"

definition number_kinds :: "any list \<Rightarrow> bool" where
  "number_kinds q \<longleftrightarrow> (\<forall>e \<in> set q. any_kind e = tk_ulong)"

text \<open>The number of events the queue of the consumers holds, which no operation changes.\<close>

definition ch_cap :: "channel \<Rightarrow> nat" where
  "ch_cap c = (case ch_consumer c of None \<Rightarrow> 0 | Some ca \<Rightarrow> eq_cap (ca_queue ca))"

lemma ca_send_event_cap: "ca_send_event e ca = (x, ca1) \<Longrightarrow> eq_cap (ca_queue ca1) = eq_cap (ca_queue ca)"
  by (auto simp: ca_send_event_def eq_append_def eq_cap_def Let_def split: sum.splits bool.splits if_splits)

lemma ca_send_cap: "ca_send es ca = (x, left, ca1) \<Longrightarrow> eq_cap (ca_queue ca1) = eq_cap (ca_queue ca)"
  by (induction es arbitrary: ca x left ca1)
     (auto split: prod.splits option.splits if_splits dest!: ca_send_event_cap)

lemma ch_push_cap: "ch_push e c = (x, c1) \<Longrightarrow> ch_cap c1 = ch_cap c"
  by (auto simp: ch_push_def ppc_push_def ch_cap_def split: option.splits prod.splits if_splits dest: ca_send_event_cap)

lemma ch_transfer_cap: "ch_transfer E (c, w) = (ce, c1, w1) \<Longrightarrow> ch_cap c1 = ch_cap c"
  by (auto simp: ch_transfer_def ch_pm_activate_def ch_cap_def Let_def split: option.splits prod.splits if_splits dest!: ca_send_cap)

text \<open>The channel has, or holds back, what was offered and passes its filter.\<close>

definition chan_inv :: "env \<Rightarrow> (any \<Rightarrow> bool) \<Rightarrow> nat \<Rightarrow> any list \<Rightarrow> chan_world client \<Rightarrow> bool" where
  "chan_inv E K N H0 t \<longleftrightarrow> (\<forall>tr. env_hold E tr = None) \<and> ch_cap (cw_chan (cl_world t)) = N \<and> (\<exists>H q. ch_flow (cw_chan (cl_world t)) H q \<and>
     ch_keeps (cw_chan (cl_world t)) = K \<and> number_kinds q \<and> H @ filter K q = H0 @ filter K (offered (cl_calls t)))"

lemma chan_cycle_flow:
  assumes "ch_flow (cw_chan w) H q" and "ch_keeps (cw_chan w) = K" and "number_kinds q" and "\<forall>tr. env_hold E tr = None"
  shows "\<exists>H' q'. ch_flow (cw_chan (chan_cycle E w)) H' q' \<and> ch_keeps (cw_chan (chan_cycle E w)) = K \<and> number_kinds q' \<and>
    H' @ filter K q' = H @ filter K q"
proof (cases "cw_cycles w")
  case Nil
  then show ?thesis using assms by (auto simp: chan_cycle_def)
next
  case (Cons b bs)
  show ?thesis
  proof (cases b)
    case True
    have "\<forall>e \<in> set q. any_kind e \<noteq> np_tk_indirect" using assms(3) by (simp add: number_kinds_def)
    from ch_cycle_flow [OF assms(1) this assms(4), of "cw_world w"] assms(2) obtain c' w' where
      "ch_transfer E (cw_chan w, cw_world w) = (Continue, c', w')" "ch_flow c' (H @ filter K q) []" "ch_keeps c' = K" by auto
    then show ?thesis using Cons True by (intro exI [of _ "H @ filter K q"] exI [of _ "[]"]) (simp add: chan_cycle_def number_kinds_def)
  next
    case False
    then show ?thesis using Cons assms by (auto simp: chan_cycle_def)
  qed
qed

lemma chan_push_flow:
  assumes "ch_flow (cw_chan w) H q" and "ch_keeps (cw_chan w) = K" and "number_kinds q" and "\<forall>tr. env_hold E tr = None"
    and "any_kind e = tk_ulong"
  shows "\<exists>H' q' w1. chan_unit E (RcPush p e) w = (Inr (), w1) \<and> ch_flow (cw_chan w1) H' q' \<and> ch_keeps (cw_chan w1) = K \<and>
    number_kinds q' \<and> H' @ filter K q' = H @ filter K (q @ [e])"
proof -
  obtain H1 q1 where f: "ch_flow (cw_chan (chan_cycle E w)) H1 q1" "ch_keeps (cw_chan (chan_cycle E w)) = K" "number_kinds q1"
      "H1 @ filter K q1 = H @ filter K q"
    using chan_cycle_flow [OF assms(1-4)] by blast
  have "any_kind e \<noteq> np_tk_indirect" using assms(5) by simp
  from ch_push_flow [OF f(1) this] f(2) obtain c' H' q' where p: "ch_push e (cw_chan (chan_cycle E w)) = (None, c')"
      "ch_flow c' H' q'" "ch_keeps c' = K" "H' @ filter K q' = H1 @ filter K (q1 @ [e])" "set q' \<subseteq> insert e (set q1)"
    by auto
  have "H' @ filter K q' = (H1 @ filter K q1) @ filter K [e]" using p(4) by simp
  then have "H' @ filter K q' = H @ filter K (q @ [e])" unfolding f(4) by simp
  moreover have "number_kinds q'" using p(5) f(3) assms(5) by (auto simp: number_kinds_def)
  moreover have "chan_unit E (RcPush p e) w = (Inr (), (chan_cycle E w)\<lparr>cw_chan := c'\<rparr>)"
    using p(1) by (simp add: chan_unit_def)
  ultimately show ?thesis using p(2,3)
    by (intro exI [of _ H'] exI [of _ q'] exI [of _ "(chan_cycle E w)\<lparr>cw_chan := c'\<rparr>"]) simp
qed

lemma chan_cycle_cap [simp]: "ch_cap (cw_chan (chan_cycle E w)) = ch_cap (cw_chan w)"
  by (auto simp: chan_cycle_def split: list.splits prod.splits dest: ch_transfer_cap)

lemma chan_unit_cap: "chan_unit E c w = (r, w1) \<Longrightarrow> ch_cap (cw_chan w1) = ch_cap (cw_chan w)"
  by (auto simp: chan_unit_def split: rcall.splits prod.splits option.splits dest!: ch_push_cap)

lemma chan_unit_other: "offered_by c = [] \<Longrightarrow> chan_unit E c w = (Inr (), w)"
  by (cases c) (simp_all add: chan_unit_def)

lemma chan_inv_unit:
  assumes "chan_inv E K N H0 t" and "\<forall>e \<in> set (offered_by c). any_kind e = tk_ulong"
  shows "chan_inv E K N H0 (snd (invoke (chan_unit E) c t)) \<and> (\<exists>w. chan_unit E c (cl_world t) = (Inr (), w))"
proof (cases "offered_by c = []")
  case True
  then show ?thesis using assms(1) chan_unit_other [OF True, of E "cl_world t"] by (simp add: chan_inv_def invoke_def)
next
  case False
  then obtain p e where c: "c = RcPush p e" "any_kind e = tk_ulong" using assms(2) by (cases c) auto
  obtain H q where f: "ch_flow (cw_chan (cl_world t)) H q" "ch_keeps (cw_chan (cl_world t)) = K" "number_kinds q"
      "\<forall>tr. env_hold E tr = None" "H @ filter K q = H0 @ filter K (offered (cl_calls t))" "ch_cap (cw_chan (cl_world t)) = N"
    using assms(1) unfolding chan_inv_def by blast
  from chan_push_flow [OF f(1-4) c(2), of p] obtain H' q' w1 where u: "chan_unit E c (cl_world t) = (Inr (), w1)"
      "ch_flow (cw_chan w1) H' q'" "ch_keeps (cw_chan w1) = K" "number_kinds q'" "H' @ filter K q' = H @ filter K (q @ [e])"
    unfolding c(1) by blast
  have "H' @ filter K q' = (H @ filter K q) @ filter K [e]" using u(5) by simp
  then have "H' @ filter K q' = H0 @ filter K (offered (cl_calls t @ [c]))" unfolding f(5) by (simp add: c(1))
  moreover have "cl_calls (snd (invoke (chan_unit E) c t)) = cl_calls t @ [c]" "cl_world (snd (invoke (chan_unit E) c t)) = w1"
    using u(1) by (simp_all add: invoke_def)
  moreover have "ch_cap (cw_chan w1) = N" using chan_unit_cap [OF u(1)] f(6) by simp
  ultimately show ?thesis using u(1-4) f(4) unfolding chan_inv_def by (simp only:) blast
qed

lemma ch_push_exn: "ch_push e c = (Some x, c1) \<Longrightarrow> x = AssertFail \<or> x = InvalidAccess"
proof -
  have keep: "filter_keep f e = Inl y \<Longrightarrow> y = AssertFail" for f y
    by (cases f) (auto split: tckind.splits)
  have "ca_send_event e ca = (Some y, ca1) \<Longrightarrow> y = AssertFail \<or> y = InvalidAccess" for ca y ca1
    by (auto simp: ca_send_event_def eq_append_def eq_keep_def Let_def dest!: keep split: sum.splits bool.splits option.splits if_splits)
  then show "ch_push e c = (Some x, c1) \<Longrightarrow> x = AssertFail \<or> x = InvalidAccess"
    by (auto simp: ch_push_def ppc_push_def split: option.splits prod.splits if_splits)
qed

lemma chan_unit_exn: "fst (chan_unit E c w) \<noteq> Inl COMM_FAILURE"
  by (cases c) (auto simp: chan_unit_def split: prod.splits option.splits dest: ch_push_exn)

lemma chan_faults_end: "faults_end (chan_remote E)"
  by (auto simp: faults_end_def chan_remote_def chan_unit_exn intro!: recovers.answers)

lemma chan_remote_simps: "rm_ref (chan_remote E) c w = (Inr (Some 1), w)" "rm_unit (chan_remote E) = chan_unit E"
  "ex_sleep chan_example n w = w"
  by (simp_all add: chan_remote_def chan_example_def)

lemma chan_inv_same:
  "chan_inv E K N H0 t \<Longrightarrow> cl_world t' = cl_world t \<Longrightarrow> offered (cl_calls t') = offered (cl_calls t) \<Longrightarrow> chan_inv E K N H0 t'"
  by (simp add: chan_inv_def)

interpretation chan: client_inv chan_example "chan_remote E" "chan_inv E K N H0" True for E K N H0
proof (unfold_locales, goal_cases)
  case 1
  show ?case by (rule chan_faults_end)
next
  case (2 t c)
  then show ?case by (auto simp: invoke_def chan_remote_simps intro: chan_inv_same)
next
  case (3 t c)
  then show ?case using chan_inv_unit by (simp add: chan_remote_simps)
next
  case (4 t s)
  then show ?case by (auto intro: chan_inv_same)
next
  case (5 t c)
  then show ?case by (simp add: chan_remote_simps)
next
  case (6 t c)
  then show ?case using chan_inv_unit by (simp add: chan_remote_simps)
next
  case (7 t n)
  then show ?case by (auto simp: chan_remote_simps intro: chan_inv_same)
qed

text \<open>
  The example \<^verbatim>\<open>pushsupp -d NUM\<close> run for \<open>n\<close> cycles against the channel, which moves its events
  whenever it likes, succeeds in every call; and after one more transfer the history of the
  consumers' queue has grown by exactly the numbers that pass the filter of the channel.
\<close>

lemma pushsupp_through_channel:
  assumes "ch_flow c H []" and "\<forall>tr. env_hold E tr = None" and "0 < xo_discnum o1"
  shows "\<exists>t1 c' w'. pushsupp_cycles chan_example (chan_remote E) o1 self admin n 0
      (client_start \<lparr>cw_chan = c, cw_world = w, cw_cycles = bs\<rparr>) = Some (Inr (int n * xo_discnum o1), t1) \<and>
    ch_transfer E (cw_chan (cl_world t1), cw_world (cl_world t1)) = (Continue, c', w') \<and> ch_cap c' = ch_cap c \<and>
    ch_flow c' (H @ filter (ch_keeps c) (numbers 0 (n * nat (xo_discnum o1)))) []"
proof -
  let ?t = "client_start \<lparr>cw_chan = c, cw_world = w, cw_cycles = bs\<rparr>" and ?K = "ch_keeps c" and ?N = "ch_cap c"
  have "chan_inv E ?K ?N H ?t"
    unfolding chan_inv_def using assms(1,2)
    by (intro conjI exI [of _ H] exI [of _ "[]"]) (simp_all add: client_start_def number_kinds_def)
  moreover have "offers True (chan_inv E ?K ?N H) (pushsupp_cycles chan_example (chan_remote E) o1 self admin n 0 ?t) ?t 0
      (n * nat (xo_discnum o1)) (\<lambda>l1. l1 = 0 + int n * xo_discnum o1)"
    by (rule chan.pushsupp_cycles_offers [OF assms(3)])
  ultimately obtain r t1 k where r: "pushsupp_cycles chan_example (chan_remote E) o1 self admin n 0 ?t = Some (r, t1)"
      "chan_inv E ?K ?N H t1" "offered (cl_calls t1) = offered (cl_calls ?t) @ numbers 0 k"
      "case r of Inl e \<Rightarrow> \<not> True | Inr a \<Rightarrow> k = n * nat (xo_discnum o1) \<and> a = 0 + int n * xo_discnum o1"
    unfolding offers_def by blast
  then have k: "r = Inr (int n * xo_discnum o1)" "offered (cl_calls t1) = numbers 0 (n * nat (xo_discnum o1))"
    by (auto simp: client_start_def split: sum.splits)
  obtain H1 q where f: "ch_flow (cw_chan (cl_world t1)) H1 q" "ch_keeps (cw_chan (cl_world t1)) = ?K" "number_kinds q"
      "H1 @ filter ?K q = H @ filter ?K (offered (cl_calls t1))" "ch_cap (cw_chan (cl_world t1)) = ?N"
    using r(2) unfolding chan_inv_def by blast
  have "\<forall>e \<in> set q. any_kind e \<noteq> np_tk_indirect" using f(3) by (simp add: number_kinds_def)
  from ch_cycle_flow [OF f(1) this assms(2), of "cw_world (cl_world t1)"] f(2,4) k(2) obtain c' w' where
    "ch_transfer E (cw_chan (cl_world t1), cw_world (cl_world t1)) = (Continue, c', w')"
    "ch_flow c' (H @ filter ?K (numbers 0 (n * nat (xo_discnum o1)))) []" by auto
  moreover from ch_transfer_cap [OF this(1)] have "ch_cap c' = ?N" using f(5) by simp
  ultimately show ?thesis using r(1) k(1) by blast
qed


definition demo_queue :: equeue where
  "demo_queue = \<lparr>eq_next = 0, eq_size = 8, eq_queue = replicate 8 None, eq_filter = None\<rparr>"

definition demo_channel :: channel where
  "demo_channel = EventChannel_i\<lparr>ch_supplier := Some \<lparr>sa_props = pn_empty, sa_poa = ''c'',
       sa_push = \<lparr>pp_connections = [], pp_channelName = ''c'', pp_useLocalQueue = False\<rparr>, sa_pull = None, sa_queue = [], sa_nextPull = (0, 0)\<rparr>,
     ch_consumer := Some \<lparr>ca_props = pn_empty, ca_poa = ''c'', ca_queue = demo_queue, ca_push = None, ca_pull = None\<rparr>\<rparr>"

lemma demo_channel_flow: "ch_flow demo_channel [] []" "ch_keeps demo_channel = (\<lambda>_. True)"
  by (auto simp: demo_channel_def demo_queue_def ch_flow_def eq_rep_def eq_cap_def ch_keeps_def kept_by_def fun_eq_iff)


section \<open>After how many events the clients disconnect\<close>

text \<open>The answers of the servant to a sequence of \<^verbatim>\<open>pull\<close> (\<open>False\<close>) and \<^verbatim>\<open>try_pull\<close> (\<open>True\<close>).\<close>

fun us_run :: "bool list \<Rightarrow> pull_supplier \<Rightarrow> (any \<times> bool) list" where
  "us_run [] u = []"
| "us_run (b # bs) u =
     (if b then (case us_try_pull u of ((e, _, posted), u1) \<Rightarrow> (e, posted) # us_run bs u1)
      else (case us_pull u of ((e, posted), u1) \<Rightarrow> (e, posted) # us_run bs u1))"

definition us_after :: "nat \<Rightarrow> int \<Rightarrow> pull_supplier" where
  "us_after m d = \<lparr>us_i = (if m = 0 then 0 else (int m - 1) mod d + 1), us_disconnect = d, us_l = of_nat m\<rparr>"

lemma us_count_after:
  assumes "0 < d"
  shows "us_count ((us_after m d)\<lparr>us_l := l\<rparr>) = (m \<noteq> 0 \<and> d dvd int m, (us_after (Suc m) d)\<lparr>us_l := l\<rparr>)"
proof (cases "m = 0")
  case True
  then show ?thesis using assms by (simp add: us_count_def us_after_def)
next
  case False
  have b: "(int m - 1) mod d < d" "0 \<le> (int m - 1) mod d" using assms by simp_all
  have s: "int m mod d = (if (int m - 1) mod d + 1 = d then 0 else (int m - 1) mod d + 1)"
  proof -
    have "int m mod d = ((int m - 1) mod d + 1) mod d" by (metis add_diff_cancel_left' add_diff_eq diff_add_cancel mod_add_left_eq)
    then show ?thesis using b by auto
  qed
  have "d dvd int m \<longleftrightarrow> (int m - 1) mod d + 1 = d" using s b by (auto simp: dvd_eq_mod_eq_0)
  then show ?thesis using False assms s by (auto simp: us_count_def us_after_def)
qed

lemma us_run_after:
  assumes "0 < d"
  shows "us_run bs (us_after m d) = map (\<lambda>j. (any_of_ulong (of_nat j), j \<noteq> 0 \<and> d dvd int j)) [m..<m + length bs]"
proof (induction bs arbitrary: m)
  case (Cons b bs)
  let ?u = "(us_after m d)\<lparr>us_l := of_nat m + 1\<rparr>"
  have up: "us_l (us_after m d) = of_nat m" "(us_after (Suc m) d)\<lparr>us_l := of_nat m + 1\<rparr> = us_after (Suc m) d"
    by (simp_all add: us_after_def)
  have c: "us_count ?u = (m \<noteq> 0 \<and> d dvd int m, us_after (Suc m) d)"
    using us_count_after [OF assms, where m = m and l = "of_nat m + 1"] up(2) by simp
  have p: "us_pull (us_after m d) = ((any_of_ulong (of_nat m), m \<noteq> 0 \<and> d dvd int m), us_after (Suc m) d)"
    "us_try_pull (us_after m d) = ((any_of_ulong (of_nat m), True, m \<noteq> 0 \<and> d dvd int m), us_after (Suc m) d)"
    unfolding us_pull_def us_try_pull_def up(1) c by simp_all
  have "[m..<m + length (b # bs)] = m # [Suc m..<Suc m + length bs]" using upt_conv_Cons [of m "m + length (b # bs)"] by simp
  then show ?case using p Cons.IH [of "Suc m"] by simp
qed simp

text \<open>
  \<^verbatim>\<open>pullsupp -d NUM\<close>. Its servant answers any sequence of \<^verbatim>\<open>pull\<close> and \<^verbatim>\<open>try_pull\<close> with the numbers
  0, 1, 2 and so on, and it signals the main thread to disconnect with the numbers NUM, 2 NUM, 3
  NUM and so on: so a first connection delivers NUM + 1 events before the signal, against the
  help text, and each later one NUM.
\<close>

lemma pullsupp_disconnects_late:
  assumes "0 < d"
  shows "us_run bs (Supplier_i d) = map (\<lambda>j. (any_of_ulong (of_nat j), j \<noteq> 0 \<and> d dvd int j)) [0..<length bs]"
proof -
  have "Supplier_i d = us_after 0 d" by (simp add: Supplier_i_def us_after_def)
  then show ?thesis using us_run_after [OF assms, of bs 0] by simp
qed

text \<open>The signals of the servant of \<^verbatim>\<open>pushcons\<close>, event by event.\<close>

fun uc_run :: "any list \<Rightarrow> push_consumer \<Rightarrow> bool list" where
  "uc_run [] u = []"
| "uc_run (e # es) u = (case uc_push e u of ((_, _, signal), u1) \<Rightarrow> signal # uc_run es u1)"

lemma sint_of_small: "0 \<le> j \<Longrightarrow> j < 2 ^ 31 \<Longrightarrow> sint (word_of_int j :: 32 word) = j"
  by (simp add: signed_of_int signed_take_bit_int_eq_self)

lemma uc_push_next:
  assumes "any_ulong e = None \<or> sint (uc_i u + 1) \<noteq> uc_disconnect u"
  shows "\<exists>s1 s2. uc_push e u = ((s1, s2, False), u\<lparr>uc_i := uc_i u + 1\<rparr>)"
proof (cases "any_ulong e")
  case None
  then show ?thesis unfolding uc_push_def Let_def by (simp only: option.simps) blast
next
  case (Some l)
  have "sint (uc_i (u\<lparr>uc_i := uc_i u + 1\<rparr>)) \<noteq> uc_disconnect u" using assms Some by simp
  then show ?thesis unfolding uc_push_def Let_def Some by (simp only: option.simps if_False simp_thms) blast
qed

lemma uc_run_next:
  assumes "any_ulong e = None \<or> sint (i + 1) \<noteq> d"
  shows "uc_run (e # es) \<lparr>uc_i = i, uc_disconnect = d\<rparr> = False # uc_run es \<lparr>uc_i = i + 1, uc_disconnect = d\<rparr>"
proof -
  obtain s1 s2 where "uc_push e \<lparr>uc_i = i, uc_disconnect = d\<rparr> = ((s1, s2, False), \<lparr>uc_i = i + 1, uc_disconnect = d\<rparr>)"
    using uc_push_next [of e "\<lparr>uc_i = i, uc_disconnect = d\<rparr>"] assms by auto
  then show ?thesis by simp
qed

lemma uc_run_silent:
  "0 \<le> j \<Longrightarrow> j + int (length es) < 2 ^ 31 \<Longrightarrow> d \<le> j \<or> j + int (length es) < d \<Longrightarrow>
   uc_run (es @ fs) \<lparr>uc_i = word_of_int j, uc_disconnect = d\<rparr> =
   replicate (length es) False @ uc_run fs \<lparr>uc_i = word_of_int (j + int (length es)), uc_disconnect = d\<rparr>"
proof (induction es arbitrary: j)
  case (Cons e es)
  have w: "word_of_int j + 1 = (word_of_int (j + 1) :: 32 word)" by simp
  have l: "j + int (length (e # es)) = (j + 1) + int (length es)" by simp
  have "sint (word_of_int (j + 1) :: 32 word) = j + 1" using Cons.prems by (intro sint_of_small) simp_all
  then have "sint (word_of_int j + 1 :: 32 word) \<noteq> d" using Cons.prems unfolding w by auto
  then have "uc_run ((e # es) @ fs) \<lparr>uc_i = word_of_int j, uc_disconnect = d\<rparr> =
      False # uc_run (es @ fs) \<lparr>uc_i = word_of_int (j + 1), uc_disconnect = d\<rparr>"
    unfolding w [symmetric] append_Cons by (intro uc_run_next) simp
  also have "uc_run (es @ fs) \<lparr>uc_i = word_of_int (j + 1), uc_disconnect = d\<rparr> = replicate (length es) False @
      uc_run fs \<lparr>uc_i = word_of_int ((j + 1) + int (length es)), uc_disconnect = d\<rparr>"
    using Cons.prems by (intro Cons.IH) auto
  finally show ?case unfolding l by simp
qed simp

text \<open>As long as all events are numbers, it ends the connection with every NUM-th of them.\<close>

lemma uc_run_numbers:
  assumes "0 < d" and "d < 2 ^ 31"
  shows "\<forall>e \<in> set es. any_ulong e \<noteq> None \<Longrightarrow> uc_run es \<lparr>uc_i = word_of_int (int m mod d), uc_disconnect = d\<rparr> =
    map (\<lambda>j. d dvd int j + 1) [m..<m + length es]"
proof (induction es arbitrary: m)
  case (Cons e es)
  obtain l where l: "any_ulong e = Some l" using Cons.prems by auto
  have b: "0 \<le> int m mod d" "int m mod d < d" using assms by simp_all
  have w: "word_of_int (int m mod d) + 1 = (word_of_int (int m mod d + 1) :: 32 word)" by simp
  have sint: "sint (word_of_int (int m mod d) + 1 :: 32 word) = int m mod d + 1"
    unfolding w using b assms by (intro sint_of_small) linarith+
  have next_mod: "int (Suc m) mod d = (if int m mod d + 1 = d then 0 else int m mod d + 1)"
  proof -
    have "int (Suc m) mod d = (int m mod d + 1) mod d" using mod_add_left_eq [of "int m" d 1] by (simp add: add.commute)
    then show ?thesis using b by auto
  qed
  have dvd: "d dvd int m + 1 \<longleftrightarrow> int m mod d + 1 = d" using next_mod b by (auto simp: dvd_eq_mod_eq_0 add.commute)
  have "\<exists>s1 s2. uc_push e \<lparr>uc_i = word_of_int (int m mod d), uc_disconnect = d\<rparr> =
      ((s1, s2, d dvd int m + 1), \<lparr>uc_i = word_of_int (int (Suc m) mod d), uc_disconnect = d\<rparr>)"
  proof (cases "int m mod d + 1 = d")
    case True
    then show ?thesis unfolding uc_push_def Let_def l dvd next_mod
      by (simp only: option.simps push_consumer.simps sint simp_thms if_True of_int_0) blast
  next
    case False
    obtain s1 s2 where "uc_push e \<lparr>uc_i = word_of_int (int m mod d), uc_disconnect = d\<rparr> =
        ((s1, s2, False), \<lparr>uc_i = word_of_int (int m mod d) + 1, uc_disconnect = d\<rparr>)"
      using uc_push_next [of e "\<lparr>uc_i = word_of_int (int m mod d), uc_disconnect = d\<rparr>"] False sint by auto
    then show ?thesis using False unfolding dvd next_mod w by simp
  qed
  then have "uc_run (e # es) \<lparr>uc_i = word_of_int (int m mod d), uc_disconnect = d\<rparr> =
      (d dvd int m + 1) # uc_run es \<lparr>uc_i = word_of_int (int (Suc m) mod d), uc_disconnect = d\<rparr>" by auto
  moreover have "[m..<m + length (e # es)] = m # [Suc m..<Suc m + length es]"
    using upt_conv_Cons [of m "m + length (e # es)"] by simp
  moreover have "uc_run es \<lparr>uc_i = word_of_int (int (Suc m) mod d), uc_disconnect = d\<rparr> =
      map (\<lambda>j. d dvd int j + 1) [Suc m..<Suc m + length es]" using Cons.prems by (intro Cons.IH) simp
  ultimately show ?case by simp
qed simp

lemma pushcons_disconnects:
  assumes "0 < d" and "d < 2 ^ 31" and "\<forall>e \<in> set es. any_ulong e \<noteq> None"
  shows "uc_run es (Consumer_i d) = map (\<lambda>j. d dvd int j + 1) [0..<length es]"
  using uc_run_numbers [OF assms, of 0] by (simp add: Consumer_i_def)

text \<open>
  \<^verbatim>\<open>pushcons -d NUM\<close>. The servant counts every event, but compares its count with NUM only when the
  event is a number: if the event number NUM is none, it signals the main thread neither then
  nor for any later event before the counter wraps around, so the client stays connected.
\<close>

lemma pushcons_misses_disconnect:
  assumes "any_ulong bad = None" and "int (length ns) = d - 1" and "d + int (length es) < 2 ^ 31"
  shows "uc_run (ns @ bad # es) (Consumer_i d) = replicate (length ns + 1 + length es) False"
proof -
  have w: "word_of_int (d - 1) + 1 = (word_of_int d :: 32 word)" by simp
  have "uc_run (ns @ bad # es) \<lparr>uc_i = word_of_int 0, uc_disconnect = d\<rparr> =
      replicate (length ns) False @ uc_run (bad # es) \<lparr>uc_i = word_of_int (0 + int (length ns)), uc_disconnect = d\<rparr>"
    using assms(2,3) by (intro uc_run_silent) simp_all
  also have "uc_run (bad # es) \<lparr>uc_i = word_of_int (0 + int (length ns)), uc_disconnect = d\<rparr> =
      False # uc_run (es @ []) \<lparr>uc_i = word_of_int d, uc_disconnect = d\<rparr>"
    unfolding w [symmetric] assms(2) add_0 append_Nil2 using assms(1) by (intro uc_run_next) simp
  also have "uc_run (es @ []) \<lparr>uc_i = word_of_int d, uc_disconnect = d\<rparr> = replicate (length es) False"
    using assms(2,3) uc_run_silent [of d es d "[]"] by simp
  finally show ?thesis unfolding Consumer_i_def by (simp add: replicate_add replicate_app_Cons_same)
qed

end
