(* ===== verification/Example_Channel.thy ===== *)
theory Example_Channel
  imports Service_Run
begin

text \<open>
  The example \<^verbatim>\<open>channel.cc\<close>: a process with one channel of its own and without a factory or a
  logfile, which prints the reference to the channel and collects the answers to its requests until a
  signal ends it. The lemma says that it does end, and leaves nothing behind.
\<close>

record solo =
  so_chan :: channel
  so_closed :: "(addr, connection) smap"
  so_orphans :: "(addr, poaref \<times> pps) smap"

definition solo_callback :: "env \<Rightarrow> addr \<Rightarrow> request \<Rightarrow> any \<Rightarrow> solo \<times> world \<Rightarrow> solo \<times> world" where
  "solo_callback E a req v bw = (case bw of (b, w) \<Rightarrow>
     (case ch_callback E a v (so_chan b, w) of
        Some (c, w1) \<Rightarrow> (b\<lparr>so_chan := c\<rparr>, w1)
      | None \<Rightarrow>
          (case closed_callback a v (so_closed b, w) of
             Some (l, w1) \<Rightarrow> (b\<lparr>so_closed := l\<rparr>, w1)
           | None \<Rightarrow>
               (case orphan_callback E a v (so_orphans b, w) of
                  Some (l, w1) \<Rightarrow> (b\<lparr>so_orphans := l\<rparr>, w1)
                | None \<Rightarrow> (b, w)))))"

text \<open>The start: the reference that is printed, the channel and the world it lives in.\<close>

definition solo_start :: "env \<Rightarrow> (string \<Rightarrow> exn + nat option) \<Rightarrow> exn option \<Rightarrow> addr \<Rightarrow> world \<Rightarrow> exn + string \<times> solo \<times> world" where
  "solo_start E refs activate self w =
     (case resolveInitialReferences refs of
        Inl e \<Rightarrow> Inl e
      | Inr _ \<Rightarrow>
          (case activate of
             Some e \<Rightarrow> Inl e
           | None \<Rightarrow>
               (case ch_activate E self ''MyChannel'' None (EventChannel_i, w) of
                  (Some e, _, _) \<Rightarrow> Inl e
                | (None, c, w1) \<Rightarrow>
                    Inr (env_object_to_string E (env_this E (w_trace w1) self) @ nl,
                      \<lparr>so_chan = c, so_closed = [], so_orphans = []\<rparr>, w1))))"

text \<open>A CORBA exception ends the process with status 1; \<open>stop\<close> is what the last call to the ORB throws.\<close>

definition solo_ending :: "exn \<Rightarrow> ending" where
  "solo_ending e = (case e of ProcessExit n \<Rightarrow> Exits n | _ \<Rightarrow> if is_corba_exn e then Exits 1 else Killed)"

definition solo_main :: "env \<Rightarrow> (string \<Rightarrow> exn + nat option) \<Rightarrow> exn option \<Rightarrow> addr \<Rightarrow> (nat \<Rightarrow> solo \<times> world \<Rightarrow> solo \<times> world)
    \<Rightarrow> exn option \<Rightarrow> world \<Rightarrow> (ending \<times> string) option" where
  "solo_main E refs activate self others stop w = (case solo_start E refs activate self w of
      Inl e \<Rightarrow> Some (solo_ending e, [])
    | Inr (out, b, w1) \<Rightarrow> (case orb_run others E (solo_callback E) 0 (b, w1) of
          None \<Rightarrow> None
        | Some _ \<Rightarrow> Some (case stop of None \<Rightarrow> Returns 0 | Some e \<Rightarrow> solo_ending e, out)))"

lemma solo_callback_safe: "same_refs (snd bw) (snd (solo_callback E a req v bw))"
  by (cases bw) (auto simp: solo_callback_def split: option.splits prod.splits dest: callback_safe)

interpretation solo: orb_callbacks "solo_callback E" for E
  using solo_callback_safe [of _ E] by unfold_locales (auto simp: same_refs_def)

lemma solo_ends:
  assumes "solo_start E refs activate self w = Inr (out, b, w1)" and "signal_at k others" and "keeps_balance others"
  shows "solo_main E refs activate self others None w = Some (Returns 0, out) \<and>
    (\<exists>b' w2. orb_run others E (solo_callback E) 0 (b, w1) = Some (b', w2) \<and> w_deferred w2 = [] \<and> w_refs w2 = own_refs w1)"
proof -
  obtain b' w2 where r: "orb_run others E (solo_callback E) 0 (b, w1) = Some (b', w2)" "w_deferred w2 = []" "own_refs w2 = own_refs w1"
    using solo.run_ends [OF assms(2) le0 assms(3)] by fastforce
  moreover from r(2) have "w_refs w2 = own_refs w2" by (simp add: own_refs_def held_def fun_eq_iff)
  ultimately show ?thesis using assms(1) by (simp add: solo_main_def)
qed

text \<open>It starts whenever the ORB lets it.\<close>

lemma createPoa_props: "createPoa E name (c, w) = (None, c', w') \<Longrightarrow> ch_props c' = ch_props c"
  by (auto simp: createPoa_def Let_def split: option.splits)

lemma ch_activate_new:
  "ch_activate E self name None (EventChannel_i, w) = ch_activate E self name (Some pn_empty) (EventChannel_i, w)"
proof (cases "createPoa E name (EventChannel_i\<lparr>ch_name := name\<rparr>, w)")
  case (fields ex c w1)
  then show ?thesis
  proof (cases ex)
    case None
    then have "ch_props c = pn_empty" using createPoa_props fields by (fastforce simp: EventChannel_i_def)
    then have "c\<lparr>ch_props := PersistNode (pn_attr pn_empty) (pn_child (ch_props c))\<rparr> = c" by (simp add: pn_empty_def)
    moreover have "ch_reincarnate_supplier E pn_empty = Pair None" "ch_reincarnate_consumer E pn_empty = Pair None"
      by (auto simp: fun_eq_iff ch_reincarnate_leaf pn_empty_def)
    ultimately show ?thesis using fields None by (simp add: ch_activate_def then_do_def)
  qed (simp add: ch_activate_def then_do_def)
qed

lemma solo_starts:
  "\<exists>b w1. solo_start idle_env (\<lambda>_. Inr (Some 1)) None 7 (init_world False) = Inr (replicate 7 (CHR ''x'') @ nl, b, w1)"
proof -
  obtain q where "EventQueue (uint (maxQueueLength pn_empty)) = Inr q"
    by (auto simp: EventQueue_def maxQueueLength_def attrLong_def MAX_QUEUE_LENGTH_def pn_empty_def)
  moreover have "pn_child pn_empty = []" by (simp add: pn_empty_def)
  ultimately obtain c w1 where "ch_activate idle_env 7 ''MyChannel'' None (EventChannel_i, init_world False) = (None, c, w1)"
    unfolding ch_activate_new using idle_channel by blast
  moreover have "env_object_to_string idle_env (env_this idle_env (w_trace w1) 7) = replicate 7 (CHR ''x'')"
    by (simp add: idle_env_def)
  moreover have "resolveInitialReferences (\<lambda>_. Inr (Some 1)) = Inr (Some 1)"
    by (simp add: resolveInitialReferences_def resolve_needed_def resolve_optional_def)
  ultimately show ?thesis unfolding solo_start_def by (simp only: sum.case option.case prod.case) blast
qed

end
