(* ===== verification/GC_Thread.thy ===== *)
theory GC_Thread
  imports Iterator_GC
begin

text \<open>
  The class \<^verbatim>\<open>GCThread\<close> of \<^verbatim>\<open>IteratorSupport.h/.cc\<close>: the one thread that sweeps all servant
  locators once a second, the list of its contexts, and the lives of the locators, which
  enter themselves when they are made and leave when they are deleted. The theorem says that a
  sweep touches no deleted locator and drops every servant that was idle for too long.
\<close>

section \<open>The thread and the locators\<close>

text \<open>
  \<open>gt_instance\<close> is \<^verbatim>\<open>instance_\<close>, \<open>None\<close> for the null pointer, with its \<^verbatim>\<open>contexts_\<close>; \<open>gt_maps\<close> holds
  the maps of the locators that exist. A context that does not exist any more is a dangling
  pointer.
\<close>

record gc_thread =
  gt_instance :: "addr list option"
  gt_maps :: "(addr, gc_map) smap"

definition gc_no_thread :: gc_thread where
  "gc_no_thread = \<lparr>gt_instance = None, gt_maps = []\<rparr>"

definition gc_instance :: "gc_thread \<Rightarrow> addr list" where
  "gc_instance st = (case gt_instance st of None \<Rightarrow> [] | Some cs \<Rightarrow> cs)"

definition gc_add :: "addr \<Rightarrow> gc_thread \<Rightarrow> gc_thread" where
  "gc_add context st = st\<lparr>gt_instance := Some (gc_instance st @ [context])\<rparr>"

definition gc_release :: "addr \<Rightarrow> gc_thread \<Rightarrow> gc_thread" where
  "gc_release context st = st\<lparr>gt_instance := Some (removeAll context (gc_instance st))\<rparr>"

definition gc_shutdown :: "gc_thread \<Rightarrow> gc_thread" where
  "gc_shutdown st = st\<lparr>gt_instance := None\<rparr>"

text \<open>One \<^verbatim>\<open>sweep()\<close> over the contexts.\<close>

fun gc_sweep_all :: "int \<Rightarrow> addr list \<Rightarrow> (addr, gc_map) smap \<times> world \<Rightarrow> exn option \<times> (addr, gc_map) smap \<times> world" where
  "gc_sweep_all t [] mw = (None, mw)"
| "gc_sweep_all t (a # as) (m, w) = (case map_of m a of
      None \<Rightarrow> (Some InvalidAccess, m, w)
    | Some g \<Rightarrow> (case gc_sweep t (g, w) of (g1, w1) \<Rightarrow> gc_sweep_all t as (smap_set a g1 m, w1)))"

text \<open>A turn of \<^verbatim>\<open>run()\<close>; without an instance there is no thread.\<close>

definition gc_tick :: "int \<Rightarrow> gc_thread \<times> world \<Rightarrow> exn option \<times> gc_thread \<times> world" where
  "gc_tick t sw = (case sw of (st, w) \<Rightarrow>
     (case gt_instance st of
        None \<Rightarrow> (None, st, w)
      | Some cs \<Rightarrow> (case gc_sweep_all t cs (gt_maps st, w) of (ex, m, w1) \<Rightarrow> (ex, st\<lparr>gt_maps := m\<rparr>, w1))))"

definition GCServantLocator :: "addr \<Rightarrow> gc_thread \<Rightarrow> gc_thread" where
  "GCServantLocator a st = gc_add a (st\<lparr>gt_maps := smap_set a [] (gt_maps st)\<rparr>)"

definition locator_destroy :: "addr \<Rightarrow> gc_thread \<times> world \<Rightarrow> gc_thread \<times> world" where
  "locator_destroy a sw = (case sw of (st, w) \<Rightarrow>
     (case map_of (gt_maps st) a of
        None \<Rightarrow> (st, w)
      | Some g \<Rightarrow> ((gc_release a st)\<lparr>gt_maps := smap_erase a (gt_maps st)\<rparr>, gc_destroy g w)))"

section \<open>Any order of operations\<close>

text \<open>
  Locators are made at new addresses and deleted, their maps change, the thread makes its
  turns; \<open>stops\<close> says if somebody calls \<^verbatim>\<open>GCThread::shutdown()\<close>, which the program does not.
\<close>

inductive gc_reach :: "bool \<Rightarrow> gc_thread \<times> world \<Rightarrow> bool" for stops where
  start: "gc_reach stops (gc_no_thread, w)"
| make: "gc_reach stops (st, w) \<Longrightarrow> map_of (gt_maps st) a = None \<Longrightarrow> gc_reach stops (GCServantLocator a st, w)"
| delete: "gc_reach stops (st, w) \<Longrightarrow> gc_reach stops (locator_destroy a (st, w))"
| serve: "gc_reach stops (st, w) \<Longrightarrow> map_of (gt_maps st) a \<noteq> None \<Longrightarrow> gc_reach stops (st\<lparr>gt_maps := smap_set a g (gt_maps st)\<rparr>, w')"
| tick: "gc_reach stops (st, w) \<Longrightarrow> gc_tick t (st, w) = (ex, st', w') \<Longrightarrow> gc_reach stops (st', w')"
| shutdown: "gc_reach stops (st, w) \<Longrightarrow> stops \<Longrightarrow> gc_reach stops (gc_shutdown st, w)"

definition gc_inv :: "bool \<Rightarrow> gc_thread \<Rightarrow> bool" where
  "gc_inv stops st \<longleftrightarrow> smap_ok (gt_maps st) \<and> distinct (gc_instance st) \<and>
     set (gc_instance st) \<subseteq> fst ` set (gt_maps st) \<and>
     (\<not> stops \<longrightarrow> set (gc_instance st) = fst ` set (gt_maps st))"

lemma smap_keys_set: "fst ` set (smap_set k v m) = insert k (fst ` set m)"
  by (induction k v m rule: smap_set.induct) auto

lemma gc_sweep_all_ok:
  assumes "set as \<subseteq> fst ` set m" and "distinct as" and "gc_sweep_all t as (m, w) = (ex, m', w')"
  shows "ex = None \<and> fst ` set m' = fst ` set m \<and> (smap_ok m \<longrightarrow> smap_ok m') \<and>
    (\<forall>a. map_of m' a = (if a \<in> set as then map_option (filter (\<lambda>e. t - ge_last_access (snd e) \<le> ge_ttl (snd e))) (map_of m a)
          else map_of m a))"
  using assms
proof (induction as arbitrary: m w)
  case (Cons b bs)
  then obtain g where g: "map_of m b = Some g"
    by (metis list.set_intros(1) map_of_eq_None_iff option.exhaust subsetD)
  obtain g1 w1 where s: "gc_sweep t (g, w) = (g1, w1)" by force
  have g1: "g1 = filter (\<lambda>e. t - ge_last_access (snd e) \<le> ge_ttl (snd e)) g" using gc_sweep_filter [of t g w] s by simp
  have keys: "fst ` set (smap_set b g1 m) = fst ` set m"
    using smap_keys_set [of b g1 m] Cons.prems(1) by auto
  have "gc_sweep_all t bs (smap_set b g1 m, w1) = (ex, m', w')" using Cons.prems(3) g s by simp
  then show ?case using Cons.IH [of "smap_set b g1 m" w1] Cons.prems keys g g1
    by (auto simp: smap_set_ok map_of_smap_set)
qed simp

lemma gc_tick_inv:
  assumes "gc_inv stops st" and "gc_tick t (st, w) = (ex, st', w')"
  shows "ex = None \<and> gc_inv stops st' \<and> gc_instance st' = gc_instance st"
proof (cases "gt_instance st")
  case None
  then show ?thesis using assms by (auto simp: gc_tick_def)
next
  case (Some cs)
  obtain m w1 where s: "gc_sweep_all t cs (gt_maps st, w) = (ex, m, w1)" "st' = st\<lparr>gt_maps := m\<rparr>"
    using assms(2) Some by (auto simp: gc_tick_def split: prod.splits)
  have cs: "gc_instance st = cs" using Some by (simp add: gc_instance_def)
  have i: "gc_instance st' = cs" using s(2) cs by (simp add: gc_instance_def)
  have "ex = None \<and> fst ` set m = fst ` set (gt_maps st) \<and> smap_ok m"
    using gc_sweep_all_ok [OF _ _ s(1)] assms(1) cs by (simp add: gc_inv_def)
  then show ?thesis using assms(1) cs s(2) unfolding gc_inv_def i by simp
qed

lemma gc_reach_inv: "gc_reach stops sw \<Longrightarrow> gc_inv stops (fst sw)"
proof (induction sw rule: gc_reach.induct)
  case (start w)
  show ?case by (simp add: gc_inv_def gc_no_thread_def gc_instance_def)
next
  case (make st w a)
  then have "a \<notin> fst ` set (gt_maps st)" by (simp add: map_of_eq_None_iff)
  then show ?case using make
    by (auto simp: gc_inv_def GCServantLocator_def gc_add_def gc_instance_def smap_set_ok smap_keys_set
        split: option.splits)
next
  case (delete st w a)
  then show ?case
    by (auto simp: gc_inv_def locator_destroy_def gc_release_def gc_instance_def smap_erase_ok smap_erase_keys
        distinct_removeAll split: option.splits)
next
  case (serve st w a g w')
  then have "a \<in> fst ` set (gt_maps st)" by (simp add: map_of_eq_None_iff)
  then show ?case using serve
    by (auto simp: gc_inv_def gc_instance_def smap_set_ok smap_keys_set insert_absorb)
next
  case (tick st w t ex st' w')
  then show ?case using gc_tick_inv by fastforce
next
  case (shutdown st w)
  then show ?case by (simp add: gc_inv_def gc_shutdown_def gc_instance_def)
qed

text \<open>
  C40. The sweep of the iterators. In whatever order locators are made, used and deleted and the
  thread is stopped and started again, a turn of the thread meets no locator that has been
  deleted; in each of its contexts it drops exactly the servants that were last used longer ago
  than their time to live; and as long as nobody stops the thread, its contexts are all the
  locators there are.
\<close>

theorem gc_thread_sweeps:
  assumes "gc_reach stops (st, w)" and "gc_tick t (st, w) = (ex, st', w')"
  shows "ex = None \<and>
    (\<forall>a. map_of (gt_maps st') a = (if a \<in> set (gc_instance st)
       then map_option (filter (\<lambda>e. t - ge_last_access (snd e) \<le> ge_ttl (snd e))) (map_of (gt_maps st) a)
       else map_of (gt_maps st) a)) \<and>
    (\<not> stops \<longrightarrow> set (gc_instance st) = fst ` set (gt_maps st))"
proof -
  have inv: "gc_inv stops st" using gc_reach_inv [OF assms(1)] by simp
  show ?thesis
  proof (cases "gt_instance st")
    case None
    then show ?thesis using assms(2) inv by (auto simp: gc_tick_def gc_instance_def gc_inv_def)
  next
    case (Some cs)
    then obtain m where "gc_sweep_all t cs (gt_maps st, w) = (ex, m, w')" "st' = st\<lparr>gt_maps := m\<rparr>"
      using assms(2) by (auto simp: gc_tick_def split: prod.splits)
    then show ?thesis using gc_sweep_all_ok [of cs "gt_maps st" t w ex m w'] inv Some
      by (auto simp: gc_inv_def gc_instance_def)
  qed
qed

definition demo_entry :: "int \<Rightarrow> gc_entry" where
  "demo_entry t = \<lparr>ge_servant = 3, ge_ttl = 60, ge_destroy = ''destroy'', ge_last_access = t\<rparr>"

theorem gc_thread_sweeps_witness:
  "\<exists>st st' w'. gc_tick 100 (st, init_world True) = (None, st', w') \<and>
     map_of (gt_maps st) 7 = Some [(''new'', demo_entry 50), (''old'', demo_entry 20)] \<and>
     map_of (gt_maps st') 7 = Some [(''new'', demo_entry 50)]"
proof -
  let ?g = "[(''new'', demo_entry 50), (''old'', demo_entry 20)]" and ?w = "init_world True"
  let ?st0 = "GCServantLocator 7 gc_no_thread"
  let ?st = "?st0\<lparr>gt_maps := smap_set 7 ?g (gt_maps ?st0)\<rparr>"
  have r: "gc_reach False (?st, ?w)"
    by (rule gc_reach.serve [OF gc_reach.make [OF gc_reach.start]])
       (simp_all add: gc_no_thread_def GCServantLocator_def gc_add_def)
  obtain ex st' w' where t: "gc_tick 100 (?st, ?w) = (ex, st', w')" by (metis prod_cases3)
  have m: "map_of (gt_maps ?st) 7 = Some ?g" "gc_instance ?st = [7]"
    by (simp_all add: GCServantLocator_def gc_add_def gc_no_thread_def gc_instance_def map_of_smap_set)
  have "filter (\<lambda>e. 100 - ge_last_access (snd e) \<le> ge_ttl (snd e)) ?g = [(''new'', demo_entry 50)]"
    by (simp add: demo_entry_def)
  then have "ex = None \<and> map_of (gt_maps st') 7 = Some [(''new'', demo_entry 50)]"
    using gc_thread_sweeps [OF r t] m by simp
  then show ?thesis using t m(1) by blast
qed

end
