(* ===== verification/Log_Worker.thy ===== *)
theory Log_Worker
  imports Omni_Events_Log
begin

text \<open>
  The rest of \<^verbatim>\<open>omniEventsLog.cc\<close>: the class \<^verbatim>\<open>timestamp\<close> of its messages, the time between two
  checkpoints, the worker around the loop of \<^verbatim>\<open>checkpoint()\<close>, the destructor; and the
  function of \<^verbatim>\<open>gethostname.h\<close> that gives its files their names where the system has none.
\<close>

section \<open>Time stamps\<close>

text \<open>
  \<open>ts_str\<close> are the characters of \<^verbatim>\<open>str\<close> behind the bracket, none at first; \<^verbatim>\<open>t()\<close> is given the
  text of \<^verbatim>\<open>ctime()\<close>, which has 24 characters and a newline.
\<close>

record timestamp =
  ts_str :: string

definition timestamp_new :: timestamp where
  "timestamp_new = \<lparr>ts_str = []\<rparr>"

definition bracketed :: "string \<Rightarrow> string" where
  "bracketed p = CHR ''['' # p @ '']  ''"

definition ts_t :: "string \<Rightarrow> timestamp \<Rightarrow> string \<times> timestamp" where
  "ts_t p ts = (if take 24 p = ts_str ts then ([], ts)
     else (bracketed (take 24 p), ts\<lparr>ts_str := take 24 p\<rparr>))"

fun ts_all :: "string list \<Rightarrow> timestamp \<Rightarrow> string list" where
  "ts_all [] ts = []"
| "ts_all (p # ps) ts = (case ts_t p ts of (s, ts1) \<Rightarrow> s # ts_all ps ts1)"

lemma ts_all_filter:
  "filter (\<lambda>s. s \<noteq> []) (ts_all ps ts) = map bracketed (tl (remdups_adj (ts_str ts # map (take 24) ps)))"
proof (induction ps arbitrary: ts)
  case (Cons p ps)
  show ?case
  proof (cases "take 24 p = ts_str ts")
    case True
    then show ?thesis using Cons.IH [of ts] by (simp add: ts_t_def)
  next
    case False
    then have "remdups_adj (ts_str ts # take 24 p # map (take 24) ps) = ts_str ts # remdups_adj (take 24 p # map (take 24) ps)"
      by simp
    moreover obtain R where R: "remdups_adj (take 24 p # map (take 24) ps) = take 24 p # R"
      using remdups_adj_Cons_alt [of "take 24 p" "map (take 24) ps"] by metis
    moreover have "ts_t p ts = (bracketed (take 24 p), ts\<lparr>ts_str := take 24 p\<rparr>)" "bracketed (take 24 p) \<noteq> []"
      using False by (simp_all add: ts_t_def bracketed_def)
    ultimately show ?thesis using Cons.IH [of "ts\<lparr>ts_str := take 24 p\<rparr>"] by simp
  qed
qed simp

text \<open>Each time that differs from the one before it is printed once, in order.\<close>

lemma timestamps_once:
  assumes "\<forall>p \<in> set ps. p \<noteq> []"
  shows "filter (\<lambda>s. s \<noteq> []) (ts_all ps timestamp_new) = map bracketed (remdups_adj (map (take 24) ps))"
proof (cases ps)
  case (Cons p qs)
  then have "take 24 p \<noteq> []" using assms by simp
  then show ?thesis using ts_all_filter [of ps timestamp_new] Cons by (simp add: timestamp_new_def)
qed simp

section \<open>The name of the host\<close>

text \<open>The replacement for \<^verbatim>\<open>gethostname\<close>, with the answer of \<^verbatim>\<open>uname\<close>; \<open>None\<close> is a failure.\<close>

definition MAXHOSTNAMELEN :: nat where "MAXHOSTNAMELEN = 256"

datatype host_errno = EINVAL | EFAULT

definition gethostname :: "string option \<Rightarrow> nat \<Rightarrow> host_errno + string" where
  "gethostname nodename len =
     (if len < 1 then Inl EINVAL
      else case nodename of
             None \<Rightarrow> Inl EFAULT
           | Some un \<Rightarrow> if length un < min len MAXHOSTNAMELEN then Inr un else Inl EFAULT)"

lemma gethostname_fits: "gethostname nodename len = Inr s \<Longrightarrow> nodename = Some s \<and> length s + 1 \<le> len"
  by (auto simp: gethostname_def split: option.splits if_splits)

section \<open>The worker\<close>

definition OMNIEVENTS_LOG_CHECKPOINT_PERIOD :: int where
  "OMNIEVENTS_LOG_CHECKPOINT_PERIOD = 15 * 60"

text \<open>\<^verbatim>\<open>sscanf(itbc,"%d",...)\<close> reads a number if there is a digit behind white space and sign.\<close>

definition scans_int :: "string \<Rightarrow> bool" where
  "scans_int s = (let t = dropWhile c_space s;
       u = (if t \<noteq> [] \<and> (hd t = CHR ''-'' \<or> hd t = CHR ''+'') then tl t else t)
     in u \<noteq> [] \<and> is_dec (hd u))"

definition idle_time_btw_chkpt :: "string option \<Rightarrow> int" where
  "idle_time_btw_chkpt itbc = (case itbc of
      None \<Rightarrow> OMNIEVENTS_LOG_CHECKPOINT_PERIOD
    | Some s \<Rightarrow> if scans_int s then to_int32 (c_atol s) else OMNIEVENTS_LOG_CHECKPOINT_PERIOD)"

text \<open>
  \<^verbatim>\<open>runWorker\<close> starts the thread, whose loop takes a first checkpoint at once. The thread ends
  only with an exception, which is reported and swallowed.
\<close>

definition runWorker :: "log_state \<Rightarrow> ckpc \<times> log_state" where
  "runWorker st = (CkIdle, st)"

definition run_undetached :: "(exn \<Rightarrow> string) \<Rightarrow> (exn \<Rightarrow> string option) \<Rightarrow> ckpc \<Rightarrow> string option" where
  "run_undetached name minor pc = (case pc of
      CkKilled e \<Rightarrow> Some (''omniEvents: omniEventsLogWorker killed by '' @
        (if is_system_exn e then ''CORBA system exception: '' @ name e @ '' ('' @ (case minor e of None \<Rightarrow> ''??'' | Some m \<Rightarrow> m) @ '').''
         else if is_corba_exn e then ''CORBA exception: '' @ name e @ ''.''
         else ''unknown exception.'') @ nl)
    | _ \<Rightarrow> None)"

lemma worker_first_checkpoint:
  "lg_first st \<Longrightarrow> \<exists>st1. ck_step S E N (runWorker st) = (CkPrepare, st1) \<and> lg_locked st1 \<and> \<not> lg_first st1"
  by (simp add: runWorker_def ck_step_def ck_begin_def)

text \<open>A worker that was killed makes no checkpoint any more.\<close>

lemma killed_worker_stays: "(ck_step S E N ^^ n) (CkKilled e, st) = (CkKilled e, st)"
  by (induction n) (simp_all add: ck_step_def)

text \<open>The destructor drops the factory and clears \<^verbatim>\<open>theLog\<close>.\<close>

definition log_destroy :: "addr option \<Rightarrow> world \<Rightarrow> world" where
  "log_destroy factory w = (case factory of None \<Rightarrow> w | Some a \<Rightarrow> remove_ref a w)\<lparr>w_log := None\<rparr>"

end
