(* ===== verification/Daemon_Windows.thy ===== *)
theory Daemon_Windows
  imports Omni_Main
begin

text \<open>
  \<^verbatim>\<open>daemon_windows.h\<close> and \<^verbatim>\<open>daemon_windows.cc\<close>: the daemon as a Windows service. Its commands
  install and remove the service and keep the options of the service in the registry; the
  service itself reports its status to the service control manager.
\<close>

section \<open>Windows\<close>

text \<open>
  The functions of Windows that the code calls. Which of them fail is a parameter, from the calls
  made so far; the values under the key of the service are part of the state.
\<close>

datatype wcall =
    RegOpenKeyEx bool
  | RegCloseKey
  | RegSetValueEx string
  | RegQueryValueEx string
  | GetModuleFileName
  | OpenSCManager
  | CreateService string
  | OpenService
  | DeleteService
  | CloseServiceHandle
  | StartServiceCtrlDispatcher
  | RegisterServiceCtrlHandler
  | AtExit
  | SetServiceStatus

record windows =
  wo_fails :: "wcall list \<Rightarrow> wcall \<Rightarrow> bool"
  wo_module :: string

datatype svc_state = SERVICE_START_PENDING | SERVICE_RUNNING | SERVICE_STOP_PENDING | SERVICE_STOPPED

record service_status =
  dwCurrentState :: svc_state
  dwControlsAccepted :: bool
  dwWin32ExitCode :: ulong
  dwServiceSpecificExitCode :: ulong
  dwCheckPoint :: ulong
  dwWaitHint :: ulong

abbreviation ERROR_SERVICE_SPECIFIC_ERROR :: ulong where
  "ERROR_SERVICE_SPECIFIC_ERROR \<equiv> 1066"

text \<open>
  The members of \<^verbatim>\<open>Service\<close>, and what is outside: the calls and the statuses reported so far, the
  registry, the streams, the flag of the ORB and its trace level.
\<close>

record svc =
  sc_tracefile :: "string option"
  sc_serviceRunning :: bool
  sc_callCount :: int
  sc_parameters :: "string option"
  sc_logstream :: "string option"
  sc_calls :: "wcall list"
  sc_reported :: "service_status list"
  sc_registry :: "(string, string) smap"
  sc_out :: string
  sc_log :: "(string option \<times> string) list"
  sc_orb_shutdown :: bool
  sc_traceLevel :: int

definition Service :: "(string, string) smap \<Rightarrow> svc" where
  "Service reg = \<lparr>sc_tracefile = None, sc_serviceRunning = False, sc_callCount = 0, sc_parameters = None, sc_logstream = None,
     sc_calls = [], sc_reported = [], sc_registry = reg, sc_out = [], sc_log = [], sc_orb_shutdown = False, sc_traceLevel = 0\<rparr>"

definition w_api :: "windows \<Rightarrow> wcall \<Rightarrow> svc \<Rightarrow> bool \<times> svc" where
  "w_api W c st = (\<not> wo_fails W (sc_calls st) c, st\<lparr>sc_calls := sc_calls st @ [c]\<rparr>)"

definition svc_log :: "string \<Rightarrow> svc \<Rightarrow> svc" where
  "svc_log message st = st\<lparr>sc_log := sc_log st @ [(sc_logstream st, message)]\<rparr>"

text \<open>\<^verbatim>\<open>Win::perror\<close>; the text of the error itself is that of Windows.\<close>

definition win_perror :: "string \<Rightarrow> svc \<Rightarrow> svc" where
  "win_perror s st = svc_log (s @ '': '') st"

text \<open>A call whose failure ends the process with status 1.\<close>

definition w_need :: "windows \<Rightarrow> string \<Rightarrow> wcall \<Rightarrow> svc \<Rightarrow> exn option \<times> svc" where
  "w_need W what c st = (case w_api W c st of
      (ok, st1) \<Rightarrow> if ok then (None, st1) else (Some (ProcessExit 1), win_perror what st1))"

section \<open>The registry\<close>

text \<open>A key that is open in \<open>f\<close> and closed afterwards; a failed close is a warning only. \<^verbatim>\<open>exit\<close> closes nothing.\<close>

definition with_key :: "windows \<Rightarrow> bool \<Rightarrow> (svc \<Rightarrow> exn option \<times> svc) \<Rightarrow> svc \<Rightarrow> exn option \<times> svc" where
  "with_key W for_writing f st =
     then_do (then_do (w_need W ''Can't open registry key'' (RegOpenKeyEx for_writing) st) f)
       (\<lambda>st1. case w_api W RegCloseKey st1 of
          (ok, st2) \<Rightarrow> (None, if ok then st2 else win_perror ''Warning'' st2))"

definition setValueStr :: "windows \<Rightarrow> string \<Rightarrow> string \<Rightarrow> svc \<Rightarrow> bool \<times> svc" where
  "setValueStr W name data st = (case w_api W (RegSetValueEx name) st of
      (ok, st1) \<Rightarrow> (ok, if ok then st1\<lparr>sc_registry := smap_set name data (sc_registry st1)\<rparr> else st1))"

text \<open>The buffer has 2048 characters, the last of which is the terminating zero.\<close>

definition queryValueStr :: "windows \<Rightarrow> string \<Rightarrow> svc \<Rightarrow> string option \<times> svc" where
  "queryValueStr W name st = (case w_api W (RegQueryValueEx name) st of
      (ok, st1) \<Rightarrow>
        (case map_of (sc_registry st1) name of
           Some s \<Rightarrow> (if ok \<and> Suc (length s) \<le> 2048 then Some s else None, st1)
         | None \<Rightarrow> (None, st1)))"

definition set_or_exit :: "windows \<Rightarrow> string \<Rightarrow> string \<Rightarrow> svc \<Rightarrow> exn option \<times> svc" where
  "set_or_exit W name data st = (case setValueStr W name data st of
      (ok, st1) \<Rightarrow> if ok then (None, st1)
        else (Some (ProcessExit 1), win_perror (''Can't set registry value '' @ [CHR 0x27] @ name @ [CHR 0x27]) st1))"

definition readParameters :: "windows \<Rightarrow> svc \<Rightarrow> exn option \<times> svc" where
  "readParameters W st = with_key W False (\<lambda>st1. case queryValueStr W ''Parameters'' st1 of
      (Some s, st2) \<Rightarrow> (None, st2\<lparr>sc_parameters := Some s\<rparr>)
    | (None, st2) \<Rightarrow> (Some (ProcessExit 1), win_perror ''Can't get Parameters'' (st2\<lparr>sc_parameters := None\<rparr>))) st"

fun join_args :: "string \<Rightarrow> string list \<Rightarrow> string" where
  "join_args parameters [] = parameters"
| "join_args parameters (a # as) = join_args ((if parameters \<noteq> [] then parameters @ '' '' else parameters) @ a) as"

definition writeParameters :: "windows \<Rightarrow> string list \<Rightarrow> svc \<Rightarrow> exn option \<times> svc" where
  "writeParameters W argv st = with_key W True (set_or_exit W ''Parameters'' (join_args [] (drop 2 argv))) st"

section \<open>The command line\<close>

definition is_blank :: "char \<Rightarrow> bool" where
  "is_blank c \<longleftrightarrow> c = CHR 0x09 \<or> c = CHR '' ''"

text \<open>The loop over \<^verbatim>\<open>strtok\<close>.\<close>

function strtok_all :: "string \<Rightarrow> string list" where
  "strtok_all s = (let t = dropWhile is_blank s
     in if t = [] then [] else takeWhile (\<lambda>c. \<not> is_blank c) t # strtok_all (dropWhile (\<lambda>c. \<not> is_blank c) t))"
  by pat_completeness auto

termination
proof (relation "measure length")
  fix s t :: string
  assume t: "t = dropWhile is_blank s" "t \<noteq> []"
  have "\<not> is_blank (hd t)" using t hd_dropWhile by metis
  then have "length (dropWhile (\<lambda>c. \<not> is_blank c) t) < length t" using t(2) by (intro dropWhile_neq_less)
  also have "length t \<le> length s" by (simp add: t(1) length_dropWhile_le)
  finally show "(dropWhile (\<lambda>c. \<not> is_blank c) t, s) \<in> measure length" by simp
qed simp

declare strtok_all.simps [simp del]

text \<open>The options of the registry come before those of the command line.\<close>

definition setArgcArgv :: "windows \<Rightarrow> string list \<Rightarrow> svc \<Rightarrow> (exn + string list) \<times> svc" where
  "setArgcArgv W argv st = (case readParameters W st of
      (Some e, st1) \<Rightarrow> (Inl e, st1)
    | (None, st1) \<Rightarrow>
        (let args = strtok_all (case sc_parameters st1 of Some s \<Rightarrow> s | None \<Rightarrow> [])
         in (Inr (if args = [] then argv else take 1 argv @ args @ drop 1 argv), st1)))"

section \<open>The status of the service\<close>

definition status_of :: "svc_state \<Rightarrow> ulong \<Rightarrow> ulong \<Rightarrow> ulong \<Rightarrow> ulong \<Rightarrow> service_status" where
  "status_of currentState win32ExitCode serviceSpecificExitCode checkPoint waitHint =
     \<lparr>dwCurrentState = currentState, dwControlsAccepted = (currentState \<noteq> SERVICE_START_PENDING),
      dwWin32ExitCode = (if serviceSpecificExitCode = 0 then win32ExitCode else ERROR_SERVICE_SPECIFIC_ERROR),
      dwServiceSpecificExitCode = serviceSpecificExitCode, dwCheckPoint = checkPoint, dwWaitHint = waitHint\<rparr>"

definition setServiceStatus :: "windows \<Rightarrow> svc_state \<Rightarrow> ulong \<Rightarrow> ulong \<Rightarrow> ulong \<Rightarrow> ulong \<Rightarrow> svc \<Rightarrow> bool \<times> svc" where
  "setServiceStatus W currentState win32ExitCode serviceSpecificExitCode checkPoint waitHint st =
     (case w_api W SetServiceStatus st of
        (ok, st1) \<Rightarrow> (ok, if ok then st1\<lparr>sc_reported := sc_reported st1 @
            [status_of currentState win32ExitCode serviceSpecificExitCode checkPoint waitHint]\<rparr> else st1))"

definition svc_runningOk :: "windows \<Rightarrow> svc \<Rightarrow> exn option \<times> svc" where
  "svc_runningOk W st =
     (if sc_serviceRunning st
      then (case setServiceStatus W SERVICE_RUNNING 0 0 0 0 st of
              (ok, st1) \<Rightarrow> (if ok then None else Some (ProcessExit 1), st1))
      else (None, st))"

definition svc_shutdown :: "windows \<Rightarrow> svc \<Rightarrow> svc" where
  "svc_shutdown W st =
     (let st1 = st\<lparr>sc_logstream := None\<rparr>
      in if sc_serviceRunning st1
         then (snd (setServiceStatus W SERVICE_STOPPED 0 0 0 0 st1))\<lparr>sc_serviceRunning := False\<rparr>
         else st1)"

text \<open>Control codes: 1 is \<^verbatim>\<open>SERVICE_CONTROL_STOP\<close>, 5 is \<^verbatim>\<open>SERVICE_CONTROL_SHUTDOWN\<close>.\<close>

definition ctrlHandler :: "windows \<Rightarrow> nat \<Rightarrow> svc \<Rightarrow> svc" where
  "ctrlHandler W controlCode st =
     (if controlCode = 5 \<or> controlCode = 1
      then snd (setServiceStatus W SERVICE_STOP_PENDING 0 0 1 6000 (st\<lparr>sc_orb_shutdown := True\<rparr>))
      else if controlCode = 128 then st\<lparr>sc_traceLevel := OmniEvents_Orb_bumpTraceLevel (sc_traceLevel st)\<rparr>
      else st)"

section \<open>Commands\<close>

definition svc_tracefile :: "string \<Rightarrow> svc \<Rightarrow> svc" where
  "svc_tracefile val st = st\<lparr>sc_tracefile := Some val\<rparr>"

definition svc_pidfile :: "string \<Rightarrow> svc \<Rightarrow> exn option \<times> svc" where
  "svc_pidfile val st = (Some (ProcessExit 1), svc_log (''Option -P not supported on windows.'' @ nl) st)"

definition svc_foreground :: "bool \<Rightarrow> svc \<Rightarrow> exn option \<times> svc" where
  "svc_foreground val st = (Some (ProcessExit 1), svc_log (''Option -f not supported on windows.'' @ nl) st)"

definition svc_daemonize :: "windows \<Rightarrow> svc \<Rightarrow> exn option \<times> svc" where
  "svc_daemonize W st =
     (let st1 = (case sc_tracefile st of Some f \<Rightarrow> if f \<noteq> [] then st\<lparr>sc_logstream := Some f\<rparr> else st | None \<Rightarrow> st)
      in case w_api W AtExit st1 of
           (ok, st2) \<Rightarrow> if ok then (None, st2)
                       else (Some (ProcessExit (-1)), svc_log ''Failed to set exit handler.'' st2))"

definition install :: "windows \<Rightarrow> string list \<Rightarrow> svc \<Rightarrow> exn option \<times> svc" where
  "install W argv st =
     then_do (then_do (then_do (then_do (then_do (then_do
       (w_need W [] GetModuleFileName st)
       (w_need W [] OpenSCManager))
       (w_need W [] (CreateService (wo_module W @ '' service''))))
       (w_need W [] CloseServiceHandle))
       (w_need W [] CloseServiceHandle))
       (writeParameters W argv))
       (with_key W True (set_or_exit W ''Description'' ''Asynchronous broadcast channels for CORBA applications.''))"

definition uninstall :: "windows \<Rightarrow> svc \<Rightarrow> exn option \<times> svc" where
  "uninstall W st =
     then_do (then_do (then_do (then_do
       (w_need W [] OpenSCManager st)
       (w_need W [] OpenService))
       (w_need W [] DeleteService))
       (w_need W [] CloseServiceHandle))
       (w_need W [] CloseServiceHandle)"

text \<open>
  \<^verbatim>\<open>start\<close>, called with the arguments of \<^verbatim>\<open>main\<close>: the second call comes from the dispatcher, in the
  thread of the service. The result is the command line to go on with, or the end of the process.
\<close>

definition exit0 :: "exn option \<times> svc \<Rightarrow> (svc \<Rightarrow> string) \<Rightarrow> (exn + string list) \<times> svc" where
  "exit0 r msg = (case r of (Some e, st) \<Rightarrow> (Inl e, st) | (None, st) \<Rightarrow> (Inl (ProcessExit 0), st\<lparr>sc_out := sc_out st @ msg st\<rparr>))"

definition enter_service :: "windows \<Rightarrow> string list \<Rightarrow> svc \<Rightarrow> (exn + string list) \<times> svc" where
  "enter_service W argv st = (case setArgcArgv W argv st of
      (Inl e, st1) \<Rightarrow> (Inl e, st1)
    | (Inr argv1, st1) \<Rightarrow>
        (case w_api W RegisterServiceCtrlHandler st1 of
           (False, st2) \<Rightarrow> (Inl (ProcessExit 1), st2)
         | (True, st2) \<Rightarrow>
             (case setServiceStatus W SERVICE_START_PENDING 0 0 1 3000 st2 of
                (False, st3) \<Rightarrow> (Inl (ProcessExit 1), st3)
              | (True, st3) \<Rightarrow> (Inr argv1, st3\<lparr>sc_serviceRunning := True\<rparr>))))"

definition svc_start :: "windows \<Rightarrow> string list \<Rightarrow> svc \<Rightarrow> (exn + string list) \<times> svc" where
  "svc_start W argv st0 =
     (let st = st0\<lparr>sc_callCount := sc_callCount st0 + 1\<rparr>; cmd = (case argv of _ # c # _ \<Rightarrow> c | _ \<Rightarrow> [])
      in if sc_callCount st > 1 then enter_service W argv st
         else if cmd = ''service'' then exit0 (w_need W [] StartServiceCtrlDispatcher st) (\<lambda>_. [])
         else if cmd = ''install'' then exit0 (install W argv st) (\<lambda>_. ''Service 'omniEvents' installed OK.'' @ nl)
         else if cmd = ''uninstall'' then exit0 (uninstall W st) (\<lambda>_. ''Service 'omniEvents' removed.'' @ nl)
         else if cmd = ''getoptions''
         then exit0 (readParameters W st) (\<lambda>st1. (case sc_parameters st1 of Some s \<Rightarrow> s | None \<Rightarrow> []) @ nl)
         else if cmd = ''setoptions'' then exit0 (writeParameters W argv st) (\<lambda>_. [])
         else if cmd = ''run'' then setArgcArgv W argv st
         else (Inr argv, st))"

section \<open>Options in the registry\<close>

definition plain_arg :: "string \<Rightarrow> bool" where
  "plain_arg a \<longleftrightarrow> a \<noteq> [] \<and> (\<forall>c \<in> set a. \<not> is_blank c)"

lemma strtok_blank: "is_blank c \<Longrightarrow> strtok_all (c # s) = strtok_all s"
  by (subst (1 2) strtok_all.simps) simp

lemma strtok_word:
  assumes "plain_arg a" and "t = [] \<or> is_blank (hd t)"
  shows "strtok_all (a @ t) = a # strtok_all t"
proof -
  have d: "dropWhile is_blank (a @ t) = a @ t" using assms(1) by (cases a) (auto simp: plain_arg_def)
  have "takeWhile (\<lambda>c. \<not> is_blank c) t = [] \<and> dropWhile (\<lambda>c. \<not> is_blank c) t = t" using assms(2) by (cases t) auto
  then have "takeWhile (\<lambda>c. \<not> is_blank c) (a @ t) = a \<and> dropWhile (\<lambda>c. \<not> is_blank c) (a @ t) = t"
    using assms(1) by (simp add: plain_arg_def takeWhile_append dropWhile_append)
  then show ?thesis using d assms(1) by (subst strtok_all.simps) (simp add: Let_def plain_arg_def)
qed

definition blanked :: "string list \<Rightarrow> string" where
  "blanked as = concat (map (\<lambda>a. CHR '' '' # a) as)"

lemma join_args_blanked: "p \<noteq> [] \<Longrightarrow> join_args p as = p @ blanked as"
  by (induction as arbitrary: p) (simp_all add: blanked_def)

lemma blanked_head: "blanked as = [] \<or> is_blank (hd (blanked as))"
  by (cases as) (simp_all add: blanked_def is_blank_def)

lemma strtok_blanked: "list_all plain_arg as \<Longrightarrow> strtok_all (blanked as) = as"
proof (induction as)
  case Nil
  show ?case by (subst strtok_all.simps) (simp add: blanked_def)
next
  case (Cons a as)
  have "blanked (a # as) = CHR '' '' # a @ blanked as" by (simp add: blanked_def)
  then show ?case using Cons strtok_word [of a "blanked as"] blanked_head [of as] by (simp add: strtok_blank is_blank_def)
qed

lemma strtok_join:
  assumes "list_all plain_arg as"
  shows "strtok_all (join_args [] as) = as"
proof (cases as)
  case Nil
  then show ?thesis by (subst strtok_all.simps) simp
next
  case (Cons a bs)
  then have "a \<noteq> []" using assms by (simp add: plain_arg_def)
  then have "join_args [] as = a @ blanked bs" using Cons by (simp add: join_args_blanked)
  then show ?thesis using Cons assms strtok_word [of a "blanked bs"] blanked_head [of bs] strtok_blanked [of bs] by simp
qed

definition windows_works :: "windows \<Rightarrow> bool" where
  "windows_works W \<longleftrightarrow> (\<forall>cs c. \<not> wo_fails W cs c)"

lemma works_simps:
  assumes "windows_works W"
  shows "w_api W c st = (True, st\<lparr>sc_calls := sc_calls st @ [c]\<rparr>)" and "w_need W what c st = (None, st\<lparr>sc_calls := sc_calls st @ [c]\<rparr>)"
  using assms by (simp_all add: windows_works_def w_api_def w_need_def)

lemma write_works:
  "windows_works W \<Longrightarrow> \<exists>st1. writeParameters W argv st = (None, st1) \<and>
     sc_registry st1 = smap_set ''Parameters'' (join_args [] (drop 2 argv)) (sc_registry st)"
  by (simp add: writeParameters_def with_key_def set_or_exit_def setValueStr_def works_simps then_do_def)

lemma read_works:
  assumes "windows_works W" and "map_of (sc_registry st) ''Parameters'' = Some s"
  shows "\<exists>st1. readParameters W st = (if length s < 2048 then None else Some (ProcessExit 1), st1) \<and>
    (length s < 2048 \<longrightarrow> sc_parameters st1 = Some s)"
  using assms by (simp add: readParameters_def with_key_def queryValueStr_def works_simps then_do_def)

text \<open>
  C35. Options in the registry. What \<^verbatim>\<open>setoptions\<close> (or \<^verbatim>\<open>install\<close>) writes is what a later \<^verbatim>\<open>run\<close> puts
  behind the name of the program, before the rest of its own command line, provided that the
  options are words without blanks, and at most 2047 characters with the blanks between them;
  longer options are written without an error, and \<^verbatim>\<open>run\<close> ends with status 1.
\<close>

theorem options_in_registry:
  assumes "windows_works W" and "list_all plain_arg args"
  shows "\<exists>st1. svc_start W (prog # ''setoptions'' # args) (Service reg) = (Inl (ProcessExit 0), st1) \<and>
    fst (svc_start W (prog1 # ''run'' # extra) (Service (sc_registry st1))) =
      (if length (join_args [] args) \<le> 2047 then Inr (prog1 # args @ ''run'' # extra) else Inl (ProcessExit 1))"
proof -
  obtain st1 where w: "writeParameters W (prog # ''setoptions'' # args) ((Service reg)\<lparr>sc_callCount := 1\<rparr>) = (None, st1)"
    and r: "sc_registry st1 = smap_set ''Parameters'' (join_args [] args) reg"
    using write_works [OF assms(1), of "prog # ''setoptions'' # args" "(Service reg)\<lparr>sc_callCount := 1\<rparr>"] by (auto simp: Service_def)
  have s: "svc_start W (prog # ''setoptions'' # args) (Service reg) = (Inl (ProcessExit 0), st1)"
    using w by (simp add: svc_start_def exit0_def Service_def)
  let ?st = "(Service (sc_registry st1))\<lparr>sc_callCount := 1\<rparr>"
  have "map_of (sc_registry ?st) ''Parameters'' = Some (join_args [] args)" using r by (simp add: Service_def map_of_smap_set)
  from read_works [OF assms(1) this] obtain st2 where
    rd: "readParameters W ?st = (if length (join_args [] args) < 2048 then None else Some (ProcessExit 1), st2)"
    and p: "length (join_args [] args) < 2048 \<longrightarrow> sc_parameters st2 = Some (join_args [] args)" by blast
  have "svc_start W (prog1 # ''run'' # extra) (Service (sc_registry st1)) = setArgcArgv W (prog1 # ''run'' # extra) ?st"
    by (simp add: svc_start_def Service_def)
  then have "fst (svc_start W (prog1 # ''run'' # extra) (Service (sc_registry st1))) =
      (if length (join_args [] args) < 2048 then Inr (prog1 # args @ ''run'' # extra) else Inl (ProcessExit 1))"
    using rd p strtok_join [OF assms(2)] by (simp add: setArgcArgv_def)
  then show ?thesis using s by (auto simp: less_Suc_eq_le)
qed

theorem options_in_registry_witness:
  "let W = \<lparr>wo_fails = \<lambda>_ _. False, wo_module = ''omniEvents.exe''\<rparr> in
   \<exists>st1. svc_start W [''omniEvents'', ''setoptions'', ''-p'', ''80''] (Service []) = (Inl (ProcessExit 0), st1) \<and>
     fst (svc_start W [''omniEvents'', ''run'', ''-v''] (Service (sc_registry st1))) = Inr [''omniEvents'', ''-p'', ''80'', ''run'', ''-v'']"
proof -
  have "windows_works \<lparr>wo_fails = \<lambda>_ _. False, wo_module = ''omniEvents.exe''\<rparr>" by (simp add: windows_works_def)
  moreover have "list_all plain_arg [''-p'', ''80'']" by (simp add: plain_arg_def is_blank_def)
  ultimately show ?thesis
    using options_in_registry [of _ "[''-p'', ''80'']" "''omniEvents''" "[]" "''omniEvents''" "[''-v'']"] unfolding Let_def by fastforce
qed

text \<open>
  What \<^verbatim>\<open>run\<close> makes of its command line. The options that \<^verbatim>\<open>main\<close> reads are exactly those of the
  registry: the word \<^verbatim>\<open>run\<close> stays in the command line behind them, where it ends the options, so
  whatever follows it is ignored.
\<close>

lemma run_ignores_own_options:
  assumes "windows_works W" and "\<forall>w \<in> set ws. opt_word_ok letters w" and "list_all plain_arg (concat (map word_args ws))"
    and "map_of reg ''Parameters'' = Some (join_args [] (concat (map word_args ws)))"
    and "length (join_args [] (concat (map word_args ws))) \<le> 2047"
  shows "\<exists>argv st. fst (svc_start W (prog # ''run'' # extra) (Service reg)) = Inr argv \<and>
    getopt_all argv letters getopt_start = (concat (map word_opts ws), st) \<and> drop (go_optind st) argv = ''run'' # extra"
proof -
  let ?args = "concat (map word_args ws)" and ?st = "(Service reg)\<lparr>sc_callCount := 1\<rparr>"
  have "map_of (sc_registry ?st) ''Parameters'' = Some (join_args [] ?args)" using assms(4) by (simp add: Service_def)
  from read_works [OF assms(1) this] assms(5) obtain st2 where
    "readParameters W ?st = (None, st2)" "sc_parameters st2 = Some (join_args [] ?args)" by auto
  then have s: "fst (svc_start W (prog # ''run'' # extra) (Service reg)) = Inr (prog # ?args @ ''run'' # extra)"
    using strtok_join [OF assms(3)] by (auto simp: svc_start_def setArgcArgv_def Service_def Let_def)
  have "options_end (''run'' # extra)" by (simp add: options_end_def)
  from getopt_words [OF assms(2) this] obtain st where
    "getopt_all (prog # ?args @ ''run'' # extra) letters getopt_start = (concat (map word_opts ws), st)"
    "go_optind st = Suc (length ?args)" by blast
  then show ?thesis using s by auto
qed

section \<open>The reports of a service\<close>

text \<open>The operations of a service after its start, in any order: two ends, and controls at any time.\<close>

inductive svc_reach :: "windows \<Rightarrow> svc \<Rightarrow> svc \<Rightarrow> bool" for W s0 where
  start: "svc_reach W s0 s0"
| running: "svc_reach W s0 s \<Longrightarrow> svc_runningOk W s = (ex, s1) \<Longrightarrow> svc_reach W s0 s1"
| control: "svc_reach W s0 s \<Longrightarrow> svc_reach W s0 (ctrlHandler W c s)"
| shut: "svc_reach W s0 s \<Longrightarrow> svc_reach W s0 (svc_shutdown W s)"

definition reports :: "svc \<Rightarrow> svc_state list" where
  "reports s = filter (\<lambda>x. x \<noteq> SERVICE_STOP_PENDING) (map dwCurrentState (sc_reported s))"

definition reports_ok :: "svc \<Rightarrow> bool" where
  "reports_ok s \<longleftrightarrow> (\<exists>n. reports s = SERVICE_START_PENDING # replicate n SERVICE_RUNNING) \<or>
     \<not> sc_serviceRunning s \<and> (\<exists>n. reports s = SERVICE_START_PENDING # replicate n SERVICE_RUNNING @ [SERVICE_STOPPED])"

lemma reports_status:
  "setServiceStatus W x e1 e2 cp wh st = (ok, st1) \<Longrightarrow> sc_serviceRunning st1 = sc_serviceRunning st \<and>
   reports st1 = reports st @ (if ok \<and> x \<noteq> SERVICE_STOP_PENDING then [x] else [])"
  by (auto simp: setServiceStatus_def w_api_def reports_def status_of_def split: if_splits)

lemma reach_reports_ok: "svc_reach W s0 s \<Longrightarrow> reports_ok s0 \<Longrightarrow> reports_ok s"
proof (induction rule: svc_reach.induct)
  case (running s ex s1)
  show ?case
  proof (cases "sc_serviceRunning s")
    case True
    then obtain n where n: "reports s = SERVICE_START_PENDING # replicate n SERVICE_RUNNING"
      using running by (auto simp: reports_ok_def)
    obtain ok where "setServiceStatus W SERVICE_RUNNING 0 0 0 0 s = (ok, s1)"
      using running True by (auto simp: svc_runningOk_def split: prod.splits)
    from reports_status [OF this] n have "reports s1 = SERVICE_START_PENDING # replicate (if ok then Suc n else n) SERVICE_RUNNING"
      by (simp add: replicate_append_same)
    then show ?thesis unfolding reports_ok_def by blast
  qed (use running in \<open>simp add: svc_runningOk_def\<close>)
next
  case (control s c)
  obtain ok s1 where st: "setServiceStatus W SERVICE_STOP_PENDING 0 0 1 6000 (s\<lparr>sc_orb_shutdown := True\<rparr>) = (ok, s1)" by force
  have "reports (s\<lparr>sc_orb_shutdown := True\<rparr>) = reports s" "reports (s\<lparr>sc_traceLevel := x\<rparr>) = reports s" for x
    by (simp_all add: reports_def)
  then have "reports (ctrlHandler W c s) = reports s \<and> sc_serviceRunning (ctrlHandler W c s) = sc_serviceRunning s"
    using reports_status [OF st] st by (simp add: ctrlHandler_def)
  then show ?case using control by (simp add: reports_ok_def)
next
  case (shut s)
  let ?s = "s\<lparr>sc_logstream := None\<rparr>"
  have r: "reports ?s = reports s" by (simp add: reports_def)
  show ?case
  proof (cases "sc_serviceRunning s")
    case True
    then obtain n where n: "reports s = SERVICE_START_PENDING # replicate n SERVICE_RUNNING"
      using shut by (auto simp: reports_ok_def)
    obtain ok s1 where st: "setServiceStatus W SERVICE_STOPPED 0 0 0 0 ?s = (ok, s1)" by force
    have "reports (s1\<lparr>sc_serviceRunning := False\<rparr>) = SERVICE_START_PENDING # replicate n SERVICE_RUNNING @ (if ok then [SERVICE_STOPPED] else [])"
      using reports_status [OF st] n r by (simp add: reports_def)
    then show ?thesis using True st by (cases ok) (auto simp: svc_shutdown_def reports_ok_def)
  next
    case False
    then show ?thesis using shut r by (simp add: svc_shutdown_def reports_ok_def)
  qed
qed (simp add: reports_ok_def)

lemma reports_ok_cases:
  "reports_ok s \<Longrightarrow> \<exists>n fin. reports s = SERVICE_START_PENDING # replicate n SERVICE_RUNNING @ fin \<and>
     (fin = [] \<or> fin = [SERVICE_STOPPED] \<and> \<not> sc_serviceRunning s)"
  unfolding reports_ok_def by (metis append_Nil2)

lemma read_reports: "readParameters W st = (ex, st1) \<Longrightarrow> sc_reported st1 = sc_reported st"
  by (auto simp: readParameters_def with_key_def queryValueStr_def w_need_def w_api_def then_do_def win_perror_def svc_log_def
      split: prod.splits option.splits if_splits)

lemma enter_reports:
  assumes "enter_service W argv st = (Inr argv1, s0)" and "sc_reported st = []"
  shows "reports_ok s0"
proof -
  obtain st1 st2 st3 where r: "setArgcArgv W argv st = (Inr argv1, st1)" and h: "w_api W RegisterServiceCtrlHandler st1 = (True, st2)"
    and p: "setServiceStatus W SERVICE_START_PENDING 0 0 1 3000 st2 = (True, st3)" and s0: "s0 = st3\<lparr>sc_serviceRunning := True\<rparr>"
    using assms(1) by (auto simp: enter_service_def split: sum.splits prod.splits bool.splits)
  have "sc_reported st1 = []" using r assms(2) read_reports by (auto simp: setArgcArgv_def Let_def split: prod.splits option.splits)
  then have "reports st2 = []" using h by (auto simp: reports_def w_api_def)
  then have "reports s0 = [SERVICE_START_PENDING]" using reports_status [OF p] s0 by (simp add: reports_def)
  then show ?thesis unfolding reports_ok_def by (intro disjI1 exI [of _ 0]) simp
qed



end
