(* ===== verification/Service_Restart.thy ===== *)
theory Service_Restart
  imports Omni_Events_Log
begin

text \<open>
  A restart of the whole service: what the factory that is made from a parsed logfile has in
  common with the one that wrote it, and what the first checkpoint after a restart does.
\<close>

section \<open>What the factory makes from its node\<close>

lemma incarnate_channels_keys:
  "incarnate_channels E chs sw = (None, sv1, w1) \<Longrightarrow>
   \<exists>acs. map (channel_key \<circ> snd) acs = map (\<lambda>(n, node). (n, pn_attr node)) chs \<and>
     sv_chans sv1 = fold (\<lambda>(a, c). smap_set a c) acs (sv_chans (fst sw)) \<and> sv_port sv1 = sv_port (fst sw) \<and>
     sv_endPointNoListen sv1 = sv_endPointNoListen (fst sw) \<and> sv_store sv1 = sv_store (fst sw)"
proof (induction E chs sw rule: incarnate_channels.induct)
  case (2 E name node rest sw)
  let ?a = "env_alloc E (w_trace (snd sw))"
  obtain ex c w2 where c: "ch_activate E ?a name (Some node) (EventChannel_i, snd sw) = (ex, c, w2)" by (metis prod_cases3)
  with 2(2) have e: "ex = None"
    and r: "incarnate_channels E rest ((fst sw)\<lparr>sv_chans := smap_set ?a c (sv_chans (fst sw))\<rparr>, w2) = (None, sv1, w1)"
    by (auto simp: Let_def split: option.splits)
  from 2(1) [OF refl c [unfolded e, symmetric] refl refl r] obtain acs where
    "map (channel_key \<circ> snd) acs = map (\<lambda>(n, node). (n, pn_attr node)) rest"
    "sv_chans sv1 = fold (\<lambda>(a, c). smap_set a c) acs (smap_set ?a c (sv_chans (fst sw)))" "sv_port sv1 = sv_port (fst sw)"
    "sv_endPointNoListen sv1 = sv_endPointNoListen (fst sw)" "sv_store sv1 = sv_store (fst sw)" by (auto simp: comp_def)
  then show ?case using ch_activate_key [OF c [unfolded e]] by (intro exI [of _ "(?a, c) # acs"]) (simp add: comp_def)
qed simp

text \<open>Entries at addresses of their own do not overwrite each other.\<close>

lemma smap_set_entries:
  "smap_ok m \<Longrightarrow> set (smap_set k v m) = insert (k, v) {x \<in> set m. fst x \<noteq> k}"
  by (induction m rule: smap_set.induct) (auto simp: smap_ok_def)

lemma length_smap_set: "smap_ok m \<Longrightarrow> length (smap_set k v m) = length m + (if k \<in> fst ` set m then 0 else 1)"
  by (induction k v m rule: smap_set.induct) (auto simp: smap_ok_def)

lemma fold_smap_set_ok: "smap_ok m \<Longrightarrow> smap_ok (fold (\<lambda>(a, c). smap_set a c) acs m)"
  by (induction acs arbitrary: m) (auto simp: smap_set_ok)

lemma fold_smap_set_entries:
  assumes "smap_ok m" and "length (fold (\<lambda>(a, c). smap_set a c) acs m) = length m + length acs"
  shows "set (fold (\<lambda>(a, c). smap_set a c) acs m) = set m \<union> set acs"
  using assms(2)
proof (induction acs rule: rev_induct)
  case (snoc ac acs)
  obtain a c where ac: "ac = (a, c)" by force
  let ?m = "fold (\<lambda>(a, c). smap_set a c) acs m"
  have ok: "smap_ok ?m" using fold_smap_set_ok [OF assms(1)] .
  have le: "length ?m \<le> length m + length acs"
    using assms(1)
  proof (induction acs arbitrary: m)
    case (Cons x xs)
    then show ?case using Cons.IH [of "smap_set (fst x) (snd x) m"] length_smap_set [of m "fst x" "snd x"]
      by (auto simp: smap_set_ok split: prod.splits if_splits)
  qed simp
  have l: "length (smap_set a c ?m) = length m + Suc (length acs)" using snoc.prems ac by simp
  then have new: "a \<notin> fst ` set ?m" and len: "length ?m = length m + length acs"
    using length_smap_set [OF ok, of a c] le by (auto split: if_splits)
  have "set (smap_set a c ?m) = insert (a, c) (set ?m)"
    using smap_set_entries [OF ok, of a c] new by (auto intro: rev_image_eqI)
  then show ?case using snoc.IH [OF len] ac by auto
qed simp

section \<open>What the logfile says about the channels\<close>

lemma upward_distinct: "upward ps \<Longrightarrow> distinct (map fst ps)"
  by (induction ps) (auto simp: upward_def)

lemma service_recs_upward:
  assumes "service_sound E sv"
  shows "upward (paths (service_recs E sv))"
proof -
  let ?cs = "map snd (stored sv)"
  have ok: "\<forall>c \<in> set ?cs. chan_sound E c" and d: "distinct (map poa_name ?cs)"
    using assms by (auto simp: service_sound_def)
  have sr: "service_recs E sv = (''ecf'', ecf_attrs sv) # concat (map (chan_recs E) ?cs)"
    by (simp add: service_recs_def comp_def)
  have "\<forall>q \<in> set (path_list (concat (map (chan_recs E) ?cs))). \<not> prefix q [''ecf'']" using paths_below_ecf [OF ok] by blast
  then show ?thesis using chans_upward [OF ok d] unfolding sr upward_def by (auto simp: path_list_paths split_ecf)
qed

lemma state_at_channel:
  assumes "service_sound E sv"
  shows "state_at (paths (service_recs E sv)) [''ecf'', n] = Some as \<longleftrightarrow> (n, as) \<in> (channel_key \<circ> snd) ` set (stored sv)"
proof -
  let ?cs = "map snd (stored sv)" and ?ps = "paths (service_recs E sv)"
  have ok: "chan_sound E c" if "c \<in> set ?cs" for c using assms that by (auto simp: service_sound_def)
  have dist: "distinct (map fst ?ps)" using upward_distinct [OF service_recs_upward [OF assms]] .
  have sr: "service_recs E sv = (''ecf'', ecf_attrs sv) # concat (map (chan_recs E) ?cs)"
    by (simp add: service_recs_def comp_def)
  have here: "map_of ?ps [''ecf'', poa_name c] = Some (pn_attr (ch_props c))" if c: "c \<in> set ?cs" for c
  proof -
    have "plain_name (poa_name c)" using ok [OF c] by (simp add: chan_sound_def)
    then have top: "split_slash (''ecf/'' @ poa_name c) = [''ecf'', poa_name c]"
      using split_slash_join [of "poa_name c" "''ecf''"] by (simp add: plain_name_def)
    have "(''ecf/'' @ poa_name c, pn_attr (ch_props c)) \<in> set (service_recs E sv)"
      using c by (auto simp: sr chan_recs_def)
    then have "([''ecf'', poa_name c], pn_attr (ch_props c)) \<in> set ?ps" unfolding set_map using top by force
    then show ?thesis using dist by (rule map_of_is_SomeI [rotated])
  qed
  have there: "\<exists>c \<in> set ?cs. poa_name c = n" if q: "q \<in> fst ` set ?ps" and pr: "prefix [''ecf'', n] q" for q
  proof -
    from q have "q \<in> set (path_list (service_recs E sv))" by (simp only: path_list_paths list.set_map)
    then have "q = [''ecf''] \<or> q \<in> set (path_list (concat (map (chan_recs E) ?cs)))" by (auto simp: sr split_ecf)
    moreover have "q \<noteq> [''ecf'']" using pr by auto
    ultimately obtain c where c: "c \<in> set ?cs" "q \<in> set (path_list (chan_recs E c))" by (auto simp: path_list_def)
    then have "take 2 q = [''ecf'', poa_name c]" using chan_recs_upward [OF ok] by blast
    moreover have "take 2 q = [''ecf'', n]" using take_prefix [OF pr, of 2] by simp
    ultimately show ?thesis using c(1) by auto
  qed
  show ?thesis
  proof
    assume s: "state_at ?ps [''ecf'', n] = Some as"
    have "\<exists>q \<in> fst ` set ?ps. prefix [''ecf'', n] q"
    proof (cases "map_of ?ps [''ecf'', n]")
      case None
      then show ?thesis using s by (auto simp: state_at_def split: if_splits)
    next
      case (Some x)
      then have "([''ecf'', n], x) \<in> set ?ps" by (rule map_of_SomeD)
      then show ?thesis by force
    qed
    then obtain c where c: "c \<in> set ?cs" "poa_name c = n" using there by blast
    then have "as = pn_attr (ch_props c)" using here [OF c(1)] s by (simp add: state_at_def)
    then show "(n, as) \<in> (channel_key \<circ> snd) ` set (stored sv)" using c by (auto simp: channel_key_def)
  next
    assume "(n, as) \<in> (channel_key \<circ> snd) ` set (stored sv)"
    then obtain c where "c \<in> set ?cs" "n = poa_name c" "as = pn_attr (ch_props c)" by (auto simp: channel_key_def)
    then show "state_at ?ps [''ecf'', n] = Some as" using here by (simp add: state_at_def)
  qed
qed

lemma pn_update_ok: "(\<And>n. pn_ok n \<Longrightarrow> pn_ok (f n)) \<Longrightarrow> pn_ok T \<Longrightarrow> pn_ok (pn_update p f T)"
  by (induction p f T rule: pn_update.induct) (auto split: option.splits intro: pn_oks_map_of intro!: smap_set_ok pn_oks_smap_set)

lemma readnode_loop_ok: "pn_ok root \<Longrightarrow> readnode_loop s tok node root = (b, s1, root1) \<Longrightarrow> pn_ok root1"
proof (induction s tok node root rule: readnode_loop.induct)
  case (1 s tok node root)
  obtain ok tok1 s2 where t: "readtoken s tok = (ok, tok1, s2)" by (metis prod_cases3)
  have add: "pn_ok (addnode n root)" "pn_ok (delnode n root)" for n
    using 1(4) by (auto simp: addnode_graft delnode_def intro: graft_ok delnode_path_ok)
  have upd: "pn_ok (pn_update p (addattr tok1) root)" for p
    using 1(4) by (intro pn_update_ok) (auto simp: addattr_def intro: set_attr_ok)
  show ?case
  proof (cases "\<not> ok \<or> tok1 = '';;''")
    case True
    then show ?thesis using 1(4,5) t by (auto simp: readnode_loop.simps [of s])
  next
    case False
    then show ?thesis using 1(1-3) [OF t [symmetric] refl] 1(5) t add upd
      by (auto simp: readnode_loop.simps [of s] split: option.splits if_splits)
  qed
qed

lemma parse_stream_ok: "pn_ok root \<Longrightarrow> pn_ok (parse_stream s root)"
proof (induction s root rule: parse_stream.induct)
  case (1 s root)
  obtain b s1 root1 where r: "readnode s root = (b, s1, root1)" by (metis prod_cases3)
  then have "pn_ok root1" using 1(2) readnode_loop_ok by (auto simp: readnode_def)
  then show ?case using 1(1) r by (cases b) (auto simp: parse_stream.simps [of s])
qed

lemma parse_text_ok: "pn_ok (parse_text s)"
  by (simp add: parse_text_def parse_stream_ok)

lemma children_at:
  assumes "pn_ok T" and "child k T = Some node"
  shows "(\<lambda>(n, c). (n, pn_attr c)) ` set (pn_child node) = {(n, as). attrs_at [k, n] T = Some as}"
proof -
  have ok: "smap_ok (pn_child node)"
    using assms by (cases T; cases node) (auto simp: child_def dest: pn_oks_map_of)
  have "(n, as) \<in> (\<lambda>(n, c). (n, pn_attr c)) ` set (pn_child node) \<longleftrightarrow> attrs_at [k, n] T = Some as" for n as
  proof -
    have "(n, as) \<in> (\<lambda>(n, c). (n, pn_attr c)) ` set (pn_child node) \<longleftrightarrow> (\<exists>c. (n, c) \<in> set (pn_child node) \<and> pn_attr c = as)"
      by force
    also have "\<dots> \<longleftrightarrow> (\<exists>c. map_of (pn_child node) n = Some c \<and> pn_attr c = as)"
      using smap_ok_map_of [OF ok] map_of_Some_in by metis
    also have "\<dots> \<longleftrightarrow> attrs_at [k, n] T = Some as"
      using assms(2) by (auto simp: attrs_at_def child_def split: option.splits)
    finally show ?thesis .
  qed
  then have "x \<in> (\<lambda>(n, c). (n, pn_attr c)) ` set (pn_child node) \<longleftrightarrow> x \<in> {(n, as). attrs_at [k, n] T = Some as}" for x
    by (cases x) (simp only: mem_Collect_eq prod.case)
  then show ?thesis by (rule set_eqI)
qed

lemma log_parse_ok: "log_parse N d = Inr T \<Longrightarrow> pn_ok T"
  using parse_text_ok by (auto simp: log_parse_def log_check_def Let_def split: option.splits if_splits)

section \<open>Restart\<close>

lemma factory_makes:
  assumes "EventChannelFactory_i E self node w = (None, sv, w1)"
  obtains w0 where "incarnate_channels E (pn_child node)
    (\<lparr>sv_chans = [], sv_store = [], sv_port = word_of_int (attrLong ''port'' 11169 node),
      sv_endPointNoListen = attrString ''endPointNoListen'' [] node\<rparr>, w) = (None, sv, w0)"
proof -
  let ?sv0 = "\<lparr>sv_chans = [], sv_store = [], sv_port = word_of_int (attrLong ''port'' 11169 node),
    sv_endPointNoListen = attrString ''endPointNoListen'' [] node\<rparr>"
  from assms(1) obtain s1 where s1: "incarnate_channels E (pn_child node) (?sv0, w) = (None, s1)"
    and a: "(case s1 of (sv, w1) \<Rightarrow> case activateObjectWithId E INSPOA ''omniEvents'' self w1 of (ex, w2) \<Rightarrow> (ex, sv, w2)) = (None, sv, w1)"
    unfolding EventChannelFactory_i_def then_do_Some by blast
  obtain sv2 w2 where s2: "s1 = (sv2, w2)" by force
  then have "sv2 = sv" using a by (auto split: prod.splits)
  then show thesis using s1 s2 that by simp
qed

lemma factory_start:
  "EventChannelFactory_i E self node w = (None, sv, w1) \<Longrightarrow>
   sv_port sv = word_of_int (attrLong ''port'' 11169 node) \<and>
   sv_endPointNoListen sv = attrString ''endPointNoListen'' [] node \<and> sv_store sv = []"
  by (elim factory_makes) (auto dest!: incarnate_channels_keys)

lemma factory_keys:
  assumes "EventChannelFactory_i E self node w = (None, sv, w1)" and "length (sv_chans sv) = length (pn_child node)"
  shows "(channel_key \<circ> snd) ` set (sv_chans sv) = (\<lambda>(n, c). (n, pn_attr c)) ` set (pn_child node)"
proof -
  obtain w0 where "incarnate_channels E (pn_child node) (\<lparr>sv_chans = [], sv_store = [],
      sv_port = word_of_int (attrLong ''port'' 11169 node),
      sv_endPointNoListen = attrString ''endPointNoListen'' [] node\<rparr>, w) = (None, sv, w0)"
    by (rule factory_makes [OF assms(1)])
  from incarnate_channels_keys [OF this] obtain acs where
    k: "map (channel_key \<circ> snd) acs = map (\<lambda>(n, node). (n, pn_attr node)) (pn_child node)"
    and c: "sv_chans sv = fold (\<lambda>(a, c). smap_set a c) acs []" by auto
  have "length acs = length (pn_child node)" using arg_cong [OF k, of length] by simp
  then have "set (sv_chans sv) = set acs" using fold_smap_set_entries [of "[]" acs] assms(2) c by simp
  then have "(channel_key \<circ> snd) ` set (sv_chans sv) = set (map (channel_key \<circ> snd) acs)" by simp
  then show ?thesis unfolding k by simp
qed

text \<open>
  C19. A restart restores the service. After a checkpoint that nothing disturbs, a later
  process that parses the logfile and makes its factory from it, on whatever machine and
  whatever the ORB answers, has the same port and end point, and exactly the same channels with
  the same attributes, provided that it makes all of its objects (at addresses of their own).
\<close>

theorem restart_restores_channels:
  assumes "\<And>cs. \<not> os_fails S cs" and "names_ok N" and "log_sound N old (lg_disk st)"
    and "service_sound E (lg_service st)" and "sv_port (lg_service st) \<noteq> 0"
    and "(ck_step S E N ^^ 8) (CkPrepare, st) = (CkIdle, st1)" and "log_parse N (lg_disk st1) = Inr T"
    and "child ''ecf'' T = Some ecf" and "EventChannelFactory_i E' self ecf w = (None, sv, w1)"
    and "length (sv_chans sv) = length (pn_child ecf)"
  shows "sv_port sv = sv_port (lg_service st) \<and> sv_endPointNoListen sv = sv_endPointNoListen (lg_service st) \<and>
    (channel_key \<circ> snd) ` set (sv_chans sv) = (channel_key \<circ> snd) ` set (stored (lg_service st))"
proof -
  let ?sv = "lg_service st"
  have T: "attrs_at p T = state_at (paths (service_recs E ?sv)) p" for p
    using ck_restart [OF assms(1-5)] assms(6,7) by auto
  have ok: "pn_ok T" using assms(7) by (rule log_parse_ok)
  note f = factory_keys [OF assms(9,10)] factory_start [OF assms(9)]
  have "(channel_key \<circ> snd) ` set (sv_chans sv) = {(n, as). state_at (paths (service_recs E ?sv)) [''ecf'', n] = Some as}"
    using f children_at [OF ok assms(8)] by (simp only: T)
  also have "\<dots> = (channel_key \<circ> snd) ` set (stored ?sv)"
    unfolding state_at_channel [OF assms(4)] by auto
  finally have chans: "(channel_key \<circ> snd) ` set (sv_chans sv) = (channel_key \<circ> snd) ` set (stored ?sv)" .
  have at: "pn_attr ecf = ecf_attrs ?sv"
    using T [of "[''ecf'']"] assms(8) by (simp add: state_at_ecf attrs_at_def)
  have "uint (sv_port ?sv) < 2 ^ 32" "0 \<le> uint (sv_port ?sv)" using uint_bounded [of "sv_port ?sv"] by simp_all
  then have "c_atol (show_int (uint (sv_port ?sv))) = uint (sv_port ?sv)" by (intro atol_show_nat)
  then have "attrLong ''port'' 11169 ecf = uint (sv_port ?sv)" by (simp add: attrLong_def at ecf_attrs_def)
  moreover have "attrString ''endPointNoListen'' [] ecf = sv_endPointNoListen ?sv" by (simp add: attrString_def at ecf_attrs_def)
  ultimately show ?thesis using f chans by simp
qed


text \<open>A service with one channel, as the state that is written, for a concrete run.\<close>

definition news_log :: log_state where
  "news_log = (demo_log None)\<lparr>lg_service := \<lparr>sv_chans = [(3, EventChannel_i\<lparr>ch_poa := Some ''news'',
     ch_props := PersistNode [(''MaxQueueLength'', ''8'')] []\<rparr>)], sv_store = [(3, ())], sv_port = 7, sv_endPointNoListen = []\<rparr>\<rparr>"

lemma news_stored: "map (channel_key \<circ> snd) (stored (lg_service news_log)) = [(''news'', [(''MaxQueueLength'', ''8'')])]"
  by (simp add: news_log_def demo_log_def stored_def List.map_filter_def channel_key_def poa_name_def)

lemma news_sound: "service_sound idle_env (lg_service news_log)"
proof -
  have "no_space (replicate n (CHR ''x''))" for n by (induction n) (simp_all add: c_space_def)
  then show ?thesis
    by (simp add: service_sound_def news_log_def demo_log_def stored_def List.map_filter_def idle_env_def chan_sound_def
        poa_name_def plain_name_def c_space_def attr_ok_def EventChannel_i_def)
qed

lemma news_paths: "paths (service_recs idle_env (lg_service news_log)) =
  [([''ecf''], [(''port'', ''7'')]), ([''ecf'', ''news''], [(''MaxQueueLength'', ''8'')])]"
proof -
  have "show_int 7 = ''7''" by code_simp
  then have "service_recs idle_env (lg_service news_log) =
      [(''ecf'', [(''port'', ''7'')]), (''ecf/'' @ ''news'', [(''MaxQueueLength'', ''8'')])]"
    by (simp add: service_recs_def ecf_attrs_def chan_recs_def news_log_def demo_log_def stored_def List.map_filter_def
        poa_name_def EventChannel_i_def)
  moreover have "split_slash ''ecf'' = [''ecf'']" by code_simp
  moreover have "split_slash (''ecf/'' @ ''news'') = [''ecf'', ''news'']" by code_simp
  ultimately show ?thesis by simp
qed

lemma one_channel_factory:
  assumes "pn_ok T" and "\<And>p. attrs_at p T = state_at (paths (service_recs idle_env (lg_service news_log))) p"
  obtains ecf sv w1 where "child ''ecf'' T = Some ecf" and "length (pn_child ecf) = 1"
    and "EventChannelFactory_i idle_env 9 ecf (init_world True) = (None, sv, w1)" and "length (sv_chans sv) = 1"
proof -
  have at: "attrs_at p T = state_at [([''ecf''], [(''port'', ''7'')]), ([''ecf'', ''news''], [(''MaxQueueLength'', ''8'')])] p" for p
    using assms(2) by (simp only: news_paths)
  from at [of "[''ecf'']"] obtain ecf where e: "child ''ecf'' T = Some ecf"
    by (auto simp: attrs_at_def child_def state_at_def split: option.splits)
  have here: "attrs_at [''ecf'', n] T = Some as \<longleftrightarrow> n = ''news'' \<and> as = [(''MaxQueueLength'', ''8'')]" for n as
    using at [of "[''ecf'', n]"] by (auto simp: state_at_def split: if_splits)
  have ok: "smap_ok (pn_child ecf)"
    using assms(1) e by (cases T; cases ecf) (auto simp: child_def dest: pn_oks_map_of)
  have chs: "(\<lambda>(n, c). (n, pn_attr c)) ` set (pn_child ecf) = {(''news'', [(''MaxQueueLength'', ''8'')])}"
    unfolding children_at [OF assms(1) e] here by auto
  have "fst ` set (pn_child ecf) = fst ` (\<lambda>(n, c). (n, pn_attr c)) ` set (pn_child ecf)" by (auto simp: image_image split_beta)
  also have "\<dots> = {''news''}" unfolding chs by simp
  finally have "fst ` set (pn_child ecf) = {''news''}" .
  moreover have "distinct (map fst (pn_child ecf))" using ok by (rule smap_ok_distinct)
  ultimately have "length (pn_child ecf) = 1" using distinct_card [of "map fst (pn_child ecf)"] by simp
  then obtain node where ec: "pn_child ecf = [(''news'', node)]" and as: "pn_attr node = [(''MaxQueueLength'', ''8'')]"
    using chs by (cases "pn_child ecf"; cases "tl (pn_child ecf)") auto
  have leaf: "pn_child node = []"
  proof (cases "pn_child node")
    case (Cons kc rest)
    obtain k c where kc: "kc = (k, c)" by force
    have "attrs_at [''ecf'', ''news'', k] T = Some (pn_attr c)"
      using e ec kc Cons by (simp add: attrs_at_def child_def)
    then show ?thesis using at [of "[''ecf'', ''news'', k]"] by (simp add: state_at_def)
  qed
  have len: "c_atol ''8'' = 8" by code_simp
  have "\<exists>q. EventQueue (uint (maxQueueLength node)) = Inr q"
    by (simp add: maxQueueLength_def attrLong_def as len EventQueue_def)
  then obtain c w where c: "ch_activate idle_env (env_alloc idle_env (w_trace (init_world True))) ''news'' (Some node)
      (EventChannel_i, init_world True) = (None, c, w)" using idle_channel [OF leaf] by blast
  obtain w1 where "activateObjectWithId idle_env INSPOA ''omniEvents'' 9 w = (None, w1)" by (rule idle_activates)
  then have "\<exists>sv. EventChannelFactory_i idle_env 9 ecf (init_world True) = (None, sv, w1) \<and> length (sv_chans sv) = 1"
    by (simp add: EventChannelFactory_i_def ec c then_do_def Let_def)
  then show thesis using that e \<open>length (pn_child ecf) = 1\<close> by blast
qed

theorem restart_restores_channels_witness:
  "\<exists>st1 T ecf sv w1. (ck_step \<lparr>os_fails = (\<lambda>_. False), os_written = (\<lambda>_. 0)\<rparr> idle_env demo_names ^^ 8) (CkPrepare, news_log) =
      (CkIdle, st1) \<and> log_parse demo_names (lg_disk st1) = Inr T \<and> child ''ecf'' T = Some ecf \<and>
    EventChannelFactory_i idle_env 9 ecf (init_world True) = (None, sv, w1) \<and>
    (channel_key \<circ> snd) ` set (sv_chans sv) = {(''news'', [(''MaxQueueLength'', ''8'')])}"
proof -
  let ?S = "\<lparr>os_fails = (\<lambda>_. False), os_written = (\<lambda>_. 0)\<rparr>"
  have s: "\<And>cs. \<not> os_fails ?S cs" by simp
  have l: "log_sound demo_names ''ecf port=7 ;;'' (lg_disk news_log)" using demo_sound(2) [of None] by (simp add: news_log_def)
  have p: "sv_port (lg_service news_log) \<noteq> 0" by (simp add: news_log_def)
  obtain st1 T where r: "(ck_step ?S idle_env demo_names ^^ 8) (CkPrepare, news_log) = (CkIdle, st1)"
    and t: "log_parse demo_names (lg_disk st1) = Inr T"
    and a: "\<And>p. attrs_at p T = state_at (paths (service_recs idle_env (lg_service news_log))) p"
    using ck_restart [OF s demo_sound(1) l news_sound p] by blast
  obtain ecf sv w1 where e: "child ''ecf'' T = Some ecf" "EventChannelFactory_i idle_env 9 ecf (init_world True) = (None, sv, w1)"
    and n: "length (sv_chans sv) = length (pn_child ecf)"
    by (rule one_channel_factory [OF log_parse_ok [OF t] a]) simp
  have "(channel_key \<circ> snd) ` set (sv_chans sv) = set (map (channel_key \<circ> snd) (stored (lg_service news_log)))"
    using restart_restores_channels [OF s demo_sound(1) l news_sound p r t e n] by simp
  then show ?thesis using r t e unfolding news_stored by auto
qed

text \<open>
  C20. The first checkpoint after a restart. The constructor of the factory makes the channels but
  puts none into the store: each does that itself, when its thread runs. A checkpoint that comes
  first writes a logfile without any channel, whatever the node the factory was made from said.
\<close>

theorem early_checkpoint_drops_channels:
  assumes "EventChannelFactory_i E' self node w = (None, lg_service st, w1)"
    and "no_space (attrString ''endPointNoListen'' [] node)" and "\<forall>t. no_space (env_object_to_string E t)"
    and "(word_of_int (attrLong ''port'' 11169 node) :: ulong) \<noteq> 0"
    and "\<And>cs. \<not> os_fails S cs" and "names_ok N" and "log_sound N old (lg_disk st)"
  shows "\<exists>st1 T. (ck_step S E N ^^ 8) (CkPrepare, st) = (CkIdle, st1) \<and> log_parse N (lg_disk st1) = Inr T \<and>
    attrs_at [''ecf''] T = Some (ecf_attrs (lg_service st)) \<and> (\<forall>n. attrs_at [''ecf'', n] T = None)"
proof -
  note f = factory_start [OF assms(1)]
  have st: "stored (lg_service st) = []" using f by (simp add: stored_def List.map_filter_def)
  then have s: "service_sound E (lg_service st)"
    using assms(2,3) f by (simp add: service_sound_def)
  have p: "sv_port (lg_service st) \<noteq> 0" using assms(4) f by simp
  have "state_at (paths (service_recs E (lg_service st))) [''ecf'', n] = None" for n
    using state_at_channel [OF s, of n] st by (cases "state_at (paths (service_recs E (lg_service st))) [''ecf'', n]") auto
  then show ?thesis using ck_restart [OF assms(5-7) s p] by (auto simp: state_at_ecf)
qed

theorem early_checkpoint_drops_channels_witness:
  "\<exists>sv w1 st1 T. EventChannelFactory_i idle_env 9 (PersistNode [(''port'', ''7'')] [(''news'', PersistNode [] [])])
      (init_world True) = (None, sv, w1) \<and> length (sv_chans sv) = 1 \<and>
    (ck_step \<lparr>os_fails = (\<lambda>_. False), os_written = (\<lambda>_. 0)\<rparr> idle_env demo_names ^^ 8)
      (CkPrepare, (demo_log None)\<lparr>lg_service := sv\<rparr>) = (CkIdle, st1) \<and>
    log_parse demo_names (lg_disk st1) = Inr T \<and> attrs_at [''ecf'', ''news''] T = None"
proof -
  let ?ecf = "PersistNode [(''port'', ''7'')] [(''news'', PersistNode [] [])]"
  let ?S = "\<lparr>os_fails = (\<lambda>_. False), os_written = (\<lambda>_. 0)\<rparr>"
  have "\<exists>q. EventQueue (uint (maxQueueLength (PersistNode [] []))) = Inr q"
    by (simp add: maxQueueLength_def attrLong_def MAX_QUEUE_LENGTH_def EventQueue_def)
  then obtain q where q: "EventQueue (uint (maxQueueLength (PersistNode [] []))) = Inr q" by (rule exE)
  have leaf: "pn_child (PersistNode [] []) = []" by simp
  obtain c w where c: "ch_activate idle_env (env_alloc idle_env (w_trace (init_world True))) ''news''
      (Some (PersistNode [] [])) (EventChannel_i, init_world True) = (None, c, w)" using idle_channel [OF leaf q] by blast
  obtain w1 where "activateObjectWithId idle_env INSPOA ''omniEvents'' 9 w = (None, w1)" by (rule idle_activates)
  then have "\<exists>sv. EventChannelFactory_i idle_env 9 ?ecf (init_world True) = (None, sv, w1) \<and> length (sv_chans sv) = 1"
    by (simp add: EventChannelFactory_i_def c then_do_def Let_def)
  then obtain sv where f: "EventChannelFactory_i idle_env 9 ?ecf (init_world True) = (None, sv, w1)" "length (sv_chans sv) = 1"
    by blast
  let ?st = "(demo_log None)\<lparr>lg_service := sv\<rparr>"
  have at: "c_atol ''7'' = 7" by code_simp
  have "no_space (replicate n (CHR ''x''))" for n by (induction n) (simp_all add: c_space_def)
  then have h: "EventChannelFactory_i idle_env 9 ?ecf (init_world True) = (None, lg_service ?st, w1)"
    "no_space (attrString ''endPointNoListen'' [] ?ecf)" "\<forall>t. no_space (env_object_to_string idle_env t)"
    "(word_of_int (attrLong ''port'' 11169 ?ecf) :: ulong) \<noteq> 0" "\<And>cs. \<not> os_fails ?S cs"
    "log_sound demo_names ''ecf port=7 ;;'' (lg_disk ?st)"
    using f demo_sound(2) [of None] by (simp_all add: attrString_def attrLong_def at idle_env_def)
  show ?thesis using early_checkpoint_drops_channels [OF h(1-5) demo_sound(1) h(6)] f by blast
qed

end
