(* ===== verification/Tool_Service.thy ===== *)
theory Tool_Service
  imports Event_Tools
begin

text \<open>
  The tools at work on the service: the calls on the factory and on its iterators are answered
  by the model of the factory, all others by a parameter. A tool that lists channels relies on
  the contract of the iterators, which is a locale here.
\<close>

section \<open>The factory as the object behind the calls\<close>

text \<open>\<open>sr_ext\<close> is the state of everything outside the service; iterators are numbered.\<close>

record 'x served =
  sr_ext :: 'x
  sr_service :: service
  sr_world :: world
  sr_iters :: "channel_info iter list"

definition outside :: "(rcall \<Rightarrow> 'x \<Rightarrow> 'r \<times> 'x) \<Rightarrow> rcall \<Rightarrow> 'x served \<Rightarrow> 'r \<times> 'x served" where
  "outside f c s = (case f c (sr_ext s) of (r, x) \<Rightarrow> (r, s\<lparr>sr_ext := x\<rparr>))"

definition no_info :: channel_info where
  "no_info = \<lparr>ci_channel_name = [], ci_pull_retry_period = 0, ci_max_queue_length = 0, ci_max_num_proxies = 0,
     ci_cycle_period = 0, ci_has_mapper = False, ci_filter_id = []\<rparr>"

definition serve_ref :: "'x remote \<Rightarrow> env \<Rightarrow> rcall \<Rightarrow> 'x served \<Rightarrow> (exn + objref option) \<times> 'x served" where
  "serve_ref N E c s = (case c of
      RcCreateObject fac k cr \<Rightarrow>
        (case create_object E k cr (sr_service s, sr_world s) of
           (r, sv, w) \<Rightarrow> (map_sum id Some r, s\<lparr>sr_service := sv, sr_world := w\<rparr>))
    | _ \<Rightarrow> outside (rm_ref N) c s)"

definition serve_unit :: "'x remote \<Rightarrow> env \<Rightarrow> rcall \<Rightarrow> 'x served \<Rightarrow> (exn + unit) \<times> 'x served" where
  "serve_unit N E c s = (case c of
      RcDeleteAll fac \<Rightarrow>
        (case delete_all E (sr_service s, sr_world s) of
           (ex, sv, w) \<Rightarrow> (case ex of None \<Rightarrow> Inr () | Some e \<Rightarrow> Inl e, s\<lparr>sr_service := sv, sr_world := w\<rparr>))
    | _ \<Rightarrow> outside (rm_unit N) c s)"

definition serve_bool :: "'x remote \<Rightarrow> rcall \<Rightarrow> 'x served \<Rightarrow> (exn + bool) \<times> 'x served" where
  "serve_bool N c s = (case c of RcSupports fac k \<Rightarrow> (Inr (supports k), s) | _ \<Rightarrow> outside (rm_bool N) c s)"

definition serve_list :: "'x remote \<Rightarrow> rcall \<Rightarrow> 'x served \<Rightarrow> (exn + channel_info list \<times> objref option) \<times> 'x served" where
  "serve_list N c s = (case c of
      RcListChannels fac n \<Rightarrow>
        (case list_channels n (sr_service s) of
           (chunk, None) \<Rightarrow> (Inr (chunk, None), s)
         | (chunk, Some it) \<Rightarrow> (Inr (chunk, Some (length (sr_iters s))), s\<lparr>sr_iters := sr_iters s @ [it]\<rparr>))
    | _ \<Rightarrow> outside (rm_list N) c s)"

definition serve_next :: "'x remote \<Rightarrow> rcall \<Rightarrow> 'x served \<Rightarrow> (exn + channel_info option) \<times> 'x served" where
  "serve_next N c s = (case c of
      RcNextOne i \<Rightarrow>
        if i < length (sr_iters s)
        then (case next_one no_info (sr_iters s ! i) of
                ((found, info), it) \<Rightarrow> (Inr (if found then Some info else None), s\<lparr>sr_iters := (sr_iters s)[i := it]\<rparr>))
        else (Inl OBJECT_NOT_EXIST, s)
    | _ \<Rightarrow> outside (rm_next N) c s)"

definition service_remote :: "'x remote \<Rightarrow> env \<Rightarrow> 'x served remote" where
  "service_remote N E = \<lparr>rm_ref = serve_ref N E, rm_unit = serve_unit N E, rm_bool = serve_bool N,
     rm_text = outside (rm_text N), rm_list = serve_list N, rm_next = serve_next N, rm_name = rm_name N, rm_minor = rm_minor N\<rparr>"

section \<open>Listing\<close>

text \<open>
  The contract: a list of size zero is handed out with an iterator for all items, or with none
  if there is no item; \<^verbatim>\<open>next_one\<close> returns them one after the other, whatever names are unbound
  in between.
\<close>

locale channel_lister =
  fixes R :: "'w remote" and items :: "'w \<Rightarrow> channel_info list" and pending :: "objref \<Rightarrow> 'w \<Rightarrow> channel_info list option"
  assumes list_items: "rm_list R (RcListChannels fac 0) w = (r, w1) \<Longrightarrow>
      items w = [] \<and> (\<exists>l. r = Inr (l, None)) \<or> (\<exists>l i. r = Inr (l, Some i) \<and> pending i w1 = Some (items w))"
    and next_end: "pending i w = Some [] \<Longrightarrow> \<exists>w1. rm_next R (RcNextOne i) w = (Inr None, w1)"
    and next_item: "pending i w = Some (x # xs) \<Longrightarrow>
      \<exists>w1. rm_next R (RcNextOne i) w = (Inr (Some x), w1) \<and> pending i w1 = Some xs"
    and unbind_pending: "pending i (snd (rm_unit R (RcNsUnbind c n) w)) = pending i w"
begin

text \<open>The loop visits every item once, in order. \<open>f\<close> is what the body changes, \<open>h\<close> how.\<close>

lemma each_channel_visits:
  assumes "pending i (cl_world t) = Some xs"
    and "\<And>r t t1. invoke (rm_next R) (RcNextOne i) t = (r, t1) \<Longrightarrow> f t1 = f t"
    and "\<And>x t. x \<in> set xs \<Longrightarrow> \<exists>t1. body x t = (Inr (), t1) \<and> f t1 = h x (f t) \<and> pending i (cl_world t1) = pending i (cl_world t)"
  shows "\<exists>t1. each_channel R i body t = Some (Inr (), t1) \<and> f t1 = fold h xs (f t)"
  using assms(1,3)
proof (induction xs arbitrary: t)
  case Nil
  obtain w1 where n: "rm_next R (RcNextOne i) (cl_world t) = (Inr None, w1)" using next_end [OF Nil(1)] by blast
  then obtain t1 where t1: "invoke (rm_next R) (RcNextOne i) t = (Inr None, t1)" by (simp add: invoke_def)
  then show ?case using assms(2) [OF t1] by (subst each_channel.simps) simp
next
  case (Cons x xs)
  obtain w1 where n: "rm_next R (RcNextOne i) (cl_world t) = (Inr (Some x), w1)" "pending i w1 = Some xs"
    using next_item [OF Cons(2)] by blast
  then obtain t1 where t1: "invoke (rm_next R) (RcNextOne i) t = (Inr (Some x), t1)" "cl_world t1 = w1"
    by (simp add: invoke_def)
  obtain t2 where t2: "body x t1 = (Inr (), t2)" "f t2 = h x (f t1)" "pending i (cl_world t2) = pending i (cl_world t1)"
    using Cons(3) [of x t1] by auto
  have "\<exists>t3. each_channel R i body t2 = Some (Inr (), t3) \<and> f t3 = fold h xs (f t2)"
    using t2(3) n(2) t1(2) Cons(3) by (intro Cons(1)) auto
  then show ?case using t1(1) t2 assms(2) [OF t1(1)] by (subst each_channel.simps) simp
qed

lemma list_all_visits:
  assumes "\<And>r t t1. invoke (rm_list R) (RcListChannels fac 0) t = (r, t1) \<Longrightarrow> f t1 = f t"
    and "\<And>i r t t1. invoke (rm_next R) (RcNextOne i) t = (r, t1) \<Longrightarrow> f t1 = f t"
    and "\<And>i x t. x \<in> set (items (cl_world s)) \<Longrightarrow>
      \<exists>t1. body x t = (Inr (), t1) \<and> f t1 = h x (f t) \<and> pending i (cl_world t1) = pending i (cl_world t)"
  shows "\<exists>t1. list_all R fac body s = Some (Inr (), t1) \<and> f t1 = fold h (items (cl_world s)) (f s)"
proof -
  obtain r s1 where l: "invoke (rm_list R) (RcListChannels fac 0) s = (r, s1)" by force
  then have "rm_list R (RcListChannels fac 0) (cl_world s) = (r, cl_world s1)" by (auto simp: invoke_def split: prod.splits)
  from list_items [OF this] show ?thesis
  proof (elim disjE exE conjE)
    fix l' i
    assume "r = Inr (l', Some i)" "pending i (cl_world s1) = Some (items (cl_world s))"
    then show ?thesis
      using each_channel_visits [of i s1 "items (cl_world s)" f body h] assms(2,3) assms(1) [OF l] l by (fastforce simp: list_all_def)
  qed (use l assms(1) [OF l] in \<open>simp add: list_all_def\<close>)
qed

end

text \<open>The factory keeps the contract.\<close>

definition pending_items :: "objref \<Rightarrow> 'x served \<Rightarrow> channel_info list option" where
  "pending_items i s = (if i < length (sr_iters s) \<and> it_offset (sr_iters s ! i) \<le> length (it_list (sr_iters s ! i))
     then Some (drop (it_offset (sr_iters s ! i)) (it_list (sr_iters s ! i))) else None)"

interpretation factory_lists: channel_lister "service_remote N E" "\<lambda>s. store_list (sr_service s)" pending_items for N E
proof
  fix fac r and w w1 :: "'a served"
  assume "rm_list (service_remote N E) (RcListChannels fac 0) w = (r, w1)"
  then have l: "(case list_channels 0 (sr_service w) of
       (chunk, None) \<Rightarrow> (Inr (chunk, None), w)
     | (chunk, Some it) \<Rightarrow> (Inr (chunk, Some (length (sr_iters w))), w\<lparr>sr_iters := sr_iters w @ [it]\<rparr>)) = (r, w1)"
    by (simp add: service_remote_def serve_list_def)
  show "store_list (sr_service w) = [] \<and> (\<exists>l. r = Inr (l, None)) \<or>
      (\<exists>l i. r = Inr (l, Some i) \<and> pending_items i w1 = Some (store_list (sr_service w)))"
  proof (cases "store_list (sr_service w) = []")
    case False
    then have "r = Inr ([], Some (length (sr_iters w)))" "w1 = w\<lparr>sr_iters := sr_iters w @ [Iterator (store_list (sr_service w))]\<rparr>"
      using l by (auto simp: list_channels_def list_items_def next_n_def Iterator_def)
    then show ?thesis by (simp add: pending_items_def Iterator_def)
  qed (use l in \<open>auto simp: list_channels_def list_items_def\<close>)
next
  fix i and w :: "'a served"
  assume "pending_items i w = Some []"
  then show "\<exists>w1. rm_next (service_remote N E) (RcNextOne i) w = (Inr None, w1)"
    by (auto simp: service_remote_def serve_next_def next_one_def pending_items_def split: if_splits)
next
  fix i x xs and w :: "'a served"
  assume p: "pending_items i w = Some (x # xs)"
  then have i: "i < length (sr_iters w)" "drop (it_offset (sr_iters w ! i)) (it_list (sr_iters w ! i)) = x # xs"
    by (auto simp: pending_items_def split: if_splits)
  then have o: "it_offset (sr_iters w ! i) < length (it_list (sr_iters w ! i))" by (metis drop_all list.discI not_le_imp_less)
  then have "it_list (sr_iters w ! i) ! it_offset (sr_iters w ! i) = x"
    "drop (Suc (it_offset (sr_iters w ! i))) (it_list (sr_iters w ! i)) = xs"
    using i(2) by (simp_all add: Cons_nth_drop_Suc [symmetric])
  then show "\<exists>w1. rm_next (service_remote N E) (RcNextOne i) w = (Inr (Some x), w1) \<and> pending_items i w1 = Some xs"
    using i(1) o by (simp add: service_remote_def serve_next_def next_one_def pending_items_def)
next
  fix i c n and w :: "'a served"
  show "pending_items i (snd (rm_unit (service_remote N E) (RcNsUnbind c n) w)) = pending_items i w"
    by (simp add: service_remote_def serve_unit_def outside_def pending_items_def split: prod.split)
qed

text \<open>Lookups change neither the service nor the output.\<close>

definition keeps_service :: "'x served client \<Rightarrow> 'x served client \<Rightarrow> bool" where
  "keeps_service t t1 \<longleftrightarrow> sr_service (cl_world t1) = sr_service (cl_world t) \<and> cl_out t1 = cl_out t"

interpretation kept: lookup_safe "service_remote N E" keeps_service for N E
proof
  fix c r and t t1 :: "'a served client"
  assume "invoke (rm_ref (service_remote N E)) c t = (r, t1)" and "is_lookup c"
  then show "keeps_service t t1"
    by (cases c) (auto simp: keeps_service_def invoke_def service_remote_def serve_ref_def outside_def split: prod.splits)
qed (auto simp: keeps_service_def doing_def cerr_def)

lemma invoke_output: "invoke f c t = (r, t1) \<Longrightarrow> cl_out t1 = cl_out t"
  by (auto simp: invoke_def split: prod.splits)

lemma destroy_output: "destroy_orb R t = (r, t1) \<Longrightarrow> cl_out t1 = cl_out t"
  by (auto simp: destroy_orb_def doing_def then_r_def split: prod.splits sum.splits dest!: invoke_output)

lemma fold_append: "fold (\<lambda>x ys. ys @ g x) xs ys = ys @ concat (map g xs)"
  by (induction xs arbitrary: ys) simp_all

lemma list_prints:
  "\<exists>t1. list_all (service_remote N E) fac (\<lambda>i t2. (Inr (), cout (g i) t2)) t = Some (Inr (), t1) \<and>
    cl_out t1 = cl_out t @ concat (map g (store_list (sr_service (cl_world t))))"
  unfolding fold_append [symmetric] by (rule factory_lists.list_all_visits) (auto simp: cout_def dest: invoke_output)


fun unbound_name :: "rcall \<Rightarrow> cos_name list" where
  "unbound_name (RcNsUnbind _ n) = [n]"
| "unbound_name _ = []"

definition unbound :: "'w client \<Rightarrow> cos_name list" where
  "unbound t = concat (map unbound_name (cl_calls t))"

lemma unbound_invoke: "invoke f c t = (r, t1) \<Longrightarrow> unbound t1 = unbound t @ unbound_name c"
  by (auto simp: unbound_def dest!: invoke_calls)

lemma lookup_unbinds: "is_lookup c \<Longrightarrow> unbound_name c = []"
  by (cases c) simp_all

definition served_names :: "'x served client \<Rightarrow> service \<times> cos_name list" where
  "served_names t = (sr_service (cl_world t), unbound t)"

lemma served_invoke:
  assumes "invoke f c t = (r, t1)" and "\<And>w. sr_service (snd (f c w)) = sr_service w"
  shows "served_names t1 = (fst (served_names t), snd (served_names t) @ unbound_name c)"
proof -
  have "sr_service (cl_world t1) = sr_service (cl_world t)"
    using assms(1) assms(2) [of "cl_world t"] by (auto simp: invoke_def split: prod.splits)
  then show ?thesis using unbound_invoke [OF assms(1)] by (simp add: served_names_def)
qed

lemma serves_others:
  "sr_service (snd (serve_list N c w)) = sr_service w" "sr_service (snd (serve_next N c w)) = sr_service w"
  "sr_service (snd (serve_unit N E (RcNsUnbind x n) w)) = sr_service w"
  by (simp_all add: serve_list_def serve_next_def serve_unit_def outside_def split: rcall.split prod.split option.split)

text \<open>A failed \<^verbatim>\<open>unbind\<close> raises an exception of CORBA.\<close>

definition unbind_raises :: "'x remote \<Rightarrow> bool" where
  "unbind_raises N \<longleftrightarrow> (\<forall>c n x e. fst (rm_unit N (RcNsUnbind c n) x) = Inl e \<longrightarrow> is_corba_exn e)"

lemma unbind_channel_visit:
  assumes "str2name (ci_channel_name i) = Inr n" and "unbind_raises N"
  shows "\<exists>t1. unbind_channel (service_remote N E) (Some c) i t = (Inr (), t1) \<and>
    served_names t1 = (fst (served_names t), snd (served_names t) @ [n]) \<and>
    pending_items j (cl_world t1) = pending_items j (cl_world t)"
proof -
  let ?R = "service_remote N E"
  obtain r t1 where u: "invoke (rm_unit ?R) (RcNsUnbind c n) t = (r, t1)" by force
  then have s: "served_names t1 = (fst (served_names t), snd (served_names t) @ [n])"
    by (simp add: served_invoke [OF u] service_remote_def serves_others)
  have p: "pending_items j (cl_world t1) = pending_items j (cl_world t)"
    using factory_lists.unbind_pending [of j N E c n "cl_world t"] u by (auto simp: invoke_def split: prod.splits)
  have e: "is_corba_exn e" if "r = Inl e" for e
  proof -
    have "fst (rm_unit N (RcNsUnbind c n) (sr_ext (cl_world t))) = Inl e"
      using u that by (auto simp: invoke_def service_remote_def serve_unit_def outside_def split: prod.splits)
    then show ?thesis using assms(2) unfolding unbind_raises_def by blast
  qed
  have "served_names (cerr x t1) = served_names t1" "cl_world (cerr x t1) = cl_world t1" for x
    by (simp_all add: served_names_def unbound_def cerr_def)
  then show ?thesis using u s p e assms(1)
    by (cases r) (simp_all add: unbind_channel_def tool_name_def on_ref_def is_cpp_exn_def)
qed

lemma list_unbinds:
  assumes "unbind_raises N"
    and "list_all2 (\<lambda>i n. str2name (ci_channel_name i) = Inr n) (store_list (sr_service (cl_world t))) names"
  shows "\<exists>t1. list_all (service_remote N E) fac (unbind_channel (service_remote N E) (Some c)) t = Some (Inr (), t1) \<and>
    sr_service (cl_world t1) = sr_service (cl_world t) \<and> unbound t1 = unbound t @ names"
proof -
  let ?R = "service_remote N E" and ?is = "store_list (sr_service (cl_world t))"
  let ?h = "\<lambda>(i :: channel_info) (sv :: service, ns). (sv, ns @ [projr (str2name (ci_channel_name i))])"
  have f: "fold ?h is (sv, ns) = (sv, ns @ map (\<lambda>i. projr (str2name (ci_channel_name i))) is)" for "is" sv ns
    by (induction "is" arbitrary: ns) simp_all
  have m: "map (\<lambda>i. projr (str2name (ci_channel_name i))) ?is = names"
    using assms(2) by (induction rule: list_all2_induct) simp_all
  have v: "\<exists>n. str2name (ci_channel_name i) = Inr n" if "i \<in> set ?is" for i
    using assms(2) that by (auto simp: list_all2_conv_all_nth in_set_conv_nth)
  have "\<exists>t1. list_all ?R fac (unbind_channel ?R (Some c)) t = Some (Inr (), t1) \<and>
      served_names t1 = fold ?h ?is (served_names t)"
  proof (rule factory_lists.list_all_visits)
    fix i j and u :: "'a served client"
    assume "i \<in> set ?is"
    then obtain n where n: "str2name (ci_channel_name i) = Inr n" using v by blast
    show "\<exists>t1. unbind_channel ?R (Some c) i u = (Inr (), t1) \<and> served_names t1 = ?h i (served_names u) \<and>
        pending_items j (cl_world t1) = pending_items j (cl_world u)"
      using unbind_channel_visit [OF n assms(1), where E = E and c = c and t = u and j = j] n by (auto simp: split_beta)
  qed (simp_all add: served_invoke service_remote_def serves_others split: rcall.split)
  then show ?thesis using f m by (auto simp: served_names_def)
qed

text \<open>
  \<^verbatim>\<open>rmeventall -n\<close> ends, and if it ends with 0 it has asked the naming service, before anything
  was deleted, to unbind the name of every channel in the store, in order, whether it knew
  these names or not; and then the factory has destroyed all of its channels without an
  exception. The names are those that \<^verbatim>\<open>str2name\<close> reads, and a failed \<^verbatim>\<open>unbind\<close> raises an exception of
  CORBA.
\<close>

lemma rmeventall_unbinds_all:
  assumes "unbind_raises N"
    and "list_all2 (\<lambda>i n. str2name (ci_channel_name i) = Inr n) (store_list (sr_service s)) names"
  shows "\<exists>m. rmeventall_run (service_remote N E) True args (client_start s) = Some m \<and>
    (\<forall>t1. m = (Inr 0, t1) \<longrightarrow> unbound t1 = names \<and>
      (\<exists>w w1. delete_all E (sr_service s, w) = (None, sr_service (cl_world t1), w1)))"
proof -
  let ?R = "service_remote N E"
  have "\<exists>m. rmeventall_body ?R True args (client_start s) = Some m \<and>
    (\<forall>t1. m = (Inr 0, t1) \<longrightarrow> unbound t1 = names \<and> 
      (\<exists>w w1. delete_all E (sr_service s, w) = (None, sr_service (cl_world t1), w1)))"
  proof (cases "then_r (root_context ?R True [] (client_start s)) (\<lambda>ns t1. then_r (factory_found ?R args ns t1) (\<lambda>fac t2. (Inr (ns, fac), t2)))")
    case (Pair look t)
    show ?thesis
    proof (cases look)
      case (Inr nf)
      obtain ns fac where nf: "nf = (ns, fac)" by force
      obtain t0 where r: "root_context ?R True [] (client_start s) = (Inr ns, t0)" and f: "factory_found ?R args ns t0 = (Inr fac, t)"
        using Pair Inr nf by (auto simp: then_r_Inr)
      obtain c where c: "ns = Some c" using root_needed [OF r] by auto
      have k: "sr_service (cl_world t) = sr_service s"
        using kept.trans [OF kept.root_context_safe [OF r] kept.factory_found_safe [OF f]] by (simp add: keeps_service_def client_start_def)
      have u: "unbound t = []" 
        using looks.trans [OF looks.root_context_safe [OF r] looks.factory_found_safe [OF f]]
        by (auto simp: looks_def client_start_def unbound_def lookup_unbinds)
      obtain t1 where l: "list_all ?R fac (unbind_channel ?R (Some c)) t = Some (Inr (), t1)"
        "sr_service (cl_world t1) = sr_service s" "unbound t1 = names"
        using list_unbinds [OF assms(1), where t = t and names = names and E = E and c = c and fac = fac] assms(2) k u by auto
      have b: "rmeventall_body ?R True args (client_start s) = Some (then_r (invoke (rm_unit ?R) (RcDeleteAll fac)
          (doing ''delete all Event Channels'' t1)) (\<lambda>_. destroy_orb ?R))"
        using r f l(1) c by (simp add: rmeventall_body_def)
      have "unbound t3 = names \<and> (\<exists>w w1. delete_all E (sr_service s, w) = (None, sr_service (cl_world t3), w1))"
        if fin: "then_r (invoke (rm_unit ?R) (RcDeleteAll fac) (doing ''delete all Event Channels'' t1)) (\<lambda>_. destroy_orb ?R) = (Inr 0, t3)" for t3
      proof -
        obtain u t2 where d: "invoke (rm_unit ?R) (RcDeleteAll fac) (doing ''delete all Event Channels'' t1) = (Inr u, t2)"
          and o: "destroy_orb ?R t2 = (Inr 0, t3)" using fin by (auto simp: then_r_Inr)
        have "sr_service (cl_world t3) = sr_service (cl_world t2) \<and> unbound t3 = unbound t2"
          using o by (auto simp: destroy_orb_def then_r_Inr doing_def service_remote_def invoke_def serve_unit_def outside_def
              unbound_def split: prod.splits)
        moreover have "unbound t2 = unbound t1" using unbound_invoke [OF d] by (simp add: unbound_def)
        moreover have "\<exists>w w1. delete_all E (sr_service s, w) = (None, sr_service (cl_world t2), w1)"
          using d l(2) by (auto simp: doing_def service_remote_def invoke_def serve_unit_def split: prod.splits option.splits) blast
        ultimately show ?thesis using l(3) by simp
      qed
      then show ?thesis using b by blast
    qed (use Pair in \<open>auto simp: rmeventall_body_def then_r_def split: sum.splits prod.splits\<close>)
  qed
  then obtain m where "rmeventall_body ?R True args (client_start s) = Some m" and "\<forall>t1. m = (Inr 0, t1) \<longrightarrow> unbound t1 = names \<and>
    (\<exists>w w1. delete_all E (sr_service s, w) = (None, sr_service (cl_world t1), w1))" by blast
  then show ?thesis by (simp add: rmeventall_run_def handlers_0)
qed

section \<open>From the command line of eventc to the channel\<close>

text \<open>The reference: the last positive number that is given for a letter, modulo \<open>2 ^ 32\<close>.\<close>

fun option_number :: "char \<Rightarrow> (char \<times> string option) list \<Rightarrow> ulong \<Rightarrow> ulong" where
  "option_number x [] d = d"
| "option_number x ((c, arg) # cos) d = option_number x cos
     (case arg of
        Some s \<Rightarrow> if c = x \<and> 0 < (word_of_int (c_atol s) :: ulong) then word_of_int (c_atol s) else d
      | None \<Rightarrow> d)"

definition criterion_letters :: "(string \<times> char) list" where
  "criterion_letters = [(''MaxQueueLength'', CHR ''q''), (''MaxNumProxies'', CHR ''p''), (''CyclePeriod_ns'', CHR ''c'')]"

lemma criterion_value_append: "criterion_value name (a @ b) d = criterion_value name b (criterion_value name a d)"
  by (induction name a d rule: criterion_value.induct) simp_all

lemma eventc_option_value:
  "eventc_option o1 (c, arg) = Inr o2 \<Longrightarrow> (name, x) \<in> set criterion_letters \<Longrightarrow>
   criterion_value name (eo_criteria o2) d = option_number x [(c, arg)] (criterion_value name (eo_criteria o1) d)"
  by (cases arg) (auto simp: eventc_option_def with_optarg_def appendCriterion_def appendCriterionStr_def criterion_letters_def
      criterion_value_append any_of_ulong_def any_of_string_def any_ulong_def split: if_splits)

lemma option_number_Cons: "option_number x (co # cos) d = option_number x cos (option_number x [co] d)"
  by (cases co) simp

lemma eventc_options_value:
  "each_option eventc_option cs o1 = Inr o2 \<Longrightarrow> (name, x) \<in> set criterion_letters \<Longrightarrow>
   criterion_value name (eo_criteria o2) d = option_number x cs (criterion_value name (eo_criteria o1) d)"
proof (induction cs arbitrary: o1)
  case (Cons co cs)
  obtain c arg where co: "co = (c, arg)" by force
  obtain o3 where o3: "eventc_option o1 (c, arg) = Inr o3" and r: "each_option eventc_option cs o3 = Inr o2"
    using Cons.prems(1) co by (auto split: sum.splits)
  show ?case using Cons.IH [OF r Cons.prems(2)] eventc_option_value [OF o3 Cons.prems(2)]
    by (simp only: co option_number_Cons [of x "(c, arg)" cs])
qed simp

text \<open>The object that is made.\<close>

lemma create_object_chan:
  assumes "create_object E k cr (sv, w) = (Inr obj, sv1, w1)"
  obtains node a c where "parseCriteria cr = Inr node" and "map_of (sv_chans sv1) a = Some c"
    and "pn_attr (ch_props c) = pn_attr node"
proof -
  obtain node where n: "parseCriteria cr = Inr node" using assms by (auto simp: create_object_def split: if_splits sum.splits)
  obtain cid w0 where i: "(if hasAttr ''InsName'' node then (attrString ''InsName'' [] node, w) else newUniqueId E w) = (cid, w0)" by force
  obtain a w2 where m: "new_channel E cid node (sv, w0) = (None, a, sv1, w2)"
    using assms n i by (auto simp: create_object_def split: if_splits sum.splits option.splits prod.splits)
  then obtain c w3 where c: "ch_activate E a cid (Some node) (EventChannel_i, w0) = (None, c, w3)"
    and s: "sv1 = sv\<lparr>sv_chans := smap_set a c (sv_chans sv)\<rparr>"
    by (auto simp: new_channel_def Let_def split: prod.splits option.splits)
  have "channel_key c = (cid, pn_attr node)" using ch_activate_key [OF c] .
  then show thesis using that [OF n, of a c] s by (simp add: channel_key_def map_of_smap_set)
qed

definition same_service :: "'x served client \<Rightarrow> 'x served client \<Rightarrow> bool" where
  "same_service t t1 \<longleftrightarrow> sr_service (cl_world t1) = sr_service (cl_world t)"

lemma text_same: "invoke (outside f) c t = (r, t1) \<Longrightarrow> same_service t t1"
  by (auto simp: same_service_def invoke_def outside_def split: prod.splits)

lemma unit_same: "invoke (serve_unit N E) c t = (r, t1) \<Longrightarrow> (\<And>f. c \<noteq> RcDeleteAll f) \<Longrightarrow> same_service t t1"
  by (cases c) (auto simp: same_service_def invoke_def serve_unit_def outside_def split: prod.splits)

lemma same_simps [simp]:
  "same_service t (cout s t1) = same_service t t1" "same_service (doing a t) t1 = same_service t t1" "same_service t t"
  by (simp_all add: same_service_def cout_def doing_def)

lemma after_create_same:
  assumes "eventc_print (service_remote N E) o1 ch t = (Inr u, t1)"
    and "eventc_register (service_remote N E) name ns ch t1 = (Inr v, t2)" and "destroy_orb (service_remote N E) t2 = (Inr n, t3)"
  shows "sr_service (cl_world t3) = sr_service (cl_world t)"
proof -
  have "same_service t t1" using assms(1)
    by (auto simp: eventc_print_def then_r_Inr service_remote_def split: if_splits dest: text_same)
  moreover have "same_service t1 t2" using register_cases [OF assms(2)]
    by (auto simp: service_remote_def same_service_def doing_def dest!: unit_same)
  moreover have "same_service t2 t3" using assms(3)
    by (auto simp: destroy_orb_def then_r_Inr service_remote_def dest!: unit_same)
  ultimately show ?thesis by (simp add: same_service_def)
qed

lemma eventc_create_chan:
  assumes "eventc_create (service_remote N E) o1 fac t = (Inr ch, t1)"
  obtains node a c where "parseCriteria (eo_criteria o1) = Inr node" and "map_of (sv_chans (sr_service (cl_world t1))) a = Some c"
    and "pn_attr (ch_props c) = pn_attr node"
proof -
  let ?R = "service_remote N E"
  obtain t2 obj t3 where c: "invoke (rm_ref ?R) (RcCreateObject fac channel_life_key (eo_criteria o1))
      (doing ''create EventChannel object'' t2) = (Inr (Some obj), t3)"
    and n: "invoke (rm_ref ?R) (RcNarrow ''CosEventChannelAdmin::EventChannel'' (Some obj)) t3 = (Inr (Some ch), t1)"
    using assms by (auto simp: eventc_create_def then_r_Inr split: if_splits option.splits)
  obtain r sv w where o: "create_object E channel_life_key (eo_criteria o1) (sr_service (cl_world t2), sr_world (cl_world t2)) = (r, sv, w)"
    by (metis prod_cases3)
  have "map_sum id Some r = Inr (Some obj) \<and> sr_service (cl_world t3) = sv"
    using c by (auto simp: invoke_def doing_def service_remote_def serve_ref_def o)
  then have "create_object E channel_life_key (eo_criteria o1) (sr_service (cl_world t2), sr_world (cl_world t2)) = (Inr obj, sv, w)"
    "sr_service (cl_world t3) = sv" using o by (cases r; simp)+
  moreover have "sr_service (cl_world t1) = sr_service (cl_world t3)"
    using kept.lookup [OF n] by (simp add: keeps_service_def)
  ultimately show thesis using that create_object_chan by metis
qed

text \<open>
  C30. The command line of \<^verbatim>\<open>eventc\<close> and the channel in the service. If the tool ends with 0, the
  service holds a channel with the queue length, the number of proxies and the cycle period that
  the last positive arguments of \<^verbatim>\<open>-q\<close>, \<^verbatim>\<open>-p\<close> and \<^verbatim>\<open>-c\<close> give, and the defaults of the server where
  there is none; the arguments are read modulo \<open>2 ^ 32\<close>, and the period is sign extended.
\<close>

theorem eventc_makes_channel:
  assumes "eventc (service_remote N E) argv (client_start s) = (Inr 0, t1)"
    and "getopt_all argv ''n:N:m:c:i:p:q:R:r:t:vh'' getopt_start = (cs, st)"
  shows "\<exists>a c. map_of (sv_chans (sr_service (cl_world t1))) a = Some c \<and>
    maxQueueLength (ch_props c) = option_number (CHR ''q'') cs 1023 \<and>
    maxNumProxies (ch_props c) = option_number (CHR ''p'') cs 1024 \<and>
    cyclePeriod_ns (ch_props c) = word_of_int (sint (option_number (CHR ''c'') cs 100000000))"
proof -
  let ?R = "service_remote N E"
  obtain o1 where o1: "each_option eventc_option cs eventc_defaults = Inr o1"
    and run: "eventc_run ?R o1 (drop (go_optind st) argv) (client_start s) = (Inr 0, t1)"
    using assms by (auto simp: eventc_def run_tool_def split: sum.splits)
  obtain fac s3 ch s4 ns s5 u s6 v where create: "eventc_create ?R o1 fac s3 = (Inr ch, s4)"
    and rest: "eventc_print ?R o1 ch s4 = (Inr u, s5)" "eventc_register ?R (eo_channelName o1) ns ch s5 = (Inr v, s6)"
      "destroy_orb ?R s6 = (Inr 0, t1)"
    using run unfolding eventc_run_def handlers_0 eventc_body_def then_r_Inr by blast
  from create obtain node a c where n: "parseCriteria (eo_criteria o1) = Inr node"
    and c: "map_of (sv_chans (sr_service (cl_world s4))) a = Some c" "pn_attr (ch_props c) = pn_attr node"
    by (rule eventc_create_chan)
  have at: "maxQueueLength (ch_props c) = maxQueueLength node" "maxNumProxies (ch_props c) = maxNumProxies node"
    "cyclePeriod_ns (ch_props c) = cyclePeriod_ns node"
    using c(2) by (simp_all add: maxQueueLength_def maxNumProxies_def cyclePeriod_ns_def attrLong_def)
  have v: "criterion_value name (eo_criteria o1) d = option_number x cs d" if "(name, x) \<in> set criterion_letters" for name x d
    using eventc_options_value [OF o1 that, of d] by (simp add: eventc_defaults_def)
  have l: "(''MaxQueueLength'', CHR ''q'') \<in> set criterion_letters" "(''MaxNumProxies'', CHR ''p'') \<in> set criterion_letters"
    "(''CyclePeriod_ns'', CHR ''c'') \<in> set criterion_letters" by (simp_all add: criterion_letters_def)
  have "map_of (sv_chans (sr_service (cl_world t1))) a = Some c" using c(1) after_create_same [OF rest] by simp
  then show ?thesis
    using parseCriteria_values [OF n] unfolding v [OF l(1)] v [OF l(2)] v [OF l(3)] at [symmetric] by blast
qed

definition empty_served :: "unit served" where
  "empty_served = \<lparr>sr_ext = (), sr_service = \<lparr>sv_chans = [], sv_store = [], sv_port = 11169, sv_endPointNoListen = []\<rparr>,
    sr_world = init_world True, sr_iters = []\<rparr>"
lemma eventc_argv: "getopt_all [''eventc'', ''-q'', ''8'', ''-i'', ''news''] ''n:N:m:c:i:p:q:R:r:t:vh'' getopt_start =
  ([(CHR ''q'', Some ''8''), (CHR ''i'', Some ''news'')], \<lparr>go_optind = 5, go_letP = None, go_optarg = None\<rparr>)"
  by code_simp
lemma eventc_opts: "each_option eventc_option [(CHR ''q'', Some ''8''), (CHR ''i'', Some ''news'')] eventc_defaults =
  Inr (eventc_defaults\<lparr>eo_criteria := [(''MaxQueueLength'', any_of_ulong 8), (''InsName'', any_of_string ''news'')]\<rparr>)"
  by code_simp
lemma idle_create:
  assumes "supports k" and "parseCriteria cr = Inr node" and "hasAttr ''InsName'' node" and "pn_child node = []"
    and "EventQueue (uint (maxQueueLength node)) = Inr q"
  shows "\<exists>obj sv1 w1. create_object idle_env k cr (sv, w) = (Inr obj, sv1, w1)"
proof -
  obtain c w1 where "ch_activate idle_env (env_alloc idle_env (w_trace w)) (attrString ''InsName'' [] node) (Some node)
      (EventChannel_i, w) = (None, c, w1)" using idle_channel [OF assms(4,5)] by blast
  then show ?thesis using assms(1-3) by (simp add: create_object_def new_channel_def Let_def)
qed

lemma eventc_runs:
  "\<exists>t1. eventc (service_remote quiet_remote idle_env) [''eventc'', ''-q'', ''8'', ''-i'', ''news''] (client_start empty_served) = (Inr 0, t1)"
proof -
  let ?cr = "[(''MaxQueueLength'', any_of_ulong 8), (''InsName'', any_of_string ''news'')]"
  have p: "parseCriteria ?cr = Inr (PersistNode [(''InsName'', ''news''), (''MaxQueueLength'', ''8'')] [])" by code_simp
  have k: "supports channel_life_key" by (simp add: supports_def channel_life_key_def)
  have a: "c_atol ''8'' = 8" by code_simp
  have q: "EventQueue (uint (maxQueueLength (PersistNode [(''InsName'', ''news''), (''MaxQueueLength'', ''8'')] []))) =
      Inr (projr (EventQueue 8))"
    by (simp add: maxQueueLength_def attrLong_def a EventQueue_def)
  have h: "hasAttr ''InsName'' (PersistNode [(''InsName'', ''news''), (''MaxQueueLength'', ''8'')] [])" by (simp add: hasAttr_def)
  have "\<exists>obj sv1 w1. create_object idle_env channel_life_key ?cr (sr_service empty_served, sr_world empty_served) = (Inr obj, sv1, w1)"
    using idle_create [OF k p h _ q] by simp
  then obtain obj sv1 w1 where c: "create_object idle_env channel_life_key ?cr (sr_service empty_served, sr_world empty_served) = (Inr obj, sv1, w1)"
    by blast
  show ?thesis unfolding eventc_def run_tool_def eventc_argv prod.case eventc_opts sum.case eventc_run_def handlers_0
    by (simp add: eventc_defaults_def eventc_body_def root_context_def resolve_naming_def factory_object_def ns_lookup_def tool_name_def
        plain_names narrow_factory_def eventc_create_def eventc_print_def eventc_register_def tool_steps service_remote_def
        serve_ref_def serve_bool_def serve_unit_def outside_def quiet_remote_def client_start_def k c)
qed

theorem eventc_makes_channel_witness:
  "\<exists>t1 a c. eventc (service_remote quiet_remote idle_env) [''eventc'', ''-q'', ''8'', ''-i'', ''news''] (client_start empty_served) = (Inr 0, t1) \<and>
    map_of (sv_chans (sr_service (cl_world t1))) a = Some c \<and> maxQueueLength (ch_props c) = 8 \<and> maxNumProxies (ch_props c) = 1024"
proof -
  obtain t1 where t: "eventc (service_remote quiet_remote idle_env) [''eventc'', ''-q'', ''8'', ''-i'', ''news''] (client_start empty_served) = (Inr 0, t1)"
    using eventc_runs by blast
  have "c_atol ''8'' = 8" by code_simp
  then show ?thesis using eventc_makes_channel [OF t eventc_argv] t by auto
qed

definition two_channels :: "unit served" where
  "two_channels = empty_served\<lparr>sr_service := (sr_service empty_served)\<lparr>sv_chans := [(3, EventChannel_i\<lparr>ch_poa := Some ''a''\<rparr>),
     (5, EventChannel_i\<lparr>ch_poa := Some ''b.c''\<rparr>)], sv_store := [(3, ()), (5, ())]\<rparr>\<rparr>"

lemma two_listed: "map ci_channel_name (store_list (sr_service two_channels)) = [''a'', ''b.c'']"
  by (simp add: two_channels_def store_list_def stored_def List.map_filter_def channel_info_of_def ch_getname_def)


definition zero_exit :: "('w, int) answer option \<Rightarrow> bool" where
  "zero_exit m = (case m of Some (Inr n, t) \<Rightarrow> n = 0 | _ \<Rightarrow> False)"

lemma zero_exitD: "zero_exit m \<Longrightarrow> \<exists>t1. m = Some (Inr 0, t1)"
  by (auto simp: zero_exit_def split: option.splits prod.splits sum.splits)


lemma map_eq_list_all2: "map f xs = map g ys \<Longrightarrow> list_all2 (\<lambda>x y. f x = g y) xs ys"
  by (simp add: list_all2_conv_all_nth list_eq_iff_nth_eq)

end
